(* ===== verification/Prelude.thy ===== *)
theory Prelude
  imports Main "HOL-Library.Word" "HOL-Library.Multiset" "HOL-Library.AList"
begin

text \<open>
  Shared ground of the development: machine-integer synonyms, the error values of the Go
  code, Go maps as association lists, the order in which a \<^verbatim>\<open>range\<close> loop visits a Go map,
  and generic lemmas on lists, association lists and sums that the component theories use.
\<close>

section \<open>Basic types\<close>

type_synonym byte = "8 word"
type_synonym uint64 = "64 word"

text \<open>A Go hash is an array of 32 bytes, an address one of 20 bytes; both are compared and
  used as map keys by value. They are words of the same size; the byte view is
  \<open>word_bytes\<close> below, most significant byte first.\<close>

type_synonym Hash = "256 word"
type_synonym Address = "160 word"

text \<open>Lemma collections: \<open>frames\<close> for the fields an operation leaves alone, \<open>golookup\<close> for
  what a lookup returns after an update.\<close>

named_theorems frames
named_theorems golookup

section \<open>Go maps\<close>

text \<open>A Go map whose entries are iterated or counted is an association list with distinct
  keys: \<open>AList.update\<close> is \<^verbatim>\<open>m[k] = v\<close>, \<open>AList.delete\<close> is \<^verbatim>\<open>delete(m, k)\<close> and \<open>map_of\<close> is
  the lookup. A \<^verbatim>\<open>range\<close> loop visits the entries in an order the language leaves
  unspecified: the operations that range over a map take that order as an argument,
  a function that permutes the list of entries.\<close>

type_synonym ('k, 'v) gomap = "('k \<times> 'v) list"

definition gomap_ok :: "('k, 'v) gomap \<Rightarrow> bool" where
  "gomap_ok m \<longleftrightarrow> distinct (map fst m)"

definition range_order :: "('a list \<Rightarrow> 'a list) \<Rightarrow> bool" where
  "range_order ord \<longleftrightarrow> (\<forall>xs. mset (ord xs) = mset xs)"

lemma range_order_id [simp]: "range_order id" "range_order (\<lambda>xs. xs)"
  by (auto simp: range_order_def)

lemma range_order_rev [simp]: "range_order rev"
  by (simp add: range_order_def)

lemma range_order_set: "range_order ord \<Longrightarrow> set (ord xs) = set xs"
  by (metis mset_eq_setD range_order_def)

lemma range_order_distinct: "range_order ord \<Longrightarrow> distinct (ord xs) = distinct xs"
  by (metis mset_eq_imp_distinct_iff range_order_def)

lemma range_order_distinct_map:
  "range_order ord \<Longrightarrow> distinct (map f (ord xs)) = distinct (map f xs)"
  by (metis mset_eq_imp_distinct_iff mset_map range_order_def)

lemma range_order_map_of:
  assumes "range_order ord" and "distinct (map fst m)"
  shows "map_of (ord m) = map_of m"
proof
  fix k
  have d: "distinct (map fst (ord m))"
    using assms by (simp add: range_order_distinct_map)
  have s: "set (ord m) = set m"
    using assms(1) by (rule range_order_set)
  show "map_of (ord m) k = map_of m k"
    using d s assms(2) by (metis map_of_inject_set)
qed

lemma gomap_ok_Nil [simp]: "gomap_ok []"
  by (simp add: gomap_ok_def)

lemma gomap_ok_update [simp]: "gomap_ok m \<Longrightarrow> gomap_ok (AList.update k v m)"
  by (simp add: gomap_ok_def distinct_update)

lemma gomap_ok_delete [simp]: "gomap_ok m \<Longrightarrow> gomap_ok (AList.delete k m)"
  by (simp add: gomap_ok_def distinct_delete)

lemma map_of_update [simp, golookup]:
  "map_of (AList.update k v m) = (map_of m)(k \<mapsto> v)"
  by (simp add: update_conv')

lemma map_of_delete [simp, golookup]:
  "map_of (AList.delete k m) = (map_of m)(k := None)"
  by (simp add: delete_conv')

lemma map_of_mem: "map_of m k = Some v \<Longrightarrow> (k, v) \<in> set m"
  by (rule map_of_SomeD)

lemma gomap_mem: "gomap_ok m \<Longrightarrow> (k, v) \<in> set m \<Longrightarrow> map_of m k = Some v"
  by (simp add: gomap_ok_def)

section \<open>Lists\<close>

definition list_swap :: "'a list \<Rightarrow> nat \<Rightarrow> nat \<Rightarrow> 'a list" where
  "list_swap xs i j = xs[i := xs ! j, j := xs ! i]"

lemma length_list_swap [simp]: "length (list_swap xs i j) = length xs"
  by (simp add: list_swap_def)

lemma mset_list_swap [simp]:
  "i < length xs \<Longrightarrow> j < length xs \<Longrightarrow> mset (list_swap xs i j) = mset xs"
  by (simp add: list_swap_def mset_swap)

text \<open>Removing the last occurrence, as a loop from the end of a slice does.\<close>

definition remove_last1 :: "'a \<Rightarrow> 'a list \<Rightarrow> 'a list" where
  "remove_last1 x xs = rev (remove1 x (rev xs))"

lemma remove_last1_distinct:
  "distinct xs \<Longrightarrow> remove_last1 x xs = remove1 x xs"
  by (simp add: remove_last1_def distinct_remove1_removeAll removeAll_filter_not_eq
      flip: rev_filter)

lemma sorted_last_Max:
  fixes xs :: "'a::linorder list"
  assumes "sorted xs" and "xs \<noteq> []"
  shows "last xs = Max (set xs)"
proof -
  have "sorted (butlast xs @ [last xs])" using assms by simp
  then have "\<forall>y \<in> set (butlast xs). y \<le> last xs" by (simp add: sorted_append)
  moreover have "set xs = insert (last xs) (set (butlast xs))"
    using assms(2) by (metis append_butlast_last_id list.simps(15) rotate1.simps(2) set_rotate1)
  ultimately show ?thesis by (intro Max_eqI [symmetric]) auto
qed

section \<open>Byte strings\<close>

text \<open>Big-endian bytes of a word, the number a byte string denotes, and its least byte
  string (\<^verbatim>\<open>big.Int.Bytes\<close>).\<close>

primrec word_bytes :: "nat \<Rightarrow> 'a::len word \<Rightarrow> byte list" where
  "word_bytes 0 w = []"
| "word_bytes (Suc n) w = ucast (drop_bit (8 * n) w) # word_bytes n w"

primrec bytes_val :: "byte list \<Rightarrow> nat" where
  "bytes_val [] = 0"
| "bytes_val (b # bs) = unat b * 256 ^ length bs + bytes_val bs"

fun nat_bytes :: "nat \<Rightarrow> byte list" where
  "nat_bytes n = (if n = 0 then [] else nat_bytes (n div 256) @ [of_nat (n mod 256)])"

declare nat_bytes.simps [simp del]

lemma length_word_bytes [simp]: "length (word_bytes n w) = n"
  by (induction n) auto

lemma bytes_val_bound: "bytes_val bs < 256 ^ length bs"
proof (induction bs)
  case Nil
  then show ?case by simp
next
  case (Cons b bs)
  have "unat b < 256"
    using unsigned_less [of b, where 'a = nat] by simp
  then have le: "unat b + 1 \<le> 256" by simp
  have "bytes_val (b # bs) < (unat b + 1) * 256 ^ length bs"
    using Cons.IH by (simp add: algebra_simps)
  also have "\<dots> \<le> 256 * 256 ^ length bs"
    using le by (rule mult_right_mono) simp
  finally show ?case by simp
qed

lemma unat_ucast_drop_bit:
  "unat (ucast (drop_bit (8 * n) w) :: byte) = unat w div 256 ^ n mod 256"
proof -
  have "(2::nat) ^ (8 * n) = 256 ^ n"
    by (simp add: power_mult)
  then show ?thesis
    by (simp add: unsigned_ucast_eq unat_drop_bit_eq take_bit_eq_mod drop_bit_eq_div [of _ "unat w"])
qed

lemma bytes_val_word_bytes: "bytes_val (word_bytes n w) = unat w mod 256 ^ n"
proof (induction n)
  case 0
  then show ?case by simp
next
  case (Suc n)
  have "unat w mod 256 ^ Suc n = 256 ^ n * (unat w div 256 ^ n mod 256) + unat w mod 256 ^ n"
    using mod_mult2_eq [of "unat w" "256 ^ n" 256] by (simp add: mult.commute)
  moreover have "bytes_val (word_bytes (Suc n) w)
      = unat w div 256 ^ n mod 256 * 256 ^ n + unat w mod 256 ^ n"
    using Suc by (simp add: unat_ucast_drop_bit)
  ultimately show ?case by simp
qed

lemma bytes_val_word_full:
  fixes w :: "'a::len word"
  assumes "LENGTH('a) = 8 * n"
  shows "bytes_val (word_bytes n w) = unat w"
proof -
  have "unat w < 256 ^ n"
    using unsigned_less [of w, where 'a = nat] assms by (simp add: power_mult)
  then show ?thesis by (simp add: bytes_val_word_bytes)
qed

lemma word_bytes_inject:
  fixes v w :: "'a::len word"
  assumes "LENGTH('a) = 8 * n" and "word_bytes n v = word_bytes n w"
  shows "v = w"
  using assms bytes_val_word_full [of n v] bytes_val_word_full [of n w]
  by (simp add: word_unat_eq_iff)

lemma bytes_val_append:
  "bytes_val (xs @ ys) = bytes_val xs * 256 ^ length ys + bytes_val ys"
  by (induction xs) (auto simp: algebra_simps power_add)

lemma bytes_val_nat_bytes [simp]: "bytes_val (nat_bytes n) = n"
proof (induction n rule: nat_bytes.induct)
  case (1 n)
  show ?case
  proof (cases "n = 0")
    case True
    then show ?thesis by (simp add: nat_bytes.simps)
  next
    case False
    then have "bytes_val (nat_bytes n) = n div 256 * 256 + unat (of_nat (n mod 256) :: byte)"
      using 1 by (simp add: nat_bytes.simps [of n] bytes_val_append)
    also have "unat (of_nat (n mod 256) :: byte) = n mod 256"
      by (simp add: unat_of_nat)
    finally show ?thesis by simp
  qed
qed

end
