(* ===== verification/OGTypes.thy ===== *)
theory OGTypes
  imports Prelude
begin

text \<open>
  The data of \<^verbatim>\<open>src/types\<close>: transactions, sequencers, the \<^verbatim>\<open>Txi\<close> interface they share, hash
  comparison, byte setters, weights and the order of \<^verbatim>\<open>Txis\<close>; the arithmetic of
  \<^verbatim>\<open>src/common/math/bigint.go\<close>; and the error values of the core packages.
  The hash function of \<^verbatim>\<open>CalcTxHash\<close> and \<^verbatim>\<open>CalcMinedHash\<close> is an argument.
\<close>

section \<open>Errors\<close>

text \<open>Each constructor is one error the modelled code returns; \<open>ErrPanic\<close> is a run-time
  panic.\<close>

datatype error =
    ErrDuplicateTx
  | ErrNonceNotExist
  | ErrPanic string
  | ErrDB
  | ErrUnmarshal
  | ErrNotFound
  | ErrMustBePositive
  | ErrAlreadyExists
  | ErrBalanceLow
  | ErrRemoveTooMuch
  | ErrNoFlow
  | ErrFlowEmpty
  | ErrSurelyIncorrect Hash
  | ErrSeqNonceInDag uint64
  | ErrElderNotFound Hash
  | ErrSeqNonceEqElder uint64 Hash
  | ErrBalanceNotEnough Address
  | ErrNonceNotZero uint64
  | ErrNonceNotNext uint64 uint64
  | ErrNonceOrder uint64 uint64
  | ErrSeqNonceNotNext uint64 uint64
  | ErrHeightMismatch uint64 uint64
  | ErrNoTxList
  | ErrTxNotInList uint64
  | ErrBadGenesisHeight
  | ErrHashNotExist Hash
  | ErrVM
  | ErrTrie
  | ErrTooLong

section \<open>Big integers (common/math/bigint.go)\<close>

text \<open>A \<^verbatim>\<open>*math.BigInt\<close> is an \<open>int\<close>. \<^verbatim>\<open>NewBigIntFromBigInt\<close> rebuilds the number from
  \<^verbatim>\<open>x.Bytes()\<close>, the bytes of its absolute value, so the sign is lost.\<close>

definition NewBigIntFromBigInt :: "int \<Rightarrow> int" where
  "NewBigIntFromBigInt x = int (bytes_val (nat_bytes (nat \<bar>x\<bar>)))"

definition BigInt_Add :: "int \<Rightarrow> int \<Rightarrow> int" where
  "BigInt_Add bi increment = NewBigIntFromBigInt (bi + increment)"

definition BigInt_Sub :: "int \<Rightarrow> int \<Rightarrow> int" where
  "BigInt_Sub bi decrement = NewBigIntFromBigInt (bi - decrement)"

definition BigInt_Sign :: "int \<Rightarrow> int" where
  "BigInt_Sign bi = sgn bi"

text \<open>\<^verbatim>\<open>big.Int.Int64\<close>: the low 64 bits of the absolute value as an int64, negated for a
  negative number.\<close>

definition GetInt64 :: "int \<Rightarrow> int" where
  "GetInt64 bi =
     (let v = sint (word_of_nat (nat \<bar>bi\<bar>) :: uint64)
      in if bi < 0 then sint (- (word_of_int v :: uint64)) else v)"

definition GetBytes :: "int \<Rightarrow> byte list" where
  "GetBytes bi = nat_bytes (nat \<bar>bi\<bar>)"

definition GetSigBytes :: "int \<Rightarrow> byte list" where
  "GetSigBytes bi = (if GetInt64 bi = 0 then [0] else GetBytes bi)"

section \<open>Hashes and addresses (types/hash.go, types/address.go)\<close>

definition HashLength :: nat where "HashLength = 32"
definition AddressLength :: nat where "AddressLength = 20"

datatype Padding = PaddingLeft | PaddingRight | PaddingNone

definition Hash_ToBytes :: "Hash \<Rightarrow> byte list" where
  "Hash_ToBytes h = word_bytes 32 h"

definition Address_ToBytes :: "Address \<Rightarrow> byte list" where
  "Address_ToBytes a = word_bytes 20 a"

definition Hash_Empty :: "Hash \<Rightarrow> bool" where
  "Hash_Empty h \<longleftrightarrow> Hash_ToBytes h = replicate HashLength 0"

text \<open>\<^verbatim>\<open>Hash.MustSetBytes\<close>: \<open>None\<close> is the panic.\<close>

definition Hash_MustSetBytes :: "byte list \<Rightarrow> Padding \<Rightarrow> Hash option" where
  "Hash_MustSetBytes b padding =
     (if length b > HashLength then None
      else case padding of
        PaddingLeft \<Rightarrow> Some (word_of_nat (bytes_val (replicate (HashLength - length b) 0 @ b)))
      | PaddingRight \<Rightarrow> Some (word_of_nat (bytes_val (b @ replicate (HashLength - length b) 0)))
      | PaddingNone \<Rightarrow>
          (if length b \<noteq> HashLength then None else Some (word_of_nat (bytes_val b))))"

definition BytesToHash :: "byte list \<Rightarrow> Hash option" where
  "BytesToHash b = Hash_MustSetBytes b PaddingLeft"

definition Hash_SetBytes :: "byte list \<Rightarrow> error + Hash" where
  "Hash_SetBytes b =
     (if length b > HashLength then Inl ErrTooLong
      else Inr (word_of_nat (bytes_val (b @ replicate (HashLength - length b) 0))))"

definition Address_MustSetBytes :: "byte list \<Rightarrow> Address option" where
  "Address_MustSetBytes b =
     (if length b > AddressLength then None
      else Some (word_of_nat (bytes_val (b @ replicate (AddressLength - length b) 0))))"

definition BytesToAddress :: "byte list \<Rightarrow> Address option" where
  "BytesToAddress b = Address_MustSetBytes b"

text \<open>\<^verbatim>\<open>Hash.Cmp\<close>: the first differing byte decides.\<close>

fun cmp_loop :: "byte list \<Rightarrow> byte list \<Rightarrow> int" where
  "cmp_loop (x # xs) (y # ys) =
     (if x < y then -1 else if x > y then 1 else cmp_loop xs ys)"
| "cmp_loop _ _ = 0"

definition Hash_Cmp :: "Hash \<Rightarrow> Hash \<Rightarrow> int" where
  "Hash_Cmp h another = cmp_loop (Hash_ToBytes h) (Hash_ToBytes another)"

text \<open>\<^verbatim>\<open>hexutil.Encode\<close> and the string form of a hash.\<close>

definition nibble_char :: "nat \<Rightarrow> char" where
  "nibble_char n = ''0123456789abcdef'' ! n"

definition hex_byte :: "byte \<Rightarrow> string" where
  "hex_byte b = [nibble_char (unat b div 16), nibble_char (unat b mod 16)]"

definition hexutil_Encode :: "byte list \<Rightarrow> string" where
  "hexutil_Encode b = ''0x'' @ concat (map hex_byte b)"

definition Hash_Hex :: "Hash \<Rightarrow> string" where
  "Hash_Hex h = hexutil_Encode (Hash_ToBytes h)"

definition Address_Hex :: "Address \<Rightarrow> string" where
  "Address_Hex a = hexutil_Encode (Address_ToBytes a)"

section \<open>Transactions (types/tx_inferface.go, tx.go, sequencer.go)\<close>

abbreviation TxBaseTypeNormal :: "16 word" where "TxBaseTypeNormal \<equiv> 0"
abbreviation TxBaseTypeSequencer :: "16 word" where "TxBaseTypeSequencer \<equiv> 1"

record TxBase =
  TypeOf :: "16 word"
  HashOf :: Hash
  ParentsHash :: "Hash list"
  AccountNonce :: uint64
  Height :: uint64
  PublicKey :: "byte list"
  Signature :: "byte list"
  MineNonce :: uint64
  Weight :: uint64

record Tx = TxBase +
  From :: Address
  To :: Address
  Value :: int
  Data :: "byte list"

record Sequencer = TxBase +
  Issuer :: Address

datatype Txi = TxiTx Tx | TxiSeq Sequencer

text \<open>The methods of the \<^verbatim>\<open>Txi\<close> interface.\<close>

fun GetBase :: "Txi \<Rightarrow> TxBase" where
  "GetBase (TxiTx t) = TxBase.truncate t"
| "GetBase (TxiSeq s) = TxBase.truncate s"

fun GetType :: "Txi \<Rightarrow> 16 word" where
  "GetType (TxiTx t) = TypeOf t"
| "GetType (TxiSeq s) = TypeOf s"

fun GetHeight :: "Txi \<Rightarrow> uint64" where
  "GetHeight (TxiTx t) = Height t"
| "GetHeight (TxiSeq s) = Height s"

fun GetWeight :: "Txi \<Rightarrow> uint64" where
  "GetWeight (TxiTx t) = Weight t"
| "GetWeight (TxiSeq s) = Weight s"

fun GetTxHash :: "Txi \<Rightarrow> Hash" where
  "GetTxHash (TxiTx t) = HashOf t"
| "GetTxHash (TxiSeq s) = HashOf s"

fun GetNonce :: "Txi \<Rightarrow> uint64" where
  "GetNonce (TxiTx t) = AccountNonce t"
| "GetNonce (TxiSeq s) = AccountNonce s"

fun Parents :: "Txi \<Rightarrow> Hash list" where
  "Parents (TxiTx t) = ParentsHash t"
| "Parents (TxiSeq s) = ParentsHash s"

fun Sender :: "Txi \<Rightarrow> Address" where
  "Sender (TxiTx t) = From t"
| "Sender (TxiSeq s) = Issuer s"

fun GetValue :: "Txi \<Rightarrow> int" where
  "GetValue (TxiTx t) = Value t"
| "GetValue (TxiSeq s) = 0"

fun SetHash :: "Txi \<Rightarrow> Hash \<Rightarrow> Txi" where
  "SetHash (TxiTx t) h = TxiTx (t\<lparr>HashOf := h\<rparr>)"
| "SetHash (TxiSeq s) h = TxiSeq (s\<lparr>HashOf := h\<rparr>)"

text \<open>The assignment \<^verbatim>\<open>tx.GetBase().Height = h\<close>.\<close>

fun set_Height :: "Txi \<Rightarrow> uint64 \<Rightarrow> Txi" where
  "set_Height (TxiTx t) h = TxiTx (t\<lparr>Height := h\<rparr>)"
| "set_Height (TxiSeq s) h = TxiSeq (s\<lparr>Height := h\<rparr>)"

fun Compare :: "Txi \<Rightarrow> Txi \<Rightarrow> bool" where
  "Compare (TxiTx t) (TxiTx u) = (Hash_Cmp (HashOf t) (HashOf u) = 0)"
| "Compare (TxiSeq t) (TxiSeq u) = (Hash_Cmp (HashOf t) (HashOf u) = 0)"
| "Compare _ _ = False"

fun CalculateWeight_loop :: "uint64 \<Rightarrow> Txi list \<Rightarrow> uint64" where
  "CalculateWeight_loop maxWeight [] = maxWeight"
| "CalculateWeight_loop maxWeight (p # ps) =
     CalculateWeight_loop (if GetWeight p > maxWeight then GetWeight p else maxWeight) ps"

definition CalculateWeight :: "Txi list \<Rightarrow> uint64" where
  "CalculateWeight parents = CalculateWeight_loop 0 parents + 1"

definition CalcMinedHash :: "(byte list \<Rightarrow> Hash) \<Rightarrow> 'a TxBase_scheme \<Rightarrow> Hash" where
  "CalcMinedHash sha3 t = sha3 (PublicKey t @ Signature t @ word_bytes 8 (MineNonce t))"

definition CalcTxHash :: "(byte list \<Rightarrow> Hash) \<Rightarrow> 'a TxBase_scheme \<Rightarrow> Hash" where
  "CalcTxHash sha3 t =
     sha3 (concat (map Hash_ToBytes (ParentsHash t)) @ word_bytes 8 (Weight t)
           @ Hash_ToBytes (CalcMinedHash sha3 t))"

fun SignatureTargets :: "Txi \<Rightarrow> byte list" where
  "SignatureTargets (TxiTx t) =
     word_bytes 8 (AccountNonce t) @ Address_ToBytes (From t) @ Address_ToBytes (To t)
       @ GetSigBytes (Value t) @ Data t"
| "SignatureTargets (TxiSeq s) =
     word_bytes 8 (AccountNonce s) @ Address_ToBytes (Issuer s) @ word_bytes 8 (Height s)"

text \<open>\<^verbatim>\<open>Txis.Less\<close>: by weight, then by hash. \<^verbatim>\<open>sort.Sort\<close> on it is insertion sort here: for
  transactions with different hashes the order is total, so every sorting algorithm
  returns the same list.\<close>

definition Txis_Less :: "Txi \<Rightarrow> Txi \<Rightarrow> bool" where
  "Txis_Less a b =
     (if GetWeight a < GetWeight b then True
      else if GetWeight a > GetWeight b then False
      else if Hash_Cmp (GetTxHash a) (GetTxHash b) < 0 then True
      else False)"

fun Txis_insert :: "Txi \<Rightarrow> Txi list \<Rightarrow> Txi list" where
  "Txis_insert x [] = [x]"
| "Txis_insert x (y # ys) = (if Txis_Less y x then y # Txis_insert x ys else x # y # ys)"

fun Txis_sort :: "Txi list \<Rightarrow> Txi list" where
  "Txis_sort [] = []"
| "Txis_sort (x # xs) = Txis_insert x (Txis_sort xs)"

section \<open>Facts\<close>

lemma NewBigIntFromBigInt_abs [simp]: "NewBigIntFromBigInt x = \<bar>x\<bar>"
  by (simp add: NewBigIntFromBigInt_def)

lemma BigInt_Add_nonneg [simp]: "0 \<le> a \<Longrightarrow> 0 \<le> b \<Longrightarrow> BigInt_Add a b = a + b"
  by (simp add: BigInt_Add_def)

lemma BigInt_Sub_nonneg [simp]: "b \<le> a \<Longrightarrow> BigInt_Sub a b = a - b"
  by (simp add: BigInt_Sub_def)

lemma BigInt_Sign_eq_0 [simp]: "BigInt_Sign x = 0 \<longleftrightarrow> x = 0"
  by (simp add: BigInt_Sign_def sgn_0_0)

lemma GetInt64_multiple: "GetInt64 (2 ^ 64 * int k) = 0"
proof -
  have "(word_of_nat (nat \<bar>2 ^ 64 * int k\<bar>) :: uint64) = 0"
    by (rule word_of_nat_eq_0_iff [THEN iffD2]) (simp add: nat_mult_distrib abs_mult)
  then show ?thesis by (simp add: GetInt64_def)
qed

lemma cmp_loop_val:
  "length xs = length ys \<Longrightarrow>
   cmp_loop xs ys =
     (if bytes_val xs < bytes_val ys then -1 else if bytes_val xs = bytes_val ys then 0 else 1)"
proof (induction xs ys rule: cmp_loop.induct)
  case (1 x xs y ys)
  let ?K = "(256::nat) ^ length xs"
  have len: "length xs = length ys" using 1 by simp
  have bx: "bytes_val xs < ?K" and byb: "bytes_val ys < ?K"
    using bytes_val_bound [of xs] bytes_val_bound [of ys] len by simp_all
  have lt: "bytes_val (a # as) < bytes_val (b # bs)"
    if "a < b" and "length as = length bs" and "bytes_val as < 256 ^ length as"
    for a b :: byte and as bs
  proof -
    have "unat a + 1 \<le> unat b"
      using that(1) by (simp add: word_less_nat_alt)
    then have "(unat a + 1) * 256 ^ length as \<le> unat b * 256 ^ length bs"
      using that(2) by (simp only: mult_le_mono1)
    with that(3) show ?thesis by (simp add: algebra_simps)
  qed
  consider "x < y" | "y < x" | "x = y" by fastforce
  then show ?case
  proof cases
    assume "x < y"
    then show ?thesis using lt [of x y xs ys] len bx by simp
  next
    assume "y < x"
    then show ?thesis using lt [of y x ys xs] len byb by simp
  next
    assume "x = y"
    then show ?thesis using 1 len by simp
  qed
qed simp_all

lemma Hash_Cmp_order:
  "Hash_Cmp a b = (if a < b then -1 else if a = b then 0 else 1)"
  by (simp add: Hash_Cmp_def Hash_ToBytes_def cmp_loop_val bytes_val_word_full
      word_less_nat_alt word_unat_eq_iff)

lemma Hash_Cmp_eq_0 [simp]: "Hash_Cmp a b = 0 \<longleftrightarrow> a = b"
  by (simp add: Hash_Cmp_order)

lemma Hash_Cmp_less_0 [simp]: "Hash_Cmp a b < 0 \<longleftrightarrow> a < b"
  by (simp add: Hash_Cmp_order)

lemma length_Hash_ToBytes [simp]: "length (Hash_ToBytes h) = 32"
  by (simp add: Hash_ToBytes_def)

lemma length_Address_ToBytes [simp]: "length (Address_ToBytes a) = 20"
  by (simp add: Address_ToBytes_def)

lemma Hash_ToBytes_inject [simp]: "Hash_ToBytes a = Hash_ToBytes b \<longleftrightarrow> a = b"
  using word_bytes_inject [of 32 a b] by (auto simp: Hash_ToBytes_def)

lemma Address_ToBytes_inject [simp]: "Address_ToBytes a = Address_ToBytes b \<longleftrightarrow> a = b"
  using word_bytes_inject [of 20 a b] by (auto simp: Address_ToBytes_def)

lemma uint64_bytes_inject [simp]:
  "word_bytes 8 (a::uint64) = word_bytes 8 b \<longleftrightarrow> a = b"
  using word_bytes_inject [of 8 a b] by auto

lemma bytes_val_replicate_0 [simp]: "bytes_val (replicate n 0 @ b) = bytes_val b"
  by (induction n) auto

lemma BytesToHash_ToBytes [simp]: "BytesToHash (Hash_ToBytes h) = Some h"
  by (simp add: BytesToHash_def Hash_MustSetBytes_def HashLength_def Hash_ToBytes_def
      bytes_val_word_full)

lemma BytesToHash_Nil [simp]: "BytesToHash [] = Some 0"
  by (simp add: BytesToHash_def Hash_MustSetBytes_def
      bytes_val_replicate_0 [where b = "[]", simplified])

lemma set_Height_simps [simp]:
  "GetTxHash (set_Height t h) = GetTxHash t" "GetNonce (set_Height t h) = GetNonce t"
  "Sender (set_Height t h) = Sender t" "GetValue (set_Height t h) = GetValue t"
  "GetType (set_Height t h) = GetType t" "Parents (set_Height t h) = Parents t"
  "GetWeight (set_Height t h) = GetWeight t" "GetHeight (set_Height t h) = h"
  by (cases t; simp)+

lemma CalculateWeight_loop_ge:
  "m \<le> CalculateWeight_loop m ps"
  "p \<in> set ps \<Longrightarrow> GetWeight p \<le> CalculateWeight_loop m ps"
proof (induction ps arbitrary: m)
  case (Cons q ps)
  {
    case 1
    show ?case
      using Cons(1) [of "if GetWeight q > m then GetWeight q else m"] by (auto split: if_splits)
  next
    case 2
    then show ?case
      using Cons(1) [of "if GetWeight q > m then GetWeight q else m"]
        Cons(2) [of "if GetWeight q > m then GetWeight q else m"] by (auto split: if_splits)
  }
qed simp_all

lemma CalculateWeight_loop_in:
  "CalculateWeight_loop m ps = m \<or> (\<exists>p \<in> set ps. CalculateWeight_loop m ps = GetWeight p)"
proof (induction ps arbitrary: m)
  case (Cons q ps)
  show ?case
    using Cons [of "if GetWeight q > m then GetWeight q else m"] by (auto split: if_splits)
qed simp

lemma mset_Txis_insert [simp]: "mset (Txis_insert x xs) = add_mset x (mset xs)"
  by (induction xs) auto

lemma mset_Txis_sort [simp]: "mset (Txis_sort xs) = mset xs"
  by (induction xs) auto

lemma set_Txis_sort [simp]: "set (Txis_sort xs) = set xs"
  by (metis mset_Txis_sort set_mset_mset)

text \<open>\<^verbatim>\<open>Less\<close> is the strict lexicographic order on (weight, hash).\<close>

lemma Txis_Less_iff:
  "Txis_Less a b \<longleftrightarrow>
   GetWeight a < GetWeight b \<or> (GetWeight a = GetWeight b \<and> GetTxHash a < GetTxHash b)"
  by (auto simp: Txis_Less_def)

lemma sorted_wrt_Txis_insert:
  "sorted_wrt (\<lambda>a b. \<not> Txis_Less b a) xs \<Longrightarrow>
   sorted_wrt (\<lambda>a b. \<not> Txis_Less b a) (Txis_insert x xs)"
proof (induction xs)
  case (Cons y ys)
  have set_eq: "set (Txis_insert x ys) = insert x (set ys)"
    by (metis mset_Txis_insert set_mset_add_mset_insert set_mset_mset)
  show ?case
    using Cons by (auto simp: set_eq Txis_Less_iff)
qed simp

lemma sorted_wrt_Txis_sort: "sorted_wrt (\<lambda>a b. \<not> Txis_Less b a) (Txis_sort xs)"
  by (induction xs) (simp_all add: sorted_wrt_Txis_insert)

end
