(* ===== verification/StateDB.thy ===== *)
theory StateDB
  imports OGTypes
begin

text \<open>
  \<^verbatim>\<open>src/core/state\<close>: account objects (\<^verbatim>\<open>state_object.go\<close>), the journal of reversible changes
  (\<^verbatim>\<open>journal.go\<close>) and the state database with its cache of active objects, snapshots, commit
  and purge (\<^verbatim>\<open>statedb.go\<close>).

  The Merkle trie behind the database is seen through the \<^verbatim>\<open>Trie\<close> interface of
  \<^verbatim>\<open>statedb_database.go\<close>: a map from keys to values in which a key may also be unreadable (a node
  missing from the disk database), so that the error branches are those of the code. The
  msgpack codec of \<^verbatim>\<open>Account\<close>, Keccak-256 and the root hash of a trie are fields of the
  environment \<open>state_env\<close>. Objects are values: every write of the code goes to the
  object stored in \<^verbatim>\<open>states\<close>, which the model replaces. The wall clock is the field \<open>now\<close>.
  An operation that can panic returns an option, \<open>None\<close> being the panic.
\<close>

section \<open>Data\<close>

record Account =
  acAddress :: Address
  acBalance :: int
  acNonce :: uint64
  acRoot :: Hash
  acCodeHash :: "byte list"

type_synonym Trie = "byte list \<Rightarrow> error + byte list option"

definition empty_trie :: Trie where
  "empty_trie = (\<lambda>_. Inr None)"

definition TryGet :: "Trie \<Rightarrow> byte list \<Rightarrow> error + byte list option" where
  "TryGet t k = t k"

definition TryUpdate :: "Trie \<Rightarrow> byte list \<Rightarrow> byte list \<Rightarrow> error option \<times> Trie" where
  "TryUpdate t k v =
     (case t k of Inl e \<Rightarrow> (Some e, t) | Inr _ \<Rightarrow> (None, t(k := Inr (if v = [] then None else Some v))))"

definition TryDelete :: "Trie \<Rightarrow> byte list \<Rightarrow> error option \<times> Trie" where
  "TryDelete t k = (case t k of Inl e \<Rightarrow> (Some e, t) | Inr _ \<Rightarrow> (None, t(k := Inr None)))"

record state_env =
  Keccak256Hash :: "byte list \<Rightarrow> Hash"
  marshalAccount :: "Account \<Rightarrow> byte list"
  unmarshalAccount :: "byte list \<Rightarrow> error + Account"
  trieRoot :: "Trie \<Rightarrow> Hash"

text \<open>\<^verbatim>\<open>Database\<close>: the committed tries by root and the contract codes by hash. The zero root
  and the root of the empty trie open without a lookup. The LRU of code sizes is a cache of
  the length of the code and is left out.\<close>

record Database =
  tries :: "Hash \<Rightarrow> error + Trie"
  codes :: "Hash \<rightharpoonup> byte list"

definition emptyRoot :: Hash where
  "emptyRoot = 0x56e81f171bcc55a6ff8345e692c0f86e5b48e01b996cadc001622fb5e363b421"

definition OpenTrie :: "Database \<Rightarrow> Hash \<Rightarrow> error + Trie" where
  "OpenTrie db root = (if root \<noteq> 0 \<and> root \<noteq> emptyRoot then tries db root else Inr empty_trie)"

definition OpenStorageTrie :: "Database \<Rightarrow> Hash \<Rightarrow> error + Trie" where
  "OpenStorageTrie db root =
     (if root \<noteq> 0 \<and> root \<noteq> emptyRoot then tries db root else Inr empty_trie)"

definition ContractCode :: "Database \<Rightarrow> Hash \<Rightarrow> error + byte list" where
  "ContractCode db codeHash = (case codes db codeHash of None \<Rightarrow> Inl ErrNotFound | Some c \<Rightarrow> Inr c)"

definition ContractCodeSize :: "Database \<Rightarrow> Hash \<Rightarrow> error + nat" where
  "ContractCodeSize db codeHash = map_sum id length (ContractCode db codeHash)"

definition TrieDB_Insert :: "Database \<Rightarrow> Hash \<Rightarrow> byte list \<Rightarrow> Database" where
  "TrieDB_Insert db h blob =
     (if codes db h \<noteq> None then db else db\<lparr>codes := (codes db)(h \<mapsto> blob)\<rparr>)"

definition Trie_Commit :: "state_env \<Rightarrow> Database \<Rightarrow> Trie \<Rightarrow> Hash \<times> Database" where
  "Trie_Commit e db t = (let root = trieRoot e t in (root, db\<lparr>tries := (tries db)(root := Inr t)\<rparr>))"

record StateObject =
  soAddress :: Address
  addressHash :: Hash
  data :: Account
  dbErr :: "error option"
  code :: "byte list option"
  dirtycode :: bool
  suicided :: bool
  committedStorage :: "Hash \<rightharpoonup> Hash"
  dirtyStorage :: "(Hash, Hash) gomap"
  sotrie :: "Trie option"

datatype journalEntry =
    createObjectChange Address
  | resetObjectChange StateObject
  | suicideChange Address bool int
  | balanceChange Address int
  | nonceChange Address uint64
  | storageChange Address Hash Hash
  | codeChange Address "byte list option" "byte list"
  | refundChange uint64
  | addLogChange Hash
  | addPreimageChange Hash
  | touchChange Address bool bool

record journal =
  entries :: "journalEntry list"
  dirties :: "(Address, int) gomap"

record shot =
  shotid :: int
  journalIndex :: nat

record StateDB =
  env :: state_env
  BeatExpireTime :: int
  now :: int
  sdb :: Database
  strie :: Trie
  refund :: uint64
  jrnl :: journal
  snapshotSet :: "shot list"
  snapshotID :: int
  states :: "(Address, StateObject) gomap"
  dirtyset :: "Address set"
  beats :: "(Address, int) gomap"

definition emptyCodeHash :: "state_env \<Rightarrow> Hash" where
  "emptyCodeHash e = Keccak256Hash e []"

definition emptyStateRoot :: "state_env \<Rightarrow> Hash" where
  "emptyStateRoot e = Keccak256Hash e []"

definition emptyStateHash :: Hash where
  "emptyStateHash = 0"

section \<open>Journal\<close>

definition newJournal :: journal where
  "newJournal = \<lparr>entries = [], dirties = []\<rparr>"

fun dirtied :: "journalEntry \<Rightarrow> Address option" where
  "dirtied (createObjectChange a) = Some a"
| "dirtied (resetObjectChange _) = None"
| "dirtied (suicideChange a _ _) = Some a"
| "dirtied (balanceChange a _) = Some a"
| "dirtied (nonceChange a _) = Some a"
| "dirtied (storageChange a _ _) = Some a"
| "dirtied (codeChange a _ _) = Some a"
| "dirtied (refundChange _) = None"
| "dirtied (addLogChange _) = None"
| "dirtied (addPreimageChange _) = None"
| "dirtied (touchChange a _ _) = Some a"

text \<open>Reading a missing key of \<^verbatim>\<open>map[Address]int\<close> yields 0.\<close>

definition dirty_count :: "(Address, int) gomap \<Rightarrow> Address \<Rightarrow> int" where
  "dirty_count d a = (case map_of d a of None \<Rightarrow> 0 | Some n \<Rightarrow> n)"

definition journal_dirty :: "journal \<Rightarrow> Address \<Rightarrow> journal" where
  "journal_dirty j a = j\<lparr>dirties := AList.update a (dirty_count (dirties j) a + 1) (dirties j)\<rparr>"

definition journal_append :: "journal \<Rightarrow> journalEntry \<Rightarrow> journal" where
  "journal_append j entry =
     (let j' = j\<lparr>entries := entries j @ [entry]\<rparr> in
      case dirtied entry of
        None \<Rightarrow> j'
      | Some a \<Rightarrow> j'\<lparr>dirties := AList.update a (dirty_count (dirties j') a + 1) (dirties j')\<rparr>)"

definition journal_undirty :: "journal \<Rightarrow> journalEntry \<Rightarrow> journal" where
  "journal_undirty j entry =
     (case dirtied entry of
        None \<Rightarrow> j
      | Some a \<Rightarrow>
          (let n = dirty_count (dirties j) a - 1 in
           if n = 0 then j\<lparr>dirties := AList.delete a (dirties j)\<rparr>
           else j\<lparr>dirties := AList.update a n (dirties j)\<rparr>))"

definition journal_length :: "journal \<Rightarrow> nat" where
  "journal_length j = length (entries j)"

definition log_entry :: "StateDB \<Rightarrow> journalEntry \<Rightarrow> StateDB" where
  "log_entry sd e = sd\<lparr>jrnl := journal_append (jrnl sd) e\<rparr>"

section \<open>State objects\<close>

definition NewStateObject :: "state_env \<Rightarrow> Address \<Rightarrow> StateObject" where
  "NewStateObject e addr =
     \<lparr>soAddress = addr, addressHash = Keccak256Hash e (Address_ToBytes addr),
      data = \<lparr>acAddress = addr, acBalance = 0, acNonce = 0, acRoot = emptyStateRoot e,
              acCodeHash = Hash_ToBytes (emptyCodeHash e)\<rparr>,
      dbErr = None, code = None, dirtycode = False, suicided = False,
      committedStorage = Map.empty, dirtyStorage = [], sotrie = None\<rparr>"

definition setError :: "StateObject \<Rightarrow> error \<Rightarrow> StateObject" where
  "setError s err = (if dbErr s = None then s\<lparr>dbErr := Some err\<rparr> else s)"

text \<open>\<^verbatim>\<open>Encode\<close> and \<^verbatim>\<open>Decode\<close>; after a failed decode \<^verbatim>\<open>loadStateObject\<close>, the only caller, drops
  the half-built object.\<close>

definition StateObject_Encode :: "state_env \<Rightarrow> StateObject \<Rightarrow> byte list" where
  "StateObject_Encode e s = marshalAccount e (data s)"

definition StateObject_Decode :: "state_env \<Rightarrow> byte list \<Rightarrow> error + StateObject" where
  "StateObject_Decode e b =
     (case unmarshalAccount e b of
        Inl err \<Rightarrow> Inl err
      | Inr a \<Rightarrow> Inr
          \<lparr>soAddress = acAddress a, addressHash = Keccak256Hash e (Address_ToBytes (acAddress a)),
           data = a, dbErr = None, code = None, dirtycode = False, suicided = False,
           committedStorage = Map.empty, dirtyStorage = [], sotrie = None\<rparr>)"

text \<open>\<^verbatim>\<open>openTrie\<close> falls back to the trie of the zero root, which always opens.\<close>

definition openTrie :: "Database \<Rightarrow> StateObject \<Rightarrow> Trie \<times> StateObject" where
  "openTrie db s =
     (case sotrie s of
        Some t \<Rightarrow> (t, s)
      | None \<Rightarrow>
          (let t = (case OpenStorageTrie db (acRoot (data s)) of
                      Inr t \<Rightarrow> t
                    | Inl _ \<Rightarrow> (case OpenStorageTrie db 0 of Inr t \<Rightarrow> t | Inl _ \<Rightarrow> empty_trie))
           in (t, s\<lparr>sotrie := Some t\<rparr>)))"

text \<open>\<^verbatim>\<open>GetCommittedState\<close>: on a miss the cache entry is written before \<^verbatim>\<open>value\<close> is assigned, so
  what is cached is the zero hash. The panic is that of \<^verbatim>\<open>BytesToHash\<close> on a stored value longer
  than a hash.\<close>

definition GetCommittedState ::
    "Database \<Rightarrow> StateObject \<Rightarrow> Hash \<Rightarrow> (Hash \<times> StateObject) option" where
  "GetCommittedState db s key =
     (case committedStorage s key of
        Some v \<Rightarrow> Some (v, s)
      | None \<Rightarrow>
          (case openTrie db s of (t, s1) \<Rightarrow>
             (case TryGet t (Hash_ToBytes key) of
                Inl err \<Rightarrow> map_option (\<lambda>v. (v, setError s1 err)) (BytesToHash [])
              | Inr b \<Rightarrow>
                  map_option
                    (\<lambda>v. (v, s1\<lparr>committedStorage := (committedStorage s1)(key \<mapsto> 0)\<rparr>))
                    (BytesToHash (case b of None \<Rightarrow> [] | Some bs \<Rightarrow> bs)))))"

definition StateObject_GetState ::
    "Database \<Rightarrow> StateObject \<Rightarrow> Hash \<Rightarrow> (Hash \<times> StateObject) option" where
  "StateObject_GetState db s key =
     (case map_of (dirtyStorage s) key of
        Some v \<Rightarrow> Some (v, s)
      | None \<Rightarrow> GetCommittedState db s key)"

definition StateObject_GetCodeHash :: "StateObject \<Rightarrow> Hash option" where
  "StateObject_GetCodeHash s = BytesToHash (acCodeHash (data s))"

text \<open>\<^verbatim>\<open>GetCode\<close>: the nil slice is \<open>None\<close> inside the option of the panic.\<close>

definition StateObject_GetCode ::
    "state_env \<Rightarrow> Database \<Rightarrow> StateObject \<Rightarrow> (byte list option \<times> StateObject) option" where
  "StateObject_GetCode e db s =
     (case code s of
        Some c \<Rightarrow> Some (Some c, s)
      | None \<Rightarrow>
          (case StateObject_GetCodeHash s of
             None \<Rightarrow> None
           | Some h \<Rightarrow>
               (if Hash_ToBytes h = Hash_ToBytes (emptyCodeHash e) then Some (None, s)
                else case ContractCode db h of
                  Inl err \<Rightarrow> Some (None, (setError s err)\<lparr>code := None\<rparr>)
                | Inr c \<Rightarrow> Some (Some c, s\<lparr>code := Some c\<rparr>))))"

definition StateObject_GetCodeSize :: "Database \<Rightarrow> StateObject \<Rightarrow> (error + nat) option" where
  "StateObject_GetCodeSize db s =
     (case code s of
        Some c \<Rightarrow> Some (Inr (length c))
      | None \<Rightarrow> map_option (ContractCodeSize db) (BytesToHash (acCodeHash (data s))))"

section \<open>Looking objects up\<close>

definition refreshbeat :: "StateDB \<Rightarrow> Address \<Rightarrow> StateDB" where
  "refreshbeat sd addr = sd\<lparr>beats := AList.update addr (now sd) (beats sd)\<rparr>"

definition loadStateObject :: "StateDB \<Rightarrow> Address \<Rightarrow> error + StateObject option" where
  "loadStateObject sd addr =
     (case TryGet (strie sd) (Address_ToBytes addr) of
        Inl e \<Rightarrow> Inl ErrTrie
      | Inr None \<Rightarrow> Inr None
      | Inr (Some b) \<Rightarrow>
          (case StateObject_Decode (env sd) b of
             Inl e \<Rightarrow> Inl ErrUnmarshal
           | Inr s \<Rightarrow> Inr (Some s)))"

text \<open>The assignment \<^verbatim>\<open>sd.states[addr] = s\<close>, and the in-place update of the object found there.\<close>

definition put_object :: "StateDB \<Rightarrow> Address \<Rightarrow> StateObject \<Rightarrow> StateDB" where
  "put_object sd addr s = sd\<lparr>states := AList.update addr s (states sd)\<rparr>"

definition getStateObject :: "StateDB \<Rightarrow> Address \<Rightarrow> StateObject option \<times> StateDB" where
  "getStateObject sd addr =
     (case map_of (states sd) addr of
        Some s \<Rightarrow> (Some s, sd)
      | None \<Rightarrow>
          (case loadStateObject sd addr of
             Inl _ \<Rightarrow> (None, sd)
           | Inr None \<Rightarrow> (None, sd)
           | Inr (Some s) \<Rightarrow> (Some s, put_object sd addr s)))"

definition GetStateObject :: "StateDB \<Rightarrow> Address \<Rightarrow> StateObject option \<times> StateDB" where
  "GetStateObject sd addr = (case getStateObject sd addr of (r, sd') \<Rightarrow> (r, refreshbeat sd' addr))"

definition CreateAccount :: "StateDB \<Rightarrow> Address \<Rightarrow> StateDB" where
  "CreateAccount sd addr =
     (let newstate = NewStateObject (env sd) addr in
      case getStateObject sd addr of (oldstate, sd1) \<Rightarrow>
        refreshbeat
          (put_object
            (log_entry sd1
              (case oldstate of Some old \<Rightarrow> resetObjectChange old | None \<Rightarrow> createObjectChange addr))
            addr newstate)
          addr)"

definition getOrCreateStateObject :: "StateDB \<Rightarrow> Address \<Rightarrow> StateObject option \<times> StateDB" where
  "getOrCreateStateObject sd addr =
     (case getStateObject sd addr of
        (Some s, sd1) \<Rightarrow> (Some s, sd1)
      | (None, sd1) \<Rightarrow> getStateObject (CreateAccount sd1 addr) addr)"

definition GetOrCreateStateObject :: "StateDB \<Rightarrow> Address \<Rightarrow> StateObject option \<times> StateDB" where
  "GetOrCreateStateObject sd addr =
     (case getOrCreateStateObject sd addr of (r, sd') \<Rightarrow> (r, refreshbeat sd' addr))"

definition deleteStateObject :: "StateDB \<Rightarrow> Address \<Rightarrow> StateDB" where
  "deleteStateObject sd addr =
     (case map_of (states sd) addr of
        None \<Rightarrow> sd
      | Some _ \<Rightarrow> sd\<lparr>states := AList.delete addr (states sd), dirtyset := dirtyset sd - {addr},
                     beats := AList.delete addr (beats sd)\<rparr>)"

definition DeleteStateObject :: "StateDB \<Rightarrow> Address \<Rightarrow> StateDB" where
  "DeleteStateObject sd addr = refreshbeat (deleteStateObject sd addr) addr"

definition getBalance :: "StateDB \<Rightarrow> Address \<Rightarrow> int \<times> StateDB" where
  "getBalance sd addr =
     (case getStateObject sd addr of
        (None, sd1) \<Rightarrow> (0, sd1)
      | (Some s, sd1) \<Rightarrow> (acBalance (data s), sd1))"

definition GetBalance :: "StateDB \<Rightarrow> Address \<Rightarrow> int \<times> StateDB" where
  "GetBalance sd addr = (case getBalance sd addr of (b, sd1) \<Rightarrow> (b, refreshbeat sd1 addr))"

definition getNonce :: "StateDB \<Rightarrow> Address \<Rightarrow> uint64 \<times> StateDB" where
  "getNonce sd addr =
     (case getStateObject sd addr of
        (None, sd1) \<Rightarrow> (0, sd1)
      | (Some s, sd1) \<Rightarrow> (acNonce (data s), sd1))"

definition SD_GetNonce :: "StateDB \<Rightarrow> Address \<Rightarrow> uint64 \<times> StateDB" where
  "SD_GetNonce sd addr = (case getNonce sd addr of (n, sd1) \<Rightarrow> (n, refreshbeat sd1 addr))"

definition Exist :: "StateDB \<Rightarrow> Address \<Rightarrow> bool \<times> StateDB" where
  "Exist sd addr = (case getStateObject sd addr of (r, sd1) \<Rightarrow> (r \<noteq> None, sd1))"

definition Empty :: "StateDB \<Rightarrow> Address \<Rightarrow> bool \<times> StateDB" where
  "Empty sd addr =
     (case getStateObject sd addr of
        (None, sd1) \<Rightarrow> (True, sd1)
      | (Some s, sd1) \<Rightarrow>
          ((case code s of None \<Rightarrow> True | Some c \<Rightarrow> c = []) \<and> acNonce (data s) = 0
             \<and> GetInt64 (acBalance (data s)) = 0, sd1))"

section \<open>Writing objects\<close>

definition so_SetBalance :: "StateDB \<Rightarrow> Address \<Rightarrow> StateObject \<Rightarrow> int \<Rightarrow> StateDB" where
  "so_SetBalance sd addr s b =
     put_object (log_entry sd (balanceChange (soAddress s) (acBalance (data s)))) addr
       (s\<lparr>data := (data s)\<lparr>acBalance := b\<rparr>\<rparr>)"

definition so_AddBalance :: "StateDB \<Rightarrow> Address \<Rightarrow> StateObject \<Rightarrow> int \<Rightarrow> StateDB" where
  "so_AddBalance sd addr s increment =
     (if BigInt_Sign increment = 0 then sd
      else so_SetBalance sd addr s (BigInt_Add (acBalance (data s)) increment))"

definition so_SubBalance :: "StateDB \<Rightarrow> Address \<Rightarrow> StateObject \<Rightarrow> int \<Rightarrow> StateDB" where
  "so_SubBalance sd addr s decrement =
     (if BigInt_Sign decrement = 0 then sd
      else so_SetBalance sd addr s (BigInt_Sub (acBalance (data s)) decrement))"

definition so_SetNonce :: "StateDB \<Rightarrow> Address \<Rightarrow> StateObject \<Rightarrow> uint64 \<Rightarrow> StateDB" where
  "so_SetNonce sd addr s n =
     put_object (log_entry sd (nonceChange (soAddress s) (acNonce (data s)))) addr
       (s\<lparr>data := (data s)\<lparr>acNonce := n\<rparr>\<rparr>)"

definition so_SetCode :: "StateDB \<Rightarrow> Address \<Rightarrow> StateObject \<Rightarrow> Hash \<Rightarrow> byte list option \<Rightarrow> StateDB" where
  "so_SetCode sd addr s codehash c =
     put_object (log_entry sd (codeChange (soAddress s) (code s) (acCodeHash (data s)))) addr
       (s\<lparr>code := c, data := (data s)\<lparr>acCodeHash := Hash_ToBytes codehash\<rparr>, dirtycode := True\<rparr>)"

definition so_SetState :: "StateDB \<Rightarrow> Address \<Rightarrow> StateObject \<Rightarrow> Hash \<Rightarrow> Hash \<Rightarrow> StateDB option" where
  "so_SetState sd addr s key v =
     (case StateObject_GetState (sdb sd) s key of
        None \<Rightarrow> None
      | Some (prevalue, s1) \<Rightarrow> Some
          (put_object (log_entry sd (storageChange (soAddress s) key prevalue)) addr
            (s1\<lparr>dirtyStorage := AList.update key v (dirtyStorage s1)\<rparr>)))"

text \<open>The operations below dereference what \<^verbatim>\<open>getOrCreateStateObject\<close> returns. It is never nil
  (\<open>getOrCreate_Some\<close>), so the branch \<open>None\<close> is not taken.\<close>

definition setBalance :: "StateDB \<Rightarrow> Address \<Rightarrow> int \<Rightarrow> StateDB" where
  "setBalance sd addr b =
     (case getOrCreateStateObject sd addr of
        (Some s, sd1) \<Rightarrow> refreshbeat (so_SetBalance sd1 addr s b) addr
      | (None, sd1) \<Rightarrow> sd1)"

definition addBalance :: "StateDB \<Rightarrow> Address \<Rightarrow> int \<Rightarrow> StateDB" where
  "addBalance sd addr increment =
     (if BigInt_Sign increment = 0 then sd
      else case getOrCreateStateObject sd addr of
        (Some s, sd1) \<Rightarrow>
          refreshbeat (setBalance sd1 addr (BigInt_Add (acBalance (data s)) increment)) addr
      | (None, sd1) \<Rightarrow> sd1)"

definition subBalance :: "StateDB \<Rightarrow> Address \<Rightarrow> int \<Rightarrow> StateDB" where
  "subBalance sd addr decrement =
     (if BigInt_Sign decrement = 0 then sd
      else case getOrCreateStateObject sd addr of
        (Some s, sd1) \<Rightarrow>
          refreshbeat (setBalance sd1 addr (BigInt_Sub (acBalance (data s)) decrement)) addr
      | (None, sd1) \<Rightarrow> sd1)"

definition SetNonce :: "StateDB \<Rightarrow> Address \<Rightarrow> uint64 \<Rightarrow> StateDB" where
  "SetNonce sd addr nonce =
     (case getOrCreateStateObject sd addr of
        (Some s, sd1) \<Rightarrow> refreshbeat (so_SetNonce sd1 addr s nonce) addr
      | (None, sd1) \<Rightarrow> sd1)"

definition AddRefund :: "StateDB \<Rightarrow> uint64 \<Rightarrow> StateDB" where
  "AddRefund sd increment =
     (let sd1 = log_entry sd (refundChange (refund sd)) in
      sd1\<lparr>refund := refund sd1 + increment\<rparr>)"

definition SubRefund :: "StateDB \<Rightarrow> uint64 \<Rightarrow> StateDB option" where
  "SubRefund sd decrement =
     (let sd1 = log_entry sd (refundChange (refund sd)) in
      if decrement > refund sd1 then None else Some (sd1\<lparr>refund := refund sd1 - decrement\<rparr>))"

definition setStateObject :: "StateDB \<Rightarrow> Address \<Rightarrow> StateObject \<Rightarrow> StateDB" where
  "setStateObject sd addr stobj =
     (case getStateObject sd addr of
        (None, sd1) \<Rightarrow> refreshbeat sd1 addr
      | (Some oldobj, sd1) \<Rightarrow>
          refreshbeat (put_object (log_entry sd1 (resetObjectChange oldobj)) addr stobj) addr)"

definition SetCode :: "StateDB \<Rightarrow> Address \<Rightarrow> byte list \<Rightarrow> StateDB" where
  "SetCode sd addr c =
     (case getOrCreateStateObject sd addr of
        (Some s, sd1) \<Rightarrow> so_SetCode sd1 addr s (Keccak256Hash (env sd) c) (Some c)
      | (None, sd1) \<Rightarrow> sd1)"

definition SetState :: "StateDB \<Rightarrow> Address \<Rightarrow> Hash \<Rightarrow> Hash \<Rightarrow> StateDB option" where
  "SetState sd addr key v =
     (case getOrCreateStateObject sd addr of
        (Some s, sd1) \<Rightarrow> so_SetState sd1 addr s key v
      | (None, sd1) \<Rightarrow> Some sd1)"

definition GetState :: "StateDB \<Rightarrow> Address \<Rightarrow> Hash \<Rightarrow> (Hash \<times> StateDB) option" where
  "GetState sd addr key =
     (case getStateObject sd addr of
        (None, sd1) \<Rightarrow> Some (emptyStateHash, sd1)
      | (Some s, sd1) \<Rightarrow>
          map_option (\<lambda>(v, s1). (v, put_object sd1 addr s1)) (StateObject_GetState (sdb sd1) s key))"

definition SD_GetCommittedState :: "StateDB \<Rightarrow> Address \<Rightarrow> Hash \<Rightarrow> (Hash \<times> StateDB) option" where
  "SD_GetCommittedState sd addr key =
     (case getStateObject sd addr of
        (None, sd1) \<Rightarrow> Some (emptyStateHash, sd1)
      | (Some s, sd1) \<Rightarrow>
          map_option (\<lambda>(v, s1). (v, put_object sd1 addr s1)) (GetCommittedState (sdb sd1) s key))"

definition GetCodeHash :: "StateDB \<Rightarrow> Address \<Rightarrow> (Hash \<times> StateDB) option" where
  "GetCodeHash sd addr =
     (case getStateObject sd addr of
        (None, sd1) \<Rightarrow> Some (0, sd1)
      | (Some s, sd1) \<Rightarrow> map_option (\<lambda>h. (h, sd1)) (StateObject_GetCodeHash s))"

definition GetCode :: "StateDB \<Rightarrow> Address \<Rightarrow> (byte list option \<times> StateDB) option" where
  "GetCode sd addr =
     (case getStateObject sd addr of
        (None, sd1) \<Rightarrow> Some (None, sd1)
      | (Some s, sd1) \<Rightarrow>
          map_option (\<lambda>(c, s1). (c, put_object sd1 addr s1))
            (StateObject_GetCode (env sd1) (sdb sd1) s))"

definition GetCodeSize :: "StateDB \<Rightarrow> Address \<Rightarrow> (nat \<times> StateDB) option" where
  "GetCodeSize sd addr =
     (case getStateObject sd addr of
        (None, sd1) \<Rightarrow> Some (0, sd1)
      | (Some s, sd1) \<Rightarrow>
          map_option (\<lambda>r. (case r of Inl _ \<Rightarrow> (0, sd1) | Inr l \<Rightarrow> (l, sd1)))
            (StateObject_GetCodeSize (sdb sd1) s))"

definition Suicide :: "StateDB \<Rightarrow> Address \<Rightarrow> bool \<times> StateDB" where
  "Suicide sd addr =
     (case getStateObject sd addr of
        (None, sd1) \<Rightarrow> (False, sd1)
      | (Some s, sd1) \<Rightarrow>
          (True,
           put_object
             (log_entry sd1
               (suicideChange addr (suicided s) (NewBigIntFromBigInt (acBalance (data s)))))
             addr (s\<lparr>suicided := True, data := (data s)\<lparr>acBalance := 0\<rparr>\<rparr>)))"

definition HasSuicided :: "StateDB \<Rightarrow> Address \<Rightarrow> bool \<times> StateDB" where
  "HasSuicided sd addr =
     (case getStateObject sd addr of
        (None, sd1) \<Rightarrow> (False, sd1)
      | (Some s, sd1) \<Rightarrow> (suicided s, sd1))"

section \<open>Snapshots\<close>

definition Snapshot :: "StateDB \<Rightarrow> int \<times> StateDB" where
  "Snapshot sd =
     (let i = snapshotID sd in
      (i, sd\<lparr>snapshotID := snapshotID sd + 1,
             snapshotSet := snapshotSet sd @ [\<lparr>shotid = i, journalIndex = journal_length (jrnl sd)\<rparr>]\<rparr>))"

fun revert_entry :: "StateDB \<Rightarrow> journalEntry \<Rightarrow> StateDB option" where
  "revert_entry sd (createObjectChange a) =
     Some (sd\<lparr>states := AList.delete a (states sd), dirtyset := dirtyset sd - {a}\<rparr>)"
| "revert_entry sd (resetObjectChange prev) = Some (setStateObject sd (soAddress prev) prev)"
| "revert_entry sd (suicideChange a prev prevbalance) =
     (case getStateObject sd a of
        (None, sd1) \<Rightarrow> Some sd1
      | (Some s, sd1) \<Rightarrow> Some (so_SetBalance sd1 a (s\<lparr>suicided := prev\<rparr>) prevbalance))"
| "revert_entry sd (balanceChange a prev) =
     (case getStateObject sd a of
        (None, sd1) \<Rightarrow> Some sd1
      | (Some s, sd1) \<Rightarrow> Some (so_SetBalance sd1 a s prev))"
| "revert_entry sd (nonceChange a prev) =
     (case getStateObject sd a of
        (None, sd1) \<Rightarrow> Some sd1
      | (Some s, sd1) \<Rightarrow> Some (so_SetNonce sd1 a s prev))"
| "revert_entry sd (codeChange a prevcode prevhash) =
     (case getStateObject sd a of
        (None, sd1) \<Rightarrow> Some sd1
      | (Some s, sd1) \<Rightarrow>
          map_option (\<lambda>h. so_SetCode sd1 a s h prevcode) (BytesToHash prevhash))"
| "revert_entry sd (storageChange a key prevalue) =
     (case getStateObject sd a of
        (None, sd1) \<Rightarrow> Some sd1
      | (Some s, sd1) \<Rightarrow> so_SetState sd1 a s key prevalue)"
| "revert_entry sd (refundChange prev) = Some (sd\<lparr>refund := prev\<rparr>)"
| "revert_entry sd (addLogChange _) = Some sd"
| "revert_entry sd (addPreimageChange _) = Some sd"
| "revert_entry sd (touchChange _ _ _) = Some sd"

text \<open>\<^verbatim>\<open>journal.revert\<close> walks the entries from the last one down to the snapshot index. The
  reverts append entries of their own behind the ones walked; the final slice drops them.\<close>

fun journal_revert_loop :: "StateDB \<Rightarrow> journalEntry list \<Rightarrow> StateDB option" where
  "journal_revert_loop sd [] = Some sd"
| "journal_revert_loop sd (e # es) =
     (case revert_entry sd e of
        None \<Rightarrow> None
      | Some sd1 \<Rightarrow> journal_revert_loop (sd1\<lparr>jrnl := journal_undirty (jrnl sd1) e\<rparr>) es)"

definition journal_revert :: "StateDB \<Rightarrow> nat \<Rightarrow> StateDB option" where
  "journal_revert sd snapshot =
     map_option (\<lambda>sd1. sd1\<lparr>jrnl := (jrnl sd1)\<lparr>entries := take snapshot (entries (jrnl sd1))\<rparr>\<rparr>)
       (journal_revert_loop sd (rev (drop snapshot (entries (jrnl sd)))))"

fun find_shot :: "int \<Rightarrow> shot list \<Rightarrow> nat \<Rightarrow> (nat \<times> shot) option" where
  "find_shot i [] n = None"
| "find_shot i (s # ss) n = (if shotid s = i then Some (n, s) else find_shot i ss (Suc n))"

text \<open>An unknown snapshot is a panic; so is the identifier -1, which the code uses for
  \<^verbatim>\<open>not found\<close>.\<close>

definition RevertToSnapshot :: "StateDB \<Rightarrow> int \<Rightarrow> StateDB option" where
  "RevertToSnapshot sd snapshotid =
     (case find_shot snapshotid (snapshotSet sd) 0 of
        None \<Rightarrow> None
      | Some (index, s) \<Rightarrow>
          (if shotid s = -1 then None
           else map_option (\<lambda>sd1. sd1\<lparr>snapshotSet := take index (snapshotSet sd1)\<rparr>)
                  (journal_revert sd (journalIndex s))))"

definition clearJournalAndRefund :: "StateDB \<Rightarrow> StateDB" where
  "clearJournalAndRefund sd =
     sd\<lparr>jrnl := newJournal, snapshotID := 0, snapshotSet := [], refund := 0\<rparr>"

section \<open>Commit and purge\<close>

text \<open>\<^verbatim>\<open>updateTrie\<close> over the entries of \<^verbatim>\<open>dirtyStorage\<close> in \<^verbatim>\<open>range\<close> order. A hash is always 32
  bytes, so the deletion branch is never taken.\<close>

fun updateTrie_loop :: "Trie \<Rightarrow> StateObject \<Rightarrow> (Hash \<times> Hash) list \<Rightarrow> Trie \<times> StateObject" where
  "updateTrie_loop t s [] = (t, s)"
| "updateTrie_loop t s ((key, v) # kvs) =
     (if length (Hash_ToBytes v) = 0 then
        (case TryDelete t (Hash_ToBytes key) of
           (Some err, t') \<Rightarrow> updateTrie_loop t' (setError s err) kvs
         | (None, t') \<Rightarrow>
             updateTrie_loop t' (s\<lparr>committedStorage := (committedStorage s)(key := None)\<rparr>) kvs)
      else
        (case TryUpdate t (Hash_ToBytes key) (Hash_ToBytes v) of
           (err, t') \<Rightarrow>
             (let s1 = (case err of None \<Rightarrow> s | Some e \<Rightarrow> setError s e) in
              updateTrie_loop t'
                (s1\<lparr>committedStorage := (committedStorage s1)(key \<mapsto> v),
                    dirtyStorage := AList.delete key (dirtyStorage s1)\<rparr>) kvs)))"

definition updateTrie ::
    "((Hash \<times> Hash) list \<Rightarrow> (Hash \<times> Hash) list) \<Rightarrow> Database \<Rightarrow> StateObject \<Rightarrow> Trie \<times> StateObject" where
  "updateTrie ord db s =
     (case openTrie db s of (t, s1) \<Rightarrow>
        (case updateTrie_loop t s1 (ord (dirtyStorage s1)) of (t', s2) \<Rightarrow>
           (t', s2\<lparr>sotrie := Some t'\<rparr>)))"

text \<open>\<^verbatim>\<open>CommitStorage\<close>; its error is only logged by \<^verbatim>\<open>commit\<close>.\<close>

definition CommitStorage ::
    "((Hash \<times> Hash) list \<Rightarrow> (Hash \<times> Hash) list) \<Rightarrow> state_env \<Rightarrow> Database \<Rightarrow> StateObject
       \<Rightarrow> error option \<times> StateObject \<times> Database" where
  "CommitStorage ord e db s =
     (case updateTrie ord db s of (t, s1) \<Rightarrow>
        (case dbErr s1 of
           Some err \<Rightarrow> (Some err, s1, db)
         | None \<Rightarrow>
             (case Trie_Commit e db t of
                (root, db') \<Rightarrow> (None, s1\<lparr>data := (data s1)\<lparr>acRoot := root\<rparr>\<rparr>, db'))))"

definition Uncache :: "StateObject \<Rightarrow> StateObject" where
  "Uncache s = s\<lparr>committedStorage := Map.empty, dirtyStorage := []\<rparr>"

definition commit_code :: "Database \<Rightarrow> StateObject \<Rightarrow> (StateObject \<times> Database) option" where
  "commit_code db s =
     (case code s of
        None \<Rightarrow> Some (s, db)
      | Some c \<Rightarrow>
          (if dirtycode s
           then map_option (\<lambda>h. (s\<lparr>dirtycode := False\<rparr>, TrieDB_Insert db h c)) (StateObject_GetCodeHash s)
           else Some (s, db)))"

definition commit_object ::
    "((Hash \<times> Hash) list \<Rightarrow> (Hash \<times> Hash) list) \<Rightarrow> StateDB \<Rightarrow> Address \<Rightarrow> StateObject
       \<Rightarrow> StateDB option" where
  "commit_object ord sd addr s =
     (if addr \<notin> dirtyset sd then Some sd
      else case commit_code (sdb sd) s of
        None \<Rightarrow> None
      | Some (s1, db1) \<Rightarrow>
          (case CommitStorage ord (env sd) db1 s1 of (_, s2, db2) \<Rightarrow>
             Some ((put_object sd addr s2)
               \<lparr>sdb := db2,
                strie := snd (TryUpdate (strie sd) (Address_ToBytes addr)
                               (StateObject_Encode (env sd) s2)),
                dirtyset := dirtyset sd - {addr}\<rparr>)))"

fun commit_loop ::
    "((Hash \<times> Hash) list \<Rightarrow> (Hash \<times> Hash) list) \<Rightarrow> StateDB \<Rightarrow> (Address \<times> StateObject) list
       \<Rightarrow> StateDB option" where
  "commit_loop ord sd [] = Some sd"
| "commit_loop ord sd ((addr, s) # rest) =
     (case commit_object ord sd addr s of
        None \<Rightarrow> None
      | Some sd1 \<Rightarrow> commit_loop ord sd1 rest)"

text \<open>\<^verbatim>\<open>commit\<close>: the objects are visited in the order \<open>ordS\<close>, the storage of each in \<open>ordK\<close>.
  The leaf callback of \<^verbatim>\<open>trie.Commit\<close> only maintains reference counts.\<close>

definition SD_commit ::
    "((Address \<times> StateObject) list \<Rightarrow> (Address \<times> StateObject) list)
      \<Rightarrow> ((Hash \<times> Hash) list \<Rightarrow> (Hash \<times> Hash) list) \<Rightarrow> StateDB \<Rightarrow> (Hash \<times> StateDB) option" where
  "SD_commit ordS ordK sd =
     (let sd1 = sd\<lparr>dirtyset := dirtyset sd \<union> set (map fst (dirties (jrnl sd)))\<rparr> in
      case commit_loop ordK sd1 (ordS (states sd1)) of
        None \<Rightarrow> None
      | Some sd2 \<Rightarrow>
          (case Trie_Commit (env sd2) (sdb sd2) (strie sd2) of
             (root, db') \<Rightarrow> Some (root, clearJournalAndRefund (sd2\<lparr>sdb := db'\<rparr>))))"

fun purge_loop :: "StateDB \<Rightarrow> (Address \<times> int) list \<Rightarrow> StateDB" where
  "purge_loop sd [] = sd"
| "purge_loop sd ((addr, lastbeat) # rest) =
     (if map_of (dirties (jrnl sd)) addr \<noteq> None then purge_loop sd rest
      else if addr \<in> dirtyset sd then purge_loop sd rest
      else if now sd - lastbeat > BeatExpireTime sd then purge_loop (deleteStateObject sd addr) rest
      else purge_loop sd rest)"

definition purge :: "((Address \<times> int) list \<Rightarrow> (Address \<times> int) list) \<Rightarrow> StateDB \<Rightarrow> StateDB" where
  "purge ord sd = purge_loop sd (ord (beats sd))"

definition NewStateDB :: "state_env \<Rightarrow> int \<Rightarrow> int \<Rightarrow> Database \<Rightarrow> error + StateDB" where
  "NewStateDB e expire clock db =
     (case OpenTrie db 0 of
        Inl err \<Rightarrow> Inl err
      | Inr tr \<Rightarrow> Inr
          \<lparr>env = e, BeatExpireTime = expire, now = clock, sdb = db, strie = tr, refund = 0,
           jrnl = newJournal, snapshotSet = [], snapshotID = 0, states = [], dirtyset = {},
           beats = []\<rparr>)"

section \<open>The logical content\<close>

text \<open>What an address holds, whether or not it is cached: the cached object, or else the one
  decoded from the trie. Caching and heart beats are invisible at this level.\<close>

definition trie_load :: "state_env \<Rightarrow> Trie \<Rightarrow> Address \<Rightarrow> StateObject option" where
  "trie_load e t a =
     (case t (Address_ToBytes a) of
        Inr (Some b) \<Rightarrow> (case StateObject_Decode e b of Inr s \<Rightarrow> Some s | Inl _ \<Rightarrow> None)
      | _ \<Rightarrow> None)"

definition obj :: "StateDB \<Rightarrow> Address \<Rightarrow> StateObject option" where
  "obj sd a = (case map_of (states sd) a of Some s \<Rightarrow> Some s | None \<Rightarrow> trie_load (env sd) (strie sd) a)"

definition cur :: "StateDB \<Rightarrow> Address \<Rightarrow> StateObject" where
  "cur sd a = (case obj sd a of Some s \<Rightarrow> s | None \<Rightarrow> NewStateObject (env sd) a)"

definition bal :: "StateDB \<Rightarrow> Address \<Rightarrow> int" where
  "bal sd a = acBalance (data (cur sd a))"

definition nonce_of :: "StateDB \<Rightarrow> Address \<Rightarrow> uint64" where
  "nonce_of sd a = acNonce (data (cur sd a))"

definition has_account :: "StateDB \<Rightarrow> Address \<Rightarrow> bool" where
  "has_account sd a \<longleftrightarrow> obj sd a \<noteq> None"

lemma obj_cong:
  "states sd = states sd' \<Longrightarrow> env sd = env sd' \<Longrightarrow> strie sd = strie sd' \<Longrightarrow> obj sd = obj sd'"
  by (rule ext) (simp add: obj_def split: option.splits)

lemma env_ops [simp, frames]:
  "env (put_object sd a s) = env sd" "env (log_entry sd e) = env sd" "env (refreshbeat sd a) = env sd"
  by (simp_all add: put_object_def log_entry_def refreshbeat_def)

lemma strie_ops [simp, frames]:
  "strie (put_object sd a s) = strie sd" "strie (log_entry sd e) = strie sd"
  "strie (refreshbeat sd a) = strie sd"
  by (simp_all add: put_object_def log_entry_def refreshbeat_def)

lemma sdb_ops [simp, frames]:
  "sdb (put_object sd a s) = sdb sd" "sdb (log_entry sd e) = sdb sd" "sdb (refreshbeat sd a) = sdb sd"
  by (simp_all add: put_object_def log_entry_def refreshbeat_def)

lemma refund_ops [simp, frames]:
  "refund (put_object sd a s) = refund sd" "refund (log_entry sd e) = refund sd"
  "refund (refreshbeat sd a) = refund sd"
  by (simp_all add: put_object_def log_entry_def refreshbeat_def)

lemma snap_ops [simp, frames]:
  "snapshotSet (put_object sd a s) = snapshotSet sd" "snapshotSet (log_entry sd e) = snapshotSet sd"
  "snapshotSet (refreshbeat sd a) = snapshotSet sd"
  "snapshotID (put_object sd a s) = snapshotID sd" "snapshotID (log_entry sd e) = snapshotID sd"
  "snapshotID (refreshbeat sd a) = snapshotID sd"
  by (simp_all add: put_object_def log_entry_def refreshbeat_def)

lemma jrnl_ops [simp, frames]:
  "jrnl (put_object sd a s) = jrnl sd" "jrnl (refreshbeat sd a) = jrnl sd"
  "jrnl (log_entry sd e) = journal_append (jrnl sd) e"
  by (simp_all add: put_object_def log_entry_def refreshbeat_def)

lemma dirtyset_ops [simp, frames]:
  "dirtyset (put_object sd a s) = dirtyset sd" "dirtyset (log_entry sd e) = dirtyset sd"
  "dirtyset (refreshbeat sd a) = dirtyset sd"
  by (simp_all add: put_object_def log_entry_def refreshbeat_def)

lemma states_ops [simp, frames]:
  "states (put_object sd a s) = AList.update a s (states sd)" "states (log_entry sd e) = states sd"
  "states (refreshbeat sd a) = states sd"
  by (simp_all add: put_object_def log_entry_def refreshbeat_def)

lemma entries_append [simp]: "entries (journal_append j e) = entries j @ [e]"
  by (simp add: journal_append_def Let_def split: option.splits)

lemma entries_undirty [simp]: "entries (journal_undirty j e) = entries j"
  by (simp add: journal_undirty_def Let_def split: option.splits)

lemma obj_put [simp, golookup]: "obj (put_object sd a s) = (obj sd)(a \<mapsto> s)"
  by (rule ext) (simp add: obj_def split: option.splits)

lemma obj_frame [simp, frames]: "obj (log_entry sd e) = obj sd" "obj (refreshbeat sd a) = obj sd"
  by (rule obj_cong; simp)+

lemma loadStateObject_eq:
  "(case loadStateObject sd a of Inl _ \<Rightarrow> None | Inr r \<Rightarrow> r) = trie_load (env sd) (strie sd) a"
  by (auto simp: loadStateObject_def trie_load_def TryGet_def split: sum.splits option.splits)

text \<open>The state after a lookup differs from the one before only in the cache.\<close>

definition touched :: "StateDB \<Rightarrow> Address \<Rightarrow> StateDB" where
  "touched sd a =
     (if map_of (states sd) a = None
      then case trie_load (env sd) (strie sd) a of None \<Rightarrow> sd | Some s \<Rightarrow> put_object sd a s
      else sd)"

lemma getStateObject_eq: "getStateObject sd a = (obj sd a, touched sd a)"
  by (auto simp: getStateObject_def obj_def touched_def loadStateObject_eq [symmetric]
      split: sum.splits option.splits)

lemma touched_frame [simp, frames]:
  "env (touched sd a) = env sd" "strie (touched sd a) = strie sd" "sdb (touched sd a) = sdb sd"
  "refund (touched sd a) = refund sd" "jrnl (touched sd a) = jrnl sd"
  "snapshotSet (touched sd a) = snapshotSet sd" "snapshotID (touched sd a) = snapshotID sd"
  "dirtyset (touched sd a) = dirtyset sd"
  by (auto simp: touched_def split: option.splits)

lemma obj_touched [simp]: "obj (touched sd a) = obj sd"
  by (rule ext) (auto simp: touched_def obj_def split: option.splits)

lemma cur_cong: "obj sd = obj sd' \<Longrightarrow> env sd = env sd' \<Longrightarrow> cur sd = cur sd'"
  by (rule ext) (simp add: cur_def split: option.splits)

lemma cur_frame [simp, frames]:
  "cur (touched sd a) = cur sd" "cur (log_entry sd e) = cur sd" "cur (refreshbeat sd a) = cur sd"
  by (rule cur_cong; simp)+

lemma cur_put [simp, golookup]: "cur (put_object sd a s) = (cur sd)(a := s)"
  by (rule ext) (simp add: cur_def split: option.splits)

lemma obj_CreateAccount [simp, golookup]:
  "obj (CreateAccount sd a) = (obj sd)(a \<mapsto> NewStateObject (env sd) a)"
  by (simp add: CreateAccount_def getStateObject_eq Let_def)

lemma frame_CreateAccount [simp, frames]:
  "env (CreateAccount sd a) = env sd" "strie (CreateAccount sd a) = strie sd"
  "sdb (CreateAccount sd a) = sdb sd" "refund (CreateAccount sd a) = refund sd"
  "snapshotSet (CreateAccount sd a) = snapshotSet sd" "snapshotID (CreateAccount sd a) = snapshotID sd"
  "dirtyset (CreateAccount sd a) = dirtyset sd"
  by (simp_all add: CreateAccount_def getStateObject_eq Let_def)

definition created :: "StateDB \<Rightarrow> Address \<Rightarrow> StateDB" where
  "created sd a = snd (getOrCreateStateObject sd a)"

lemma getOrCreate_Some: "getOrCreateStateObject sd a = (Some (cur sd a), created sd a)"
  by (auto simp: created_def getOrCreateStateObject_def getStateObject_eq cur_def split: option.splits)

lemma created_eq:
  "created sd a =
     (if obj sd a = None then touched (CreateAccount (touched sd a) a) a else touched sd a)"
  by (auto simp: created_def getOrCreateStateObject_def getStateObject_eq split: option.splits)

lemma created_frame [simp, frames]:
  "env (created sd a) = env sd" "strie (created sd a) = strie sd" "sdb (created sd a) = sdb sd"
  "refund (created sd a) = refund sd" "snapshotSet (created sd a) = snapshotSet sd"
  "snapshotID (created sd a) = snapshotID sd" "dirtyset (created sd a) = dirtyset sd"
  by (simp_all add: created_eq)

lemma obj_created [simp, golookup]: "obj (created sd a) = (obj sd)(a \<mapsto> cur sd a)"
  by (rule ext) (auto simp: created_eq cur_def)

lemma cur_created [simp]: "cur (created sd a) = cur sd"
  by (rule ext) (auto simp: cur_def split: option.splits)

lemma entries_created:
  "entries (jrnl (created sd a)) =
     entries (jrnl sd) @ (if obj sd a = None then [createObjectChange a] else [])"
  by (auto simp: created_eq CreateAccount_def getStateObject_eq Let_def)

section \<open>What the operations do to it\<close>

abbreviation with_balance :: "StateObject \<Rightarrow> int \<Rightarrow> StateObject" where
  "with_balance s b \<equiv> s\<lparr>data := (data s)\<lparr>acBalance := b\<rparr>\<rparr>"

abbreviation with_nonce :: "StateObject \<Rightarrow> uint64 \<Rightarrow> StateObject" where
  "with_nonce s n \<equiv> s\<lparr>data := (data s)\<lparr>acNonce := n\<rparr>\<rparr>"

lemma obj_setBalance [golookup]: "obj (setBalance sd a b) = (obj sd)(a \<mapsto> with_balance (cur sd a) b)"
  by (simp add: setBalance_def getOrCreate_Some so_SetBalance_def)

lemma obj_SetNonce [golookup]: "obj (SetNonce sd a n) = (obj sd)(a \<mapsto> with_nonce (cur sd a) n)"
  by (simp add: SetNonce_def getOrCreate_Some so_SetNonce_def)

lemma addBalance_eq:
  "addBalance sd a v =
     (if v = 0 then sd
      else refreshbeat (setBalance (created sd a) a \<bar>bal sd a + v\<bar>) a)"
  by (simp add: addBalance_def getOrCreate_Some BigInt_Add_def bal_def)

lemma subBalance_eq:
  "subBalance sd a v =
     (if v = 0 then sd
      else refreshbeat (setBalance (created sd a) a \<bar>bal sd a - v\<bar>) a)"
  by (simp add: subBalance_def getOrCreate_Some BigInt_Sub_def bal_def)

lemma env_writes [simp, frames]:
  "env (setBalance sd a b) = env sd" "env (addBalance sd a b) = env sd"
  "env (subBalance sd a b) = env sd" "env (SetNonce sd a n) = env sd"
  by (simp_all add: setBalance_def SetNonce_def addBalance_eq subBalance_eq getOrCreate_Some
      so_SetBalance_def so_SetNonce_def)

lemma cur_setBalance [golookup]: "cur (setBalance sd a b) = (cur sd)(a := with_balance (cur sd a) b)"
  by (rule ext) (simp add: cur_def [of "setBalance sd a b"] obj_setBalance, simp add: cur_def split: option.splits)

lemma cur_SetNonce [golookup]: "cur (SetNonce sd a n) = (cur sd)(a := with_nonce (cur sd a) n)"
  by (rule ext) (simp add: cur_def [of "SetNonce sd a n"] obj_SetNonce, simp add: cur_def split: option.splits)

lemma cur_addBalance [golookup]:
  "cur (addBalance sd a v) = (if v = 0 then cur sd else (cur sd)(a := with_balance (cur sd a) \<bar>bal sd a + v\<bar>))"
  by (simp add: addBalance_eq cur_setBalance)

lemma cur_subBalance [golookup]:
  "cur (subBalance sd a v) = (if v = 0 then cur sd else (cur sd)(a := with_balance (cur sd a) \<bar>bal sd a - v\<bar>))"
  by (simp add: subBalance_eq cur_setBalance)

lemma has_writes [golookup]:
  "has_account (setBalance sd a b) = (has_account sd)(a := True)"
  "has_account (SetNonce sd a n) = (has_account sd)(a := True)"
  by (rule ext; simp add: has_account_def obj_setBalance obj_SetNonce)+

lemma bal_simps [simp]:
  "bal (setBalance sd a b) = (bal sd)(a := b)"
  "bal (SetNonce sd a n) = bal sd"
  by (rule ext; simp add: bal_def cur_setBalance cur_SetNonce)+

lemma nonce_simps [simp]:
  "nonce_of (SetNonce sd a n) = (nonce_of sd)(a := n)"
  "nonce_of (setBalance sd a b) = nonce_of sd"
  "nonce_of (addBalance sd a v) = nonce_of sd"
  "nonce_of (subBalance sd a v) = nonce_of sd"
  by (rule ext; simp add: nonce_of_def cur_setBalance cur_SetNonce cur_addBalance cur_subBalance)+

lemma bal_addBalance: "0 \<le> bal sd a \<Longrightarrow> 0 \<le> v \<Longrightarrow> bal (addBalance sd a v) = (bal sd)(a := bal sd a + v)"
  by (rule ext) (simp add: bal_def cur_addBalance)

lemma bal_subBalance: "0 \<le> v \<Longrightarrow> v \<le> bal sd a \<Longrightarrow> bal (subBalance sd a v) = (bal sd)(a := bal sd a - v)"
  by (rule ext) (simp add: bal_def cur_subBalance)

lemma GetBalance_value: "fst (GetBalance sd a) = bal sd a"
  by (auto simp: GetBalance_def getBalance_def getStateObject_eq bal_def cur_def NewStateObject_def
      split: option.splits)

lemma GetNonce_eq: "SD_GetNonce sd a = (nonce_of sd a, refreshbeat (touched sd a) a)"
  by (auto simp: SD_GetNonce_def getNonce_def getStateObject_eq nonce_of_def cur_def NewStateObject_def
      split: option.splits)

lemma Exist_eq: "Exist sd a = (has_account sd a, touched sd a)"
  by (simp add: Exist_def getStateObject_eq has_account_def)

lemma view_frame [simp, frames]:
  "bal (touched sd a) = bal sd" "bal (refreshbeat sd a) = bal sd" "bal (log_entry sd e) = bal sd"
  "nonce_of (touched sd a) = nonce_of sd" "nonce_of (refreshbeat sd a) = nonce_of sd" "nonce_of (log_entry sd e) = nonce_of sd"
  "has_account (touched sd a) = has_account sd" "has_account (refreshbeat sd a) = has_account sd" "has_account (log_entry sd e) = has_account sd"
  by (rule ext; simp add: bal_def nonce_of_def has_account_def)+

section \<open>The ledger a client sees\<close>

text \<open>What the DAG relies on: balances and nonces under credits, debits, nonce writes and lookups
  (which may change the cache). The client executes a list of plain transfers
  (sender, receiver, value, nonce).\<close>

locale account_ledger =
  fixes balance :: "'s \<Rightarrow> 'k \<Rightarrow> int"
    and acct_nonce :: "'s \<Rightarrow> 'k \<Rightarrow> uint64"
    and known :: "'s \<Rightarrow> 'k \<Rightarrow> bool"
    and credit :: "'s \<Rightarrow> 'k \<Rightarrow> int \<Rightarrow> 's"
    and debit :: "'s \<Rightarrow> 'k \<Rightarrow> int \<Rightarrow> 's"
    and put_nonce :: "'s \<Rightarrow> 'k \<Rightarrow> uint64 \<Rightarrow> 's"
    and peek :: "'s \<Rightarrow> 'k \<Rightarrow> 's"
  assumes balance_credit:
      "0 \<le> balance s a \<Longrightarrow> 0 \<le> v \<Longrightarrow> balance (credit s a v) = (balance s)(a := balance s a + v)"
    and balance_debit:
      "0 \<le> v \<Longrightarrow> v \<le> balance s a \<Longrightarrow> balance (debit s a v) = (balance s)(a := balance s a - v)"
    and balance_put_nonce: "balance (put_nonce s a n) = balance s"
    and nonce_credit: "acct_nonce (credit s a v) = acct_nonce s"
    and nonce_debit: "acct_nonce (debit s a v) = acct_nonce s"
    and nonce_put_nonce: "acct_nonce (put_nonce s a n) = (acct_nonce s)(a := n)"
    and balance_peek: "balance (peek s a) = balance s"
    and nonce_peek: "acct_nonce (peek s a) = acct_nonce s"
    and known_peek: "known (peek s a) = known s"
    and unknown_nonce: "\<not> known s a \<Longrightarrow> acct_nonce s a = 0"
begin

definition bump :: "'s \<Rightarrow> 'k \<Rightarrow> uint64 \<Rightarrow> 's" where
  "bump s f n =
     (if \<not> known (peek s f) f \<or> n > acct_nonce s f then put_nonce (peek s f) f n else peek s f)"

definition transfer :: "'s \<Rightarrow> 'k \<times> 'k \<times> int \<times> uint64 \<Rightarrow> 's" where
  "transfer s = (\<lambda>(f, t, v, n). credit (debit (bump s f n) f v) t v)"

definition sent :: "('k \<times> 'k \<times> int \<times> uint64) list \<Rightarrow> 'k \<Rightarrow> int" where
  "sent xs a = sum_list (map (\<lambda>(f, t, v, n). if f = a then v else 0) xs)"

definition received :: "('k \<times> 'k \<times> int \<times> uint64) list \<Rightarrow> 'k \<Rightarrow> int" where
  "received xs a = sum_list (map (\<lambda>(f, t, v, n). if t = a then v else 0) xs)"

lemma balance_bump [simp]: "balance (bump s f n) = balance s"
  by (simp add: bump_def balance_put_nonce balance_peek)

lemma nonce_bump: "acct_nonce (bump s f n) = (acct_nonce s)(f := max n (acct_nonce s f))"
  using unknown_nonce [of s f] by (auto simp: bump_def nonce_put_nonce nonce_peek known_peek max_def)

lemma nonce_transfer:
  "acct_nonce (transfer s (f, t, v, n)) = (acct_nonce s)(f := max n (acct_nonce s f))"
  by (simp add: transfer_def nonce_credit nonce_debit nonce_bump)

lemma balance_transfer:
  assumes "0 \<le> v" "v \<le> balance s f" "\<And>a. 0 \<le> balance s a"
  shows "balance (transfer s (f, t, v, n)) a =
           balance s a - (if f = a then v else 0) + (if t = a then v else 0)"
proof -
  have d: "balance (debit (bump s f n) f v) = (balance s)(f := balance s f - v)"
    using assms by (simp add: balance_debit)
  then have "0 \<le> balance (debit (bump s f n) f v) t" using assms by simp
  then show ?thesis using assms d by (auto simp: transfer_def balance_credit)
qed

text \<open>If every sender holds at the start what it sends in total, every intermediate debit is
  covered, in whatever order the transfers come.\<close>

lemma balance_transfers:
  assumes "\<forall>(f, t, v, n) \<in> set xs. 0 \<le> v" "\<And>a. 0 \<le> balance s a" "\<And>a. sent xs a \<le> balance s a"
  shows "balance (foldl transfer s xs) a = balance s a - sent xs a + received xs a"
  using assms
proof (induction xs arbitrary: s)
  case Nil
  then show ?case by (simp add: sent_def received_def)
next
  case (Cons x xs)
  obtain f t v n where x: "x = (f, t, v, n)" by (cases x)
  have nonneg: "0 \<le> sent xs b" for b
    unfolding sent_def using Cons.prems(1) by (intro sum_list_nonneg) auto
  have hd: "sent (x # xs) b = (if f = b then v else 0) + sent xs b"
    "received (x # xs) b = (if t = b then v else 0) + received xs b" for b
    by (simp_all add: sent_def received_def x)
  have v: "0 \<le> v" using Cons.prems(1) x by auto
  have "v \<le> balance s f" using Cons.prems(3) [of f] hd nonneg [of f] by simp
  then have b: "balance (transfer s x) b =
      balance s b - (if f = b then v else 0) + (if t = b then v else 0)" for b
    using v Cons.prems(2) x balance_transfer by blast
  have ge: "sent xs b \<le> balance (transfer s x) b" for b
    using Cons.prems(3) [of b] v by (simp add: b hd)
  have "0 \<le> balance (transfer s x) b" for b using ge [of b] nonneg [of b] by simp
  then have "balance (foldl transfer (transfer s x) xs) a
      = balance (transfer s x) a - sent xs a + received xs a"
    using Cons.IH [of "transfer s x"] Cons.prems(1) ge by simp
  then show ?case by (simp add: b hd)
qed

text \<open>The nonce of an account becomes the largest one it used.\<close>

definition used_nonces :: "('k \<times> 'k \<times> int \<times> uint64) set \<Rightarrow> 'k \<Rightarrow> uint64 set" where
  "used_nonces X a = {n. \<exists>t v. (a, t, v, n) \<in> X}"

lemma finite_used_nonces: "finite X \<Longrightarrow> finite (used_nonces X a)"
  by (rule finite_subset [of _ "(\<lambda>(f, t, v, n). n) ` X"]) (force simp: used_nonces_def)+

lemma used_nonces_insert:
  "used_nonces (insert (f, t, v, n) X) a = (if f = a then insert n (used_nonces X a) else used_nonces X a)"
  by (auto simp: used_nonces_def)

lemma nonce_transfers:
  "acct_nonce (foldl transfer s xs) a = Max (insert (acct_nonce s a) (used_nonces (set xs) a))"
proof (induction xs arbitrary: s)
  case (Cons x xs)
  obtain f t v n where x: "x = (f, t, v, n)" by (cases x)
  have fin: "finite (used_nonces (set xs) a)" by (simp add: finite_used_nonces)
  have "acct_nonce (foldl transfer s (x # xs)) a
      = Max (insert (acct_nonce (transfer s x) a) (used_nonces (set xs) a))"
    using Cons.IH by simp
  also have "\<dots> = Max (insert (acct_nonce s a) (used_nonces (set (x # xs)) a))"
    using fin
    by (cases "used_nonces (set xs) a = {}"; cases "f = a")
       (simp_all add: x nonce_transfer used_nonces_insert max.commute max.left_commute max.assoc)
  finally show ?case .
qed (simp add: used_nonces_def)

end

text \<open>The lookups \<^verbatim>\<open>GetNonce\<close> and then \<^verbatim>\<open>Exist\<close> of one account.\<close>

definition looked_up :: "StateDB \<Rightarrow> Address \<Rightarrow> StateDB" where
  "looked_up sd a = snd (Exist (snd (SD_GetNonce sd a)) a)"

lemma looked_up_eq: "looked_up sd a = touched (refreshbeat (touched sd a) a) a"
  by (simp add: looked_up_def GetNonce_eq Exist_eq)

interpretation ledger: account_ledger bal nonce_of has_account addBalance subBalance SetNonce looked_up
  by unfold_locales
     (auto simp: bal_addBalance bal_subBalance looked_up_eq,
      simp add: nonce_of_def cur_def has_account_def NewStateObject_def)

end
