(* ===== verification/Snapshots.thy ===== *)
theory Snapshots
  imports StateDB
begin

text \<open>
  Snapshots of the state database. The journal is given an abstract meaning, the effect of undoing
  one entry on what the accounts show (\<open>undo_entry\<close>); the reverts of \<^verbatim>\<open>journal.go\<close> refine it, every
  operation of \<^verbatim>\<open>statedb.go\<close> is undone by the entries it appends, and so \<^verbatim>\<open>RevertToSnapshot\<close>
  restores the accounts and the refund counter of the moment of the snapshot, also across nested
  snapshots. Contract storage is not part of the account view: a read of it changes what the
  next read returns.
\<close>

section \<open>The account view\<close>

record account_view =
  avBalance :: int
  avNonce :: uint64
  avRoot :: Hash
  avCodeHash :: "Hash option"
  avCode :: "byte list option option"
  avSuicided :: bool

text \<open>What \<^verbatim>\<open>GetCode\<close> returns for a code field and a code hash.\<close>

definition code_view ::
    "state_env \<Rightarrow> Database \<Rightarrow> byte list option \<Rightarrow> Hash option \<Rightarrow> byte list option option" where
  "code_view e db c ho =
     (case c of
        Some b \<Rightarrow> Some (Some b)
      | None \<Rightarrow>
          (case ho of
             None \<Rightarrow> None
           | Some h \<Rightarrow> Some (if h = emptyCodeHash e then None else codes db h)))"

definition account_view_of :: "state_env \<Rightarrow> Database \<Rightarrow> StateObject \<Rightarrow> account_view" where
  "account_view_of e db s =
     \<lparr>avBalance = acBalance (data s), avNonce = acNonce (data s), avRoot = acRoot (data s),
      avCodeHash = StateObject_GetCodeHash s,
      avCode = code_view e db (code s) (StateObject_GetCodeHash s), avSuicided = suicided s\<rparr>"

type_synonym accounts = "Address \<Rightarrow> account_view option"

definition view :: "StateDB \<Rightarrow> accounts" where
  "view sd a = map_option (account_view_of (env sd) (sdb sd)) (obj sd a)"

definition views :: "StateDB \<Rightarrow> accounts \<times> uint64" where
  "views sd = (view sd, refund sd)"

lemma GetCode_view:
  "map_option fst (StateObject_GetCode e db s) = code_view e db (code s) (StateObject_GetCodeHash s)"
  by (auto simp: StateObject_GetCode_def code_view_def ContractCode_def Hash_ToBytes_inject
      split: option.splits)

section \<open>Undoing an entry, abstractly\<close>

fun undo_entry ::
    "state_env \<Rightarrow> Database \<Rightarrow> Trie \<Rightarrow> journalEntry \<Rightarrow> accounts \<times> uint64 \<Rightarrow> accounts \<times> uint64" where
  "undo_entry e db t (createObjectChange a) (V, r) =
     (V(a := map_option (account_view_of e db) (trie_load e t a)), r)"
| "undo_entry e db t (resetObjectChange p) (V, r) =
     (if V (soAddress p) = None then V else V(soAddress p \<mapsto> account_view_of e db p), r)"
| "undo_entry e db t (suicideChange a p b) (V, r) =
     (V(a := map_option (\<lambda>x. x\<lparr>avSuicided := p, avBalance := b\<rparr>) (V a)), r)"
| "undo_entry e db t (balanceChange a b) (V, r) =
     (V(a := map_option (\<lambda>x. x\<lparr>avBalance := b\<rparr>) (V a)), r)"
| "undo_entry e db t (nonceChange a n) (V, r) =
     (V(a := map_option (\<lambda>x. x\<lparr>avNonce := n\<rparr>) (V a)), r)"
| "undo_entry e db t (codeChange a c hb) (V, r) =
     (V(a := map_option (\<lambda>x. x\<lparr>avCodeHash := BytesToHash hb,
                                 avCode := code_view e db c (BytesToHash hb)\<rparr>) (V a)), r)"
| "undo_entry e db t (storageChange a k v) (V, r) = (V, r)"
| "undo_entry e db t (refundChange p) (V, r) = (V, p)"
| "undo_entry e db t (addLogChange h) (V, r) = (V, r)"
| "undo_entry e db t (addPreimageChange h) (V, r) = (V, r)"
| "undo_entry e db t (touchChange a p d) (V, r) = (V, r)"

section \<open>Well-formed states\<close>

definition short_values :: "Trie \<Rightarrow> bool" where
  "short_values t \<longleftrightarrow> (\<forall>k b. t k = Inr (Some b) \<longrightarrow> length b \<le> 32)"

definition obj_ok :: "Address \<Rightarrow> StateObject \<Rightarrow> bool" where
  "obj_ok a s \<longleftrightarrow> soAddress s = a \<and> 0 \<le> acBalance (data s) \<and> length (acCodeHash (data s)) \<le> 32
     \<and> (\<forall>t. sotrie s = Some t \<longrightarrow> short_values t)"

fun entry_ok :: "journalEntry \<Rightarrow> bool" where
  "entry_ok (resetObjectChange p) = obj_ok (soAddress p) p"
| "entry_ok (suicideChange a p b) = (0 \<le> b)"
| "entry_ok (balanceChange a b) = (0 \<le> b)"
| "entry_ok (codeChange a c hb) = (length hb \<le> 32)"
| "entry_ok _ = True"

definition db_ok :: "Database \<Rightarrow> bool" where
  "db_ok db \<longleftrightarrow> (\<forall>root t. tries db root = Inr t \<longrightarrow> short_values t)"

text \<open>Objects sit under their own address with a non-negative balance, and neither a code hash
  nor a stored value is longer than a hash.\<close>

definition state_ok :: "StateDB \<Rightarrow> bool" where
  "state_ok sd \<longleftrightarrow>
     (\<forall>a s. obj sd a = Some s \<longrightarrow> obj_ok a s)
     \<and> (\<forall>a s. trie_load (env sd) (strie sd) a = Some s \<longrightarrow> obj_ok a s)
     \<and> (\<forall>e \<in> set (entries (jrnl sd)). entry_ok e) \<and> db_ok (sdb sd)"

lemma BytesToHash_Some: "length b \<le> 32 \<Longrightarrow> \<exists>h. BytesToHash b = Some h"
  by (simp add: BytesToHash_def Hash_MustSetBytes_def HashLength_def)

lemma openTrie_short:
  assumes "obj_ok a s" "db_ok db" "openTrie db s = (t, s1)"
  shows "short_values t" "s1 = s\<lparr>sotrie := Some t\<rparr> \<or> s1 = s" "obj_ok a s1"
  using assms
  by (auto simp: openTrie_def obj_ok_def db_ok_def OpenStorageTrie_def short_values_def empty_trie_def
      Let_def split: option.splits sum.splits if_splits)

text \<open>Reading storage does not panic and leaves the account view alone.\<close>

definition same_account :: "StateObject \<Rightarrow> StateObject \<Rightarrow> bool" where
  "same_account s s1 \<longleftrightarrow> data s1 = data s \<and> code s1 = code s \<and> suicided s1 = suicided s
     \<and> soAddress s1 = soAddress s"

lemma same_account_view: "same_account s s1 \<Longrightarrow> account_view_of e db s1 = account_view_of e db s"
  by (simp add: same_account_def account_view_of_def StateObject_GetCodeHash_def)

lemma GetState_total:
  assumes "obj_ok a s" "db_ok db"
  obtains v s1 where "StateObject_GetState db s k = Some (v, s1)" "same_account s s1" "obj_ok a s1"
proof -
  obtain t s1 where t: "openTrie db s = (t, s1)" by (cases "openTrie db s")
  note o = openTrie_short [OF assms t]
  have s1: "same_account s s1" using o(2) by (auto simp: same_account_def)
  have "\<exists>v s2. GetCommittedState db s k = Some (v, s2) \<and> same_account s s2 \<and> obj_ok a s2"
  proof (cases "committedStorage s k")
    case None
    show ?thesis
    proof (cases "t (Hash_ToBytes k)")
      case (Inl err)
      obtain h where "BytesToHash [] = Some h" using BytesToHash_Some [of "[]"] by auto
      then show ?thesis
        using None Inl t s1 o(3)
        by (auto simp: GetCommittedState_def TryGet_def same_account_def setError_def obj_ok_def)
    next
      case (Inr b)
      have "length (case b of None \<Rightarrow> [] | Some bs \<Rightarrow> bs) \<le> 32"
        using o(1) Inr by (auto simp: short_values_def split: option.splits)
      then obtain h where "BytesToHash (case b of None \<Rightarrow> [] | Some bs \<Rightarrow> bs) = Some h"
        using BytesToHash_Some by blast
      then show ?thesis
        using None Inr t s1 o(3)
        by (auto simp: GetCommittedState_def TryGet_def same_account_def obj_ok_def)
    qed
  qed (use assms in \<open>auto simp: GetCommittedState_def same_account_def\<close>)
  then show ?thesis
    using that assms(1)
    by (cases "map_of (dirtyStorage s) k") (auto simp: StateObject_GetState_def same_account_def)
qed

lemma state_ok_put: "state_ok sd \<Longrightarrow> obj_ok a s \<Longrightarrow> state_ok (put_object sd a s)"
  by (auto simp: state_ok_def)

lemma state_ok_log: "state_ok sd \<Longrightarrow> entry_ok e \<Longrightarrow> state_ok (log_entry sd e)"
  by (auto simp: state_ok_def)

lemma state_ok_touched: "state_ok sd \<Longrightarrow> state_ok (touched sd a)"
  by (simp add: state_ok_def)

lemma state_ok_beat: "state_ok sd \<Longrightarrow> state_ok (refreshbeat sd a)"
  by (simp add: state_ok_def)

lemma state_ok_cong:
  "state_ok sd \<Longrightarrow> obj sd' = obj sd \<Longrightarrow> env sd' = env sd \<Longrightarrow> strie sd' = strie sd \<Longrightarrow> sdb sd' = sdb sd
    \<Longrightarrow> entries (jrnl sd') = entries (jrnl sd) \<Longrightarrow> state_ok sd'"
  by (simp add: state_ok_def)

lemma state_okD: "state_ok sd \<Longrightarrow> obj sd a = Some s \<Longrightarrow> obj_ok a s"
  by (simp add: state_ok_def)

lemma obj_ok_new: "obj_ok a (NewStateObject e a)"
  by (simp add: obj_ok_def NewStateObject_def Hash_ToBytes_def)

lemma obj_ok_cur: "state_ok sd \<Longrightarrow> obj_ok a (cur sd a)"
  by (auto simp: cur_def state_ok_def obj_ok_new split: option.splits)

lemmas state_ok_intros = state_ok_put state_ok_log state_ok_touched state_ok_beat

lemma views_put [simp]:
  "view (put_object sd a s) = (view sd)(a \<mapsto> account_view_of (env sd) (sdb sd) s)"
  by (rule ext) (simp add: view_def)

lemma obj_upd [simp, frames]:
  "obj (sd\<lparr>refund := r\<rparr>) = obj sd" "obj (sd\<lparr>jrnl := j\<rparr>) = obj sd"
  "obj (sd\<lparr>snapshotSet := S\<rparr>) = obj sd" "obj (sd\<lparr>snapshotID := i\<rparr>) = obj sd"
  by (rule obj_cong; simp)+

lemma account_view_frame [simp, frames]:
  "view (log_entry sd e) = view sd" "view (touched sd a) = view sd" "view (refreshbeat sd a) = view sd"
  by (rule ext; simp add: view_def)+

section \<open>The reverts refine it\<close>

definition frame :: "StateDB \<Rightarrow> StateDB \<Rightarrow> bool" where
  "frame sd sd' \<longleftrightarrow> env sd' = env sd \<and> sdb sd' = sdb sd \<and> strie sd' = strie sd
     \<and> snapshotSet sd' = snapshotSet sd \<and> snapshotID sd' = snapshotID sd
     \<and> take (length (entries (jrnl sd))) (entries (jrnl sd')) = entries (jrnl sd)"

lemma frame_refl [simp]: "frame sd sd"
  by (simp add: frame_def)

lemma frame_trans:
  assumes "frame sd sd'" "frame sd' sd''"
  shows "frame sd sd''"
proof -
  let ?n = "length (entries (jrnl sd))"
  have a: "take ?n (entries (jrnl sd')) = entries (jrnl sd)" using assms(1) by (simp add: frame_def)
  then have le: "?n \<le> length (entries (jrnl sd'))" by (metis length_take min.cobounded1)
  have "take ?n (entries (jrnl sd'')) = take ?n (take (length (entries (jrnl sd'))) (entries (jrnl sd'')))"
    using le by (simp add: min_absorb1)
  also have "\<dots> = entries (jrnl sd)" using assms(2) a by (simp add: frame_def)
  finally show ?thesis using assms by (simp add: frame_def)
qed

lemma frame_append:
  "env sd' = env sd \<Longrightarrow> sdb sd' = sdb sd \<Longrightarrow> strie sd' = strie sd \<Longrightarrow> snapshotSet sd' = snapshotSet sd
    \<Longrightarrow> snapshotID sd' = snapshotID sd \<Longrightarrow> entries (jrnl sd') = entries (jrnl sd) @ es \<Longrightarrow> frame sd sd'"
  by (simp add: frame_def)

definition reverted :: "journalEntry \<Rightarrow> StateDB \<Rightarrow> StateDB \<Rightarrow> bool" where
  "reverted e sd sd' \<longleftrightarrow> frame sd sd' \<and> state_ok sd'
     \<and> views sd' = undo_entry (env sd) (sdb sd) (strie sd) e (views sd)"

text \<open>A revert that rewrites the object of one account, when the account is there.\<close>

lemma reverted_object:
  assumes "state_ok sd" "obj sd a = Some s" "entry_ok x" "obj_ok a s'"
    and "account_view_of (env sd) (sdb sd) s' = f (account_view_of (env sd) (sdb sd) s)"
    and "undo_entry (env sd) (sdb sd) (strie sd) e (views sd) = ((view sd)(a := map_option f (view sd a)), refund sd)"
  shows "reverted e sd (put_object (log_entry (touched sd a) x) a s')"
proof -
  have "views (put_object (log_entry (touched sd a) x) a s')
      = ((view sd)(a := map_option f (view sd a)), refund sd)"
    using assms(2,5) by (auto simp: views_def view_def)
  moreover have "frame sd (put_object (log_entry (touched sd a) x) a s')"
    by (rule frame_append) simp_all
  moreover have "state_ok (put_object (log_entry (touched sd a) x) a s')"
    using assms by (intro state_ok_intros)
  ultimately show ?thesis using assms(6) by (simp add: reverted_def)
qed

lemma reverted_absent:
  assumes "state_ok sd" "obj sd a = None"
    and "undo_entry (env sd) (sdb sd) (strie sd) e (views sd) = ((view sd)(a := map_option f (view sd a)), refund sd)"
  shows "reverted e sd (touched sd a)"
proof -
  have "(view sd)(a := map_option f (view sd a)) = view sd"
    using assms(2) by (auto simp: view_def)
  then show ?thesis
    using assms by (simp add: reverted_def views_def state_ok_touched frame_append [where es = "[]"])
qed

lemma revert_object_entry:
  assumes "state_ok sd" "\<And>s. obj sd a = Some s \<Longrightarrow> entry_ok (x s) \<and> obj_ok a (g s)
      \<and> account_view_of (env sd) (sdb sd) (g s) = f (account_view_of (env sd) (sdb sd) s)"
    and "undo_entry (env sd) (sdb sd) (strie sd) e (views sd) = ((view sd)(a := map_option f (view sd a)), refund sd)"
  shows "reverted e sd
     (case obj sd a of None \<Rightarrow> touched sd a | Some s \<Rightarrow> put_object (log_entry (touched sd a) (x s)) a (g s))"
  using assms reverted_object [of sd a _ _ "_" f e] reverted_absent [of sd a e f]
  by (cases "obj sd a") auto

lemma undo_view_eqs:
  "undo_entry e db t (balanceChange a b) (views sd) =
     ((view sd)(a := map_option (\<lambda>x. x\<lparr>avBalance := b\<rparr>) (view sd a)), refund sd)"
  "undo_entry e db t (nonceChange a n) (views sd) =
     ((view sd)(a := map_option (\<lambda>x. x\<lparr>avNonce := n\<rparr>) (view sd a)), refund sd)"
  "undo_entry e db t (suicideChange a p b) (views sd) =
     ((view sd)(a := map_option (\<lambda>x. x\<lparr>avSuicided := p, avBalance := b\<rparr>) (view sd a)), refund sd)"
  "undo_entry e db t (codeChange a c hb) (views sd) =
     ((view sd)(a := map_option (\<lambda>x. x\<lparr>avCodeHash := BytesToHash hb,
                              avCode := code_view e db c (BytesToHash hb)\<rparr>) (view sd a)), refund sd)"
  "undo_entry e db t (storageChange a k v) (views sd) =
     ((view sd)(a := map_option (\<lambda>x. x) (view sd a)), refund sd)"
  by (simp_all add: views_def option.map_ident)

lemma revert_balance:
  assumes "state_ok sd" "0 \<le> b"
  shows "\<exists>sd'. revert_entry sd (balanceChange a b) = Some sd' \<and> reverted (balanceChange a b) sd sd'"
  using assms
    revert_object_entry [of sd a "\<lambda>s. balanceChange (soAddress s) (acBalance (data s))"
      "\<lambda>s. with_balance s b" "\<lambda>x. x\<lparr>avBalance := b\<rparr>" "balanceChange a b"]
  by (cases "obj sd a")
     (auto simp: getStateObject_eq so_SetBalance_def undo_view_eqs account_view_of_def obj_ok_def
       StateObject_GetCodeHash_def dest!: state_okD [of sd a])

lemma revert_nonce:
  assumes "state_ok sd"
  shows "\<exists>sd'. revert_entry sd (nonceChange a n) = Some sd' \<and> reverted (nonceChange a n) sd sd'"
  using assms
    revert_object_entry [of sd a "\<lambda>s. nonceChange (soAddress s) (acNonce (data s))"
      "\<lambda>s. with_nonce s n" "\<lambda>x. x\<lparr>avNonce := n\<rparr>" "nonceChange a n"]
  by (cases "obj sd a")
     (auto simp: getStateObject_eq so_SetNonce_def undo_view_eqs account_view_of_def obj_ok_def
       StateObject_GetCodeHash_def dest!: state_okD [of sd a])

lemma revert_suicide:
  assumes "state_ok sd" "0 \<le> b"
  shows "\<exists>sd'. revert_entry sd (suicideChange a p b) = Some sd' \<and> reverted (suicideChange a p b) sd sd'"
  using assms
    revert_object_entry [of sd a "\<lambda>s. balanceChange (soAddress s) (acBalance (data s))"
      "\<lambda>s. with_balance (s\<lparr>suicided := p\<rparr>) b" "\<lambda>x. x\<lparr>avSuicided := p, avBalance := b\<rparr>"
      "suicideChange a p b"]
  by (cases "obj sd a")
     (auto simp: getStateObject_eq so_SetBalance_def undo_view_eqs account_view_of_def obj_ok_def
       StateObject_GetCodeHash_def dest!: state_okD [of sd a])

lemma BytesToHash_Hash_ToBytes [simp]: "BytesToHash (Hash_ToBytes h) = Some h"
  by (rule BytesToHash_ToBytes)

lemma revert_code:
  assumes "state_ok sd" "length hb \<le> 32"
  shows "\<exists>sd'. revert_entry sd (codeChange a c hb) = Some sd' \<and> reverted (codeChange a c hb) sd sd'"
proof -
  obtain h where h: "BytesToHash hb = Some h" using BytesToHash_Some assms(2) by blast
  show ?thesis
    using assms h
      revert_object_entry [of sd a "\<lambda>s. codeChange (soAddress s) (code s) (acCodeHash (data s))"
        "\<lambda>s. s\<lparr>code := c, data := (data s)\<lparr>acCodeHash := Hash_ToBytes h\<rparr>, dirtycode := True\<rparr>"
        "\<lambda>x. x\<lparr>avCodeHash := BytesToHash hb, avCode := code_view (env sd) (sdb sd) c (BytesToHash hb)\<rparr>"
        "codeChange a c hb"]
    by (cases "obj sd a")
       (auto simp: getStateObject_eq so_SetCode_def undo_view_eqs account_view_of_def obj_ok_def
         StateObject_GetCodeHash_def dest!: state_okD [of sd a])
qed

lemma so_SetState_total:
  assumes "state_ok sd" "obj_ok a s"
  obtains p s1 where "same_account s s1" "obj_ok a s1"
    "so_SetState sd a s k v = Some (put_object (log_entry sd (storageChange (soAddress s) k p)) a
       (s1\<lparr>dirtyStorage := AList.update k v (dirtyStorage s1)\<rparr>))"
proof -
  have "db_ok (sdb sd)" using assms(1) by (simp add: state_ok_def)
  then obtain p s1 where "StateObject_GetState (sdb sd) s k = Some (p, s1)" "same_account s s1" "obj_ok a s1"
    using GetState_total assms(2) by blast
  then show ?thesis using that by (simp add: so_SetState_def)
qed

lemma obj_ok_dirtyStorage [simp]: "obj_ok a (s\<lparr>dirtyStorage := d\<rparr>) = obj_ok a s"
  by (simp add: obj_ok_def)

lemma view_of_dirtyStorage [simp]:
  "account_view_of e db (s\<lparr>dirtyStorage := d\<rparr>) = account_view_of e db s"
  by (simp add: account_view_of_def StateObject_GetCodeHash_def)

lemma revert_storage:
  assumes "state_ok sd"
  shows "\<exists>sd'. revert_entry sd (storageChange a k v) = Some sd' \<and> reverted (storageChange a k v) sd sd'"
proof (cases "obj sd a")
  case None
  then show ?thesis
    using assms reverted_absent [of sd a "storageChange a k v" "\<lambda>x. x"]
    by (simp add: getStateObject_eq undo_view_eqs)
next
  case (Some s)
  have ok: "obj_ok a s" using assms Some by (rule state_okD)
  obtain p s1 where s1: "same_account s s1" "obj_ok a s1"
    and eq: "so_SetState (touched sd a) a s k v =
      Some (put_object (log_entry (touched sd a) (storageChange (soAddress s) k p)) a
       (s1\<lparr>dirtyStorage := AList.update k v (dirtyStorage s1)\<rparr>))"
    using so_SetState_total [OF state_ok_touched [OF assms] ok] by blast
  have "reverted (storageChange a k v) sd
     (put_object (log_entry (touched sd a) (storageChange (soAddress s) k p)) a
       (s1\<lparr>dirtyStorage := AList.update k v (dirtyStorage s1)\<rparr>))"
    using assms Some s1
    by (intro reverted_object [where f = "\<lambda>x. x"]) (auto simp: same_account_view undo_view_eqs)
  with eq Some show ?thesis by (simp add: getStateObject_eq)
qed

lemma revert_create:
  assumes "state_ok sd"
  shows "reverted (createObjectChange a) sd
     (sd\<lparr>states := AList.delete a (states sd), dirtyset := dirtyset sd - {a}\<rparr>)"
proof -
  let ?sd = "sd\<lparr>states := AList.delete a (states sd), dirtyset := dirtyset sd - {a}\<rparr>"
  have o: "obj ?sd = (obj sd)(a := trie_load (env sd) (strie sd) a)"
    by (rule ext) (simp add: obj_def split: option.splits)
  have "frame sd ?sd" by (rule frame_append [where es = "[]"]) simp_all
  moreover have "state_ok ?sd" using assms o by (auto simp: state_ok_def)
  moreover have "view ?sd = (view sd)(a := map_option (account_view_of (env sd) (sdb sd))
      (trie_load (env sd) (strie sd) a))"
    by (rule ext) (simp add: view_def o)
  ultimately show ?thesis by (simp add: reverted_def views_def)
qed

lemma revert_reset:
  assumes "state_ok sd" "obj_ok (soAddress p) p"
  shows "reverted (resetObjectChange p) sd (setStateObject sd (soAddress p) p)"
proof (cases "obj sd (soAddress p)")
  case None
  then show ?thesis using assms
    by (auto simp: setStateObject_def getStateObject_eq reverted_def views_def view_def
        intro!: state_ok_intros frame_append [where es = "[]"])
next
  case (Some s)
  then have "entry_ok (resetObjectChange s)" using assms(1) state_okD [OF assms(1) Some]
    by (simp add: obj_ok_def)
  with Some show ?thesis using assms
    by (auto simp: setStateObject_def getStateObject_eq reverted_def views_def view_def
        intro!: state_ok_intros frame_append)
qed

lemma revert_entry_refines:
  assumes "state_ok sd" "entry_ok x"
  shows "\<exists>sd'. revert_entry sd x = Some sd' \<and> reverted x sd sd'"
proof (cases x)
  case (refundChange p)
  have "state_ok (sd\<lparr>refund := p\<rparr>)" "view (sd\<lparr>refund := p\<rparr>) = view sd"
    using assms(1) by (auto simp: view_def fun_eq_iff state_ok_def)
  then show ?thesis
    using refundChange by (auto simp: reverted_def views_def intro!: frame_append [where es = "[]"])
qed (use assms revert_balance revert_nonce revert_suicide revert_code revert_storage revert_create
       revert_reset in \<open>auto simp: reverted_def views_def\<close>)

lemma revert_loop_refines:
  assumes "state_ok sd" "\<forall>x \<in> set xs. entry_ok x"
  shows "\<exists>sd'. journal_revert_loop sd xs = Some sd' \<and> frame sd sd' \<and> state_ok sd'
     \<and> views sd' = fold (undo_entry (env sd) (sdb sd) (strie sd)) xs (views sd)"
  using assms
proof (induction xs arbitrary: sd)
  case (Cons x xs)
  obtain sd1 where sd1: "revert_entry sd x = Some sd1" and r: "reverted x sd sd1"
    using revert_entry_refines Cons.prems by fastforce
  let ?sd2 = "sd1\<lparr>jrnl := journal_undirty (jrnl sd1) x\<rparr>"
  have f: "frame sd ?sd2" and ok: "state_ok ?sd2"
    and v: "views ?sd2 = undo_entry (env sd) (sdb sd) (strie sd) x (views sd)"
    using r by (auto simp: reverted_def frame_def state_ok_def views_def view_def [abs_def])
  then obtain sd' where "journal_revert_loop ?sd2 xs = Some sd'" "frame ?sd2 sd'" "state_ok sd'"
    "views sd' = fold (undo_entry (env ?sd2) (sdb ?sd2) (strie ?sd2)) xs (views ?sd2)"
    using Cons.IH [OF ok] Cons.prems(2) by auto
  moreover have "env ?sd2 = env sd" "sdb ?sd2 = sdb sd" "strie ?sd2 = strie sd"
    using f by (simp_all add: frame_def)
  ultimately show ?case using sd1 f v by (auto intro: frame_trans)
qed simp

text \<open>Undoing everything journalled from an index on.\<close>

definition undo_to :: "StateDB \<Rightarrow> nat \<Rightarrow> accounts \<times> uint64" where
  "undo_to sd i =
     foldr (undo_entry (env sd) (sdb sd) (strie sd)) (drop i (entries (jrnl sd))) (views sd)"

lemma journal_revert_refines:
  assumes "state_ok sd" "i \<le> length (entries (jrnl sd))"
  shows "\<exists>sd'. journal_revert sd i = Some sd' \<and> state_ok sd' \<and> views sd' = undo_to sd i
     \<and> entries (jrnl sd') = take i (entries (jrnl sd)) \<and> env sd' = env sd \<and> sdb sd' = sdb sd
     \<and> strie sd' = strie sd \<and> snapshotSet sd' = snapshotSet sd \<and> snapshotID sd' = snapshotID sd"
proof -
  have "\<forall>x \<in> set (rev (drop i (entries (jrnl sd)))). entry_ok x"
    using assms(1) by (auto simp: state_ok_def dest: in_set_dropD)
  then obtain sd1 where sd1: "journal_revert_loop sd (rev (drop i (entries (jrnl sd)))) = Some sd1"
    and f: "frame sd sd1" and ok: "state_ok sd1"
    and v: "views sd1 = fold (undo_entry (env sd) (sdb sd) (strie sd)) (rev (drop i (entries (jrnl sd)))) (views sd)"
    using revert_loop_refines assms(1) by blast
  let ?sd' = "sd1\<lparr>jrnl := (jrnl sd1)\<lparr>entries := take i (entries (jrnl sd1))\<rparr>\<rparr>"
  have "take (length (entries (jrnl sd))) (entries (jrnl sd1)) = entries (jrnl sd)"
    using f by (simp add: frame_def)
  then have t: "take i (entries (jrnl sd1)) = take i (entries (jrnl sd))"
    using assms(2) by (metis min.absorb1 take_take)
  have "state_ok ?sd'" using ok by (auto simp: state_ok_def dest: in_set_takeD)
  moreover have "views ?sd' = undo_to sd i"
    using v by (simp add: views_def view_def [abs_def] undo_to_def foldr_conv_fold)
  ultimately show ?thesis
    using sd1 f t by (auto simp: journal_revert_def frame_def)
qed

section \<open>Every operation is undone by what it journals\<close>

definition undoable :: "StateDB \<Rightarrow> StateDB \<Rightarrow> bool" where
  "undoable sd sd' \<longleftrightarrow> frame sd sd' \<and> state_ok sd' \<and> undo_to sd' (length (entries (jrnl sd))) = views sd"

lemma frame_entries: "frame sd sd' \<Longrightarrow> \<exists>es. entries (jrnl sd') = entries (jrnl sd) @ es"
  unfolding frame_def by (metis append_take_drop_id)

lemma undo_to_extend:
  assumes "undoable sd sd'" "i \<le> length (entries (jrnl sd))"
  shows "undo_to sd' i = undo_to sd i"
proof -
  obtain es where es: "entries (jrnl sd') = entries (jrnl sd) @ es"
    using assms(1) frame_entries by (auto simp: undoable_def)
  have "env sd' = env sd" "sdb sd' = sdb sd" "strie sd' = strie sd"
    using assms(1) by (simp_all add: undoable_def frame_def)
  then show ?thesis using assms es by (simp add: undoable_def undo_to_def)
qed

lemma undo_to_end [simp]: "undo_to sd (length (entries (jrnl sd))) = views sd"
  by (simp add: undo_to_def)

lemma undoable_refl: "state_ok sd \<Longrightarrow> undoable sd sd"
  by (simp add: undoable_def)

lemma undoable_trans:
  assumes "undoable sd sd'" "undoable sd' sd''"
  shows "undoable sd sd''"
proof -
  have "length (entries (jrnl sd)) \<le> length (entries (jrnl sd'))"
    using assms(1) frame_entries by (fastforce simp: undoable_def)
  then have "undo_to sd'' (length (entries (jrnl sd))) = undo_to sd' (length (entries (jrnl sd)))"
    using assms(2) undo_to_extend by blast
  then show ?thesis using assms by (auto simp: undoable_def intro: frame_trans)
qed

lemma undoable_touched: "state_ok sd \<Longrightarrow> undoable sd (touched sd a)"
  by (simp add: undoable_def undo_to_def views_def state_ok_touched frame_append [where es = "[]"])

lemma undoable_beat: "undoable sd sd' \<Longrightarrow> undoable sd (refreshbeat sd' a)"
  by (auto simp: undoable_def undo_to_def views_def state_ok_beat frame_def)

lemma undoable_put:
  assumes "state_ok sd" "obj_ok a s" "entry_ok x"
    "undo_entry (env sd) (sdb sd) (strie sd) x (views (put_object sd a s)) = views sd"
  shows "undoable sd (put_object (log_entry sd x) a s)"
  using assms
  by (simp add: undoable_def undo_to_def views_def frame_append state_ok_put state_ok_log)

lemma undoable_CreateAccount:
  assumes "state_ok sd"
  shows "undoable sd (CreateAccount sd a)"
proof -
  let ?x = "case obj sd a of Some old \<Rightarrow> resetObjectChange old | None \<Rightarrow> createObjectChange a"
  have "entry_ok ?x \<and> undo_entry (env sd) (sdb sd) (strie sd) ?x
      (views (put_object (touched sd a) a (NewStateObject (env sd) a))) = views (touched sd a)"
  proof (cases "obj sd a")
    case None
    then have "trie_load (env sd) (strie sd) a = None"
      by (simp add: obj_def split: option.splits)
    with None show ?thesis by (auto simp: views_def view_def)
  next
    case (Some s)
    then have "obj_ok a s" using assms by (rule state_okD [rotated])
    with Some show ?thesis by (auto simp: views_def view_def obj_ok_def)
  qed
  then have "undoable (touched sd a)
      (put_object (log_entry (touched sd a) ?x) a (NewStateObject (env sd) a))"
    using assms obj_ok_new by (intro undoable_put) (auto simp: state_ok_touched)
  then have "undoable sd (put_object (log_entry (touched sd a) ?x) a (NewStateObject (env sd) a))"
    using undoable_touched [OF assms] undoable_trans by blast
  then show ?thesis by (simp add: CreateAccount_def getStateObject_eq Let_def undoable_beat)
qed

lemma undoable_created:
  assumes "state_ok sd"
  shows "undoable sd (created sd a)"
proof -
  have t: "undoable sd (touched sd a)" by (rule undoable_touched [OF assms])
  show ?thesis
  proof (cases "obj sd a")
    case None
    have c: "undoable (touched sd a) (CreateAccount (touched sd a) a)"
      using t by (intro undoable_CreateAccount) (simp add: undoable_def)
    have "undoable (CreateAccount (touched sd a) a) (touched (CreateAccount (touched sd a) a) a)"
      using c by (intro undoable_touched) (simp add: undoable_def)
    with None t c show ?thesis by (auto simp: created_eq intro: undoable_trans)
  qed (simp add: created_eq t)
qed

text \<open>A write to the current object of an account, created first if need be.\<close>

lemma undoable_write:
  assumes "state_ok sd" "obj_ok a s" "entry_ok x"
    "undo_entry (env sd) (sdb sd) (strie sd) x (views (put_object (created sd a) a s)) = views (created sd a)"
  shows "undoable sd (put_object (log_entry (created sd a) x) a s)"
proof -
  have c: "undoable sd (created sd a)" by (rule undoable_created [OF assms(1)])
  then have "undoable (created sd a) (put_object (log_entry (created sd a) x) a s)"
    using assms by (intro undoable_put) (auto simp: undoable_def)
  with c show ?thesis by (rule undoable_trans)
qed

lemma undoable_setBalance:
  assumes "state_ok sd" "0 \<le> b"
  shows "undoable sd (setBalance sd a b)"
proof -
  have "obj_ok a (cur sd a)" by (rule obj_ok_cur [OF assms(1)])
  then have "undoable sd (put_object
      (log_entry (created sd a) (balanceChange (soAddress (cur sd a)) (acBalance (data (cur sd a))))) a
      (with_balance (cur sd a) b))"
    using assms
    by (intro undoable_write)
       (auto simp: obj_ok_def views_def view_def account_view_of_def StateObject_GetCodeHash_def)
  then show ?thesis by (simp add: setBalance_def getOrCreate_Some so_SetBalance_def undoable_beat)
qed

lemma undoable_SetNonce:
  assumes "state_ok sd"
  shows "undoable sd (SetNonce sd a n)"
proof -
  have "obj_ok a (cur sd a)" by (rule obj_ok_cur [OF assms(1)])
  then have "undoable sd (put_object
      (log_entry (created sd a) (nonceChange (soAddress (cur sd a)) (acNonce (data (cur sd a))))) a
      (with_nonce (cur sd a) n))"
    using assms
    by (intro undoable_write)
       (auto simp: obj_ok_def views_def view_def account_view_of_def StateObject_GetCodeHash_def)
  then show ?thesis by (simp add: SetNonce_def getOrCreate_Some so_SetNonce_def undoable_beat)
qed

lemma undoable_SetCode:
  assumes "state_ok sd"
  shows "undoable sd (SetCode sd a c)"
proof -
  have "obj_ok a (cur sd a)" by (rule obj_ok_cur [OF assms(1)])
  then show ?thesis
    using assms unfolding SetCode_def getOrCreate_Some so_SetCode_def prod.case option.case
    by (intro undoable_write)
       (auto simp: obj_ok_def views_def view_def account_view_of_def StateObject_GetCodeHash_def)
qed

lemma undoable_AddSub:
  assumes "state_ok sd"
  shows "undoable sd (addBalance sd a v)" "undoable sd (subBalance sd a v)"
proof -
  have c: "undoable sd (created sd a)" by (rule undoable_created [OF assms])
  have "undoable sd (setBalance (created sd a) a \<bar>b\<bar>)" for b
    using c undoable_setBalance [of "created sd a" "\<bar>b\<bar>"] undoable_trans
    by (fastforce simp: undoable_def [of sd "created sd a"])
  then show "undoable sd (addBalance sd a v)" "undoable sd (subBalance sd a v)"
    using assms by (auto simp: addBalance_eq subBalance_eq undoable_refl intro: undoable_beat)
qed

lemma undoable_SetState:
  assumes "state_ok sd" "SetState sd a k v = Some sd'"
  shows "undoable sd sd'"
proof -
  have c: "state_ok (created sd a)" using undoable_created [OF assms(1)] by (simp add: undoable_def)
  obtain p s1 where s1: "same_account (cur sd a) s1" "obj_ok a s1"
    and eq: "so_SetState (created sd a) a (cur sd a) k v =
      Some (put_object (log_entry (created sd a) (storageChange (soAddress (cur sd a)) k p)) a
       (s1\<lparr>dirtyStorage := AList.update k v (dirtyStorage s1)\<rparr>))"
    using so_SetState_total [OF c obj_ok_cur [OF assms(1)]] by blast
  have "undoable sd (put_object (log_entry (created sd a) (storageChange (soAddress (cur sd a)) k p)) a
       (s1\<lparr>dirtyStorage := AList.update k v (dirtyStorage s1)\<rparr>))"
    using assms(1) s1
    by (intro undoable_write) (auto simp: views_def view_def same_account_view)
  with eq assms(2) show ?thesis by (simp add: SetState_def getOrCreate_Some)
qed

lemma undoable_Suicide:
  assumes "state_ok sd"
  shows "undoable sd (snd (Suicide sd a))"
proof (cases "obj sd a")
  case None
  then show ?thesis using assms by (simp add: Suicide_def getStateObject_eq undoable_touched)
next
  case (Some s)
  then have ok: "obj_ok a s" using assms by (rule state_okD [rotated])
  have "undoable (touched sd a) (put_object
      (log_entry (touched sd a) (suicideChange a (suicided s) (NewBigIntFromBigInt (acBalance (data s))))) a
      (s\<lparr>suicided := True, data := (data s)\<lparr>acBalance := 0\<rparr>\<rparr>))"
    using assms ok Some
    by (intro undoable_put)
       (auto simp: obj_ok_def views_def view_def account_view_of_def StateObject_GetCodeHash_def
         state_ok_touched fun_upd_idem_iff)
  then show ?thesis
    using Some undoable_touched [OF assms] undoable_trans
    by (fastforce simp: Suicide_def getStateObject_eq)
qed

lemma undoable_refund:
  assumes "state_ok sd"
  shows "undoable sd ((log_entry sd (refundChange (refund sd)))\<lparr>refund := r\<rparr>)"
  using assms
  by (auto simp: undoable_def undo_to_def views_def view_def [abs_def] state_ok_def intro!: frame_append)

text \<open>Reads that fill the caches of an object.\<close>

lemma undoable_read:
  assumes "state_ok sd" "obj sd a = Some s" "obj_ok a s1"
    "account_view_of (env sd) (sdb sd) s1 = account_view_of (env sd) (sdb sd) s"
  shows "undoable sd (put_object (touched sd a) a s1)"
proof -
  have "view (put_object (touched sd a) a s1) = view sd"
    using assms(2,4) by (auto simp: view_def)
  then show ?thesis
    using assms
    by (auto simp: undoable_def undo_to_def views_def state_ok_put state_ok_touched intro!: frame_append [where es = "[]"])
qed

lemma undoable_GetState:
  assumes "state_ok sd" "GetState sd a k = Some (v, sd')"
  shows "undoable sd sd'"
proof (cases "obj sd a")
  case None
  then show ?thesis using assms by (auto simp: GetState_def getStateObject_eq undoable_touched)
next
  case (Some s)
  have "obj_ok a s" "db_ok (sdb sd)" using assms(1) Some by (auto simp: state_ok_def)
  then obtain w s1 where "StateObject_GetState (sdb sd) s k = Some (w, s1)" "same_account s s1" "obj_ok a s1"
    using GetState_total by blast
  then show ?thesis
    using assms Some by (auto simp: GetState_def getStateObject_eq same_account_view intro!: undoable_read)
qed

lemma undoable_GetCode:
  assumes "state_ok sd" "GetCode sd a = Some (c, sd')"
  shows "undoable sd sd'"
proof (cases "obj sd a")
  case None
  then show ?thesis using assms by (auto simp: GetCode_def getStateObject_eq undoable_touched)
next
  case (Some s)
  then have "obj_ok a s" using assms(1) by (rule state_okD [rotated])
  moreover obtain s1 where "StateObject_GetCode (env sd) (sdb sd) s = Some (c, s1)"
    and "sd' = put_object (touched sd a) a s1"
    using assms(2) Some by (auto simp: GetCode_def getStateObject_eq)
  ultimately show ?thesis
    using assms(1) Some
    by (auto simp: StateObject_GetCode_def account_view_of_def code_view_def setError_def obj_ok_def
        StateObject_GetCodeHash_def ContractCode_def
        split: option.splits if_splits sum.splits intro!: undoable_read)
qed

section \<open>Runs between a snapshot and its revert\<close>

text \<open>A run is a list of calls, nested snapshots and reverts included.\<close>

datatype sop =
    OpCreate Address
  | OpSetBalance Address int
  | OpAdd Address int
  | OpSub Address int
  | OpSetNonce Address uint64
  | OpSetCode Address "byte list"
  | OpSetState Address Hash Hash
  | OpSuicide Address
  | OpAddRefund uint64
  | OpSubRefund uint64
  | OpGetBalance Address
  | OpGetState Address Hash
  | OpGetCode Address
  | OpSnapshot
  | OpRevert int

fun apply_sop :: "sop \<Rightarrow> StateDB \<Rightarrow> StateDB option" where
  "apply_sop (OpCreate a) sd = Some (CreateAccount sd a)"
| "apply_sop (OpSetBalance a b) sd = Some (setBalance sd a b)"
| "apply_sop (OpAdd a v) sd = Some (addBalance sd a v)"
| "apply_sop (OpSub a v) sd = Some (subBalance sd a v)"
| "apply_sop (OpSetNonce a n) sd = Some (SetNonce sd a n)"
| "apply_sop (OpSetCode a c) sd = Some (SetCode sd a c)"
| "apply_sop (OpSetState a k v) sd = SetState sd a k v"
| "apply_sop (OpSuicide a) sd = Some (snd (Suicide sd a))"
| "apply_sop (OpAddRefund r) sd = Some (AddRefund sd r)"
| "apply_sop (OpSubRefund r) sd = SubRefund sd r"
| "apply_sop (OpGetBalance a) sd = Some (snd (GetBalance sd a))"
| "apply_sop (OpGetState a k) sd = map_option snd (GetState sd a k)"
| "apply_sop (OpGetCode a) sd = map_option snd (GetCode sd a)"
| "apply_sop OpSnapshot sd = Some (snd (Snapshot sd))"
| "apply_sop (OpRevert i) sd = RevertToSnapshot sd i"

fun run_sops :: "sop list \<Rightarrow> StateDB \<Rightarrow> StateDB option" where
  "run_sops [] sd = Some sd"
| "run_sops (x # xs) sd = (case apply_sop x sd of None \<Rightarrow> None | Some sd1 \<Rightarrow> run_sops xs sd1)"

text \<open>The calls a run may make after the snapshot \<open>i0\<close>: balances are set to non-negative values
  and only later snapshots are reverted to.\<close>

fun sop_after :: "int \<Rightarrow> sop \<Rightarrow> bool" where
  "sop_after i0 (OpSetBalance a b) = (0 \<le> b)"
| "sop_after i0 (OpRevert i) = (i0 < i)"
| "sop_after i0 _ = True"

lemma undoable_sop:
  assumes "state_ok sd" "sop_after i0 x" "apply_sop x sd = Some sd'"
    "x \<noteq> OpSnapshot" "\<forall>i. x \<noteq> OpRevert i"
  shows "undoable sd sd'"
proof (cases x)
  case (OpGetBalance a)
  have "snd (GetBalance sd a) = refreshbeat (touched sd a) a"
    by (auto simp: GetBalance_def getBalance_def getStateObject_eq split: option.splits)
  then show ?thesis
    using OpGetBalance assms undoable_beat [OF undoable_touched [of sd a], of a] by auto
qed (use assms in \<open>auto simp: undoable_CreateAccount undoable_setBalance undoable_AddSub
      undoable_SetNonce undoable_SetCode undoable_Suicide AddRefund_def SubRefund_def Let_def
      undoable_refund split: if_splits intro: undoable_SetState undoable_GetState undoable_GetCode\<close>)

text \<open>Snapshots carry strictly increasing identifiers below the counter and increasing journal
  indices inside the journal.\<close>

definition shots_ok :: "StateDB \<Rightarrow> bool" where
  "shots_ok sd \<longleftrightarrow>
     sorted_wrt (<) (map shotid (snapshotSet sd) @ [snapshotID sd])
     \<and> sorted (map journalIndex (snapshotSet sd) @ [length (entries (jrnl sd))])
     \<and> (\<forall>s \<in> set (snapshotSet sd). 0 \<le> shotid s) \<and> 0 \<le> snapshotID sd"

lemma find_shot_at:
  "sorted_wrt (<) (map shotid (pre @ s # post)) \<Longrightarrow>
   find_shot (shotid s) (pre @ s # post) n = Some (n + length pre, s)"
  by (induction pre arbitrary: n) auto

lemma find_shot_Some:
  "find_shot i ss n = Some (k, s) \<Longrightarrow>
   n \<le> k \<and> k - n < length ss \<and> ss ! (k - n) = s \<and> shotid s = i"
  by (induction ss arbitrary: n) (fastforce split: if_splits simp: nth_Cons' Suc_diff_le)+

text \<open>\<open>guarded\<close>: the snapshot is still there, and undoing down to it yields \<open>W\<close>.\<close>

definition guarded :: "shot list \<Rightarrow> shot \<Rightarrow> accounts \<times> uint64 \<Rightarrow> StateDB \<Rightarrow> bool" where
  "guarded pre s0 W sd \<longleftrightarrow> state_ok sd \<and> shots_ok sd
     \<and> (\<exists>post. snapshotSet sd = pre @ s0 # post) \<and> undo_to sd (journalIndex s0) = W"

lemma shots_ok_undoable:
  assumes "undoable sd sd'" "shots_ok sd"
  shows "shots_ok sd'"
proof -
  obtain es where es: "entries (jrnl sd') = entries (jrnl sd) @ es"
    using assms(1) frame_entries by (auto simp: undoable_def)
  have eq: "snapshotSet sd' = snapshotSet sd" "snapshotID sd' = snapshotID sd"
    using assms(1) by (simp_all add: undoable_def frame_def)
  show ?thesis using assms(2) es eq by (fastforce simp: shots_ok_def sorted_append)
qed

lemma guarded_undoable:
  assumes "guarded pre s0 W sd" "undoable sd sd'"
  shows "guarded pre s0 W sd'"
proof -
  have eq: "snapshotSet sd' = snapshotSet sd" "snapshotID sd' = snapshotID sd"
    using assms(2) by (simp_all add: undoable_def frame_def)
  have "journalIndex s0 \<le> length (entries (jrnl sd))"
    using assms(1) by (auto simp: guarded_def shots_ok_def sorted_append)
  then have "undo_to sd' (journalIndex s0) = W"
    using assms undo_to_extend by (simp add: guarded_def)
  moreover have "shots_ok sd'" using assms shots_ok_undoable by (simp add: guarded_def)
  ultimately show ?thesis using assms eq by (simp add: guarded_def undoable_def)
qed

lemma state_ok_Snapshot: "state_ok sd \<Longrightarrow> state_ok (snd (Snapshot sd))"
  by (auto simp: Snapshot_def Let_def state_ok_def)

lemma views_Snapshot: "views (snd (Snapshot sd)) = views sd"
  by (simp add: Snapshot_def Let_def views_def view_def [abs_def])

lemma undo_to_Snapshot: "undo_to (snd (Snapshot sd)) i = undo_to sd i"
  using views_Snapshot [of sd] by (simp add: undo_to_def) (simp add: Snapshot_def Let_def)

lemma shots_ok_Snapshot: "shots_ok sd \<Longrightarrow> shots_ok (snd (Snapshot sd))"
  by (auto simp: Snapshot_def Let_def shots_ok_def sorted_wrt_append sorted_append journal_length_def)

lemma snapshotSet_Snapshot:
  "snapshotSet (snd (Snapshot sd)) =
     snapshotSet sd @ [\<lparr>shotid = fst (Snapshot sd), journalIndex = length (entries (jrnl sd))\<rparr>]"
  by (simp add: Snapshot_def Let_def journal_length_def)

lemma fst_Snapshot: "fst (Snapshot sd) = snapshotID sd"
  by (simp add: Snapshot_def Let_def)

lemma snapshotID_Snapshot: "snapshotID (snd (Snapshot sd)) = snapshotID sd + 1"
  by (simp add: Snapshot_def Let_def)

lemma guarded_Snapshot: "guarded pre s0 W sd \<Longrightarrow> guarded pre s0 W (snd (Snapshot sd))"
  by (auto simp: guarded_def state_ok_Snapshot shots_ok_Snapshot undo_to_Snapshot snapshotSet_Snapshot)

text \<open>A revert to a snapshot that is there.\<close>

lemma RevertToSnapshot_at:
  assumes "state_ok sd" "shots_ok sd" "snapshotSet sd = pre @ s # post"
  shows "\<exists>sd'. RevertToSnapshot sd (shotid s) = Some sd' \<and> state_ok sd' \<and> shots_ok sd'
     \<and> views sd' = undo_to sd (journalIndex s) \<and> snapshotSet sd' = pre
     \<and> entries (jrnl sd') = take (journalIndex s) (entries (jrnl sd))
     \<and> env sd' = env sd \<and> sdb sd' = sdb sd \<and> strie sd' = strie sd \<and> snapshotID sd' = snapshotID sd"
proof -
  have f: "find_shot (shotid s) (snapshotSet sd) 0 = Some (length pre, s)"
    using assms find_shot_at [of pre s post 0] by (auto simp: shots_ok_def sorted_wrt_append)
  have "journalIndex s \<le> length (entries (jrnl sd))" and pos: "shotid s \<noteq> -1"
    using assms(2,3) by (auto simp: shots_ok_def sorted_append)
  then obtain sd1 where "journal_revert sd (journalIndex s) = Some sd1" and ok: "state_ok sd1"
    and sd1: "views sd1 = undo_to sd (journalIndex s)"
    "entries (jrnl sd1) = take (journalIndex s) (entries (jrnl sd))" "env sd1 = env sd"
    "sdb sd1 = sdb sd" "strie sd1 = strie sd" "snapshotSet sd1 = snapshotSet sd"
    "snapshotID sd1 = snapshotID sd"
    using journal_revert_refines assms(1) by blast
  then have "RevertToSnapshot sd (shotid s) = Some (sd1\<lparr>snapshotSet := pre\<rparr>)"
    using f pos assms(3) by (simp add: RevertToSnapshot_def)
  moreover have "state_ok (sd1\<lparr>snapshotSet := pre\<rparr>)" using ok by (simp add: state_ok_def)
  moreover have "shots_ok (sd1\<lparr>snapshotSet := pre\<rparr>)"
    using assms(2,3) sd1 by (auto simp: shots_ok_def sorted_wrt_append sorted_append)
  ultimately show ?thesis using sd1 by (simp add: views_def view_def [abs_def])
qed

lemma drop_split:
  assumes "i \<le> j"
  shows "drop i xs = drop i (take j xs) @ drop j xs"
proof -
  have "drop i (take j xs @ drop j xs) = drop i (take j xs) @ drop (i - length (take j xs)) (drop j xs)"
    by (simp only: drop_append)
  moreover have "drop (i - length (take j xs)) (drop j xs) = drop j xs"
    using assms by (cases "j \<le> length xs") simp_all
  ultimately show ?thesis by simp
qed

lemma guarded_Revert:
  assumes "guarded pre s0 W sd" "shotid s0 < i" "RevertToSnapshot sd i = Some sd'"
  shows "guarded pre s0 W sd'"
proof -
  have ok: "state_ok sd" "shots_ok sd" using assms(1) by (simp_all add: guarded_def)
  obtain post where S: "snapshotSet sd = pre @ s0 # post" using assms(1) by (auto simp: guarded_def)
  obtain k s where fs: "find_shot i (snapshotSet sd) 0 = Some (k, s)"
    using assms(3) by (auto simp: RevertToSnapshot_def split: option.splits)
  then have k: "k < length (snapshotSet sd)" "snapshotSet sd ! k = s" "shotid s = i"
    using find_shot_Some by fastforce+
  have "s \<in> set post"
  proof -
    have "s \<in> set (pre @ s0 # post)" using k S by (metis nth_mem)
    moreover have "s \<notin> set pre" using ok(2) S assms(2) k(3) by (fastforce simp: shots_ok_def sorted_wrt_append)
    ultimately show ?thesis using assms(2) k(3) by auto
  qed
  then obtain p1 p2 where post: "post = p1 @ s # p2" by (meson split_list)
  have S': "snapshotSet sd = (pre @ s0 # p1) @ s # p2" using S post by simp
  obtain sd1 where "RevertToSnapshot sd (shotid s) = Some sd1"
    and r: "state_ok sd1" "shots_ok sd1" "views sd1 = undo_to sd (journalIndex s)"
      "snapshotSet sd1 = pre @ s0 # p1" "entries (jrnl sd1) = take (journalIndex s) (entries (jrnl sd))"
      "env sd1 = env sd" "sdb sd1 = sdb sd" "strie sd1 = strie sd"
    using RevertToSnapshot_at [OF ok S'] by blast
  then have eq: "sd1 = sd'" using assms(3) k(3) by simp
  have "journalIndex s0 \<le> journalIndex s" using ok(2) S' by (auto simp: shots_ok_def sorted_append)
  then have "drop (journalIndex s0) (entries (jrnl sd)) =
      drop (journalIndex s0) (take (journalIndex s) (entries (jrnl sd))) @ drop (journalIndex s) (entries (jrnl sd))"
    by (rule drop_split)
  then have "undo_to sd1 (journalIndex s0) = undo_to sd (journalIndex s0)"
    using r by (simp add: undo_to_def)
  then show ?thesis using assms(1) r eq by (auto simp: guarded_def)
qed

lemma guarded_run:
  "guarded pre s0 W sd \<Longrightarrow> list_all (sop_after (shotid s0)) ops \<Longrightarrow> run_sops ops sd = Some sd'
    \<Longrightarrow> guarded pre s0 W sd'"
proof (induction ops arbitrary: sd)
  case (Cons x xs)
  obtain sd1 where sd1: "apply_sop x sd = Some sd1" "run_sops xs sd1 = Some sd'"
    using Cons.prems by (auto split: option.splits)
  have "guarded pre s0 W sd1"
  proof (cases "x = OpSnapshot \<or> (\<exists>i. x = OpRevert i)")
    case True
    then show ?thesis using Cons.prems sd1 by (auto intro: guarded_Snapshot guarded_Revert)
  next
    case False
    then have "undoable sd sd1"
      using Cons.prems sd1 undoable_sop by (auto simp: guarded_def)
    then show ?thesis using Cons.prems guarded_undoable by blast
  qed
  then show ?case using Cons sd1 by simp
qed simp

text \<open>Runs that cannot panic: reverts go to a snapshot that is on the stack of identifiers, and
  the refund counter is not decreased.\<close>

fun run_safe :: "sop list \<Rightarrow> int list \<Rightarrow> int \<Rightarrow> bool" where
  "run_safe [] S n = True"
| "run_safe (OpSnapshot # xs) S n = run_safe xs (S @ [n]) (n + 1)"
| "run_safe (OpRevert i # xs) S n = (i \<in> set S \<and> run_safe xs (takeWhile (\<lambda>j. j \<noteq> i) S) n)"
| "run_safe (OpSubRefund r # xs) S n = False"
| "run_safe (OpSetBalance a b # xs) S n = (0 \<le> b \<and> run_safe xs S n)"
| "run_safe (x # xs) S n = run_safe xs S n"

lemma GetState_no_panic:
  assumes "state_ok sd"
  shows "GetState sd a k \<noteq> None"
proof (cases "obj sd a")
  case (Some s)
  have "obj_ok a s" "db_ok (sdb sd)" using assms Some by (auto simp: state_ok_def)
  then obtain w s1 where "StateObject_GetState (sdb sd) s k = Some (w, s1)"
    using GetState_total by blast
  with Some show ?thesis by (simp add: GetState_def getStateObject_eq)
qed (simp add: GetState_def getStateObject_eq)

lemma SetState_no_panic:
  assumes "state_ok sd"
  shows "SetState sd a k v \<noteq> None"
proof -
  have c: "state_ok (created sd a)" using undoable_created [OF assms] by (simp add: undoable_def)
  obtain sd' where "so_SetState (created sd a) a (cur sd a) k v = Some sd'"
    by (rule so_SetState_total [OF c obj_ok_cur [OF assms]])
  then show ?thesis by (simp add: SetState_def getOrCreate_Some)
qed

lemma StateObject_GetCode_no_panic:
  assumes "obj_ok a s"
  shows "StateObject_GetCode e db s \<noteq> None"
proof -
  obtain h where "BytesToHash (acCodeHash (data s)) = Some h"
    using BytesToHash_Some assms by (auto simp: obj_ok_def)
  then show ?thesis
    by (simp add: StateObject_GetCode_def StateObject_GetCodeHash_def split: option.split sum.split)
qed

lemma GetCode_no_panic:
  assumes "state_ok sd"
  shows "GetCode sd a \<noteq> None"
proof (cases "obj sd a")
  case (Some s)
  have "StateObject_GetCode (env sd) (sdb sd) s \<noteq> None"
    using state_okD [OF assms Some] by (rule StateObject_GetCode_no_panic)
  with Some show ?thesis by (simp add: GetCode_def getStateObject_eq)
qed (simp add: GetCode_def getStateObject_eq)

lemma run_safe_step:
  assumes "state_ok sd" "shots_ok sd" "run_safe (x # xs) (map shotid (snapshotSet sd)) (snapshotID sd)"
  shows "\<exists>sd1. apply_sop x sd = Some sd1 \<and> state_ok sd1 \<and> shots_ok sd1
     \<and> run_safe xs (map shotid (snapshotSet sd1)) (snapshotID sd1)"
proof -
  consider "x = OpSnapshot" | i where "x = OpRevert i" | "x \<noteq> OpSnapshot \<and> (\<forall>i. x \<noteq> OpRevert i)"
    by blast
  then show ?thesis
  proof cases
    case 1
    then show ?thesis
      using assms(3) state_ok_Snapshot [OF assms(1)] shots_ok_Snapshot [OF assms(2)]
      by (simp add: snapshotSet_Snapshot snapshotID_Snapshot fst_Snapshot)
  next
    case 2
    then obtain s where s: "s \<in> set (snapshotSet sd)" "shotid s = i" using assms(3) by auto
    obtain pre post where S: "snapshotSet sd = pre @ s # post" using s(1) by (meson split_list)
    have "i \<notin> set (map shotid pre)"
      using assms(2) S s(2) by (auto simp: shots_ok_def sorted_wrt_append)
    then have "takeWhile (\<lambda>j. j \<noteq> i) (map shotid pre @ i # map shotid post) = map shotid pre"
      by (subst takeWhile_append2) auto
    then have "takeWhile (\<lambda>j. j \<noteq> i) (map shotid (snapshotSet sd)) = map shotid pre"
      using S s(2) by simp
    then have "run_safe xs (map shotid pre) (snapshotID sd)" using 2 assms(3) by simp
    moreover obtain sd1 where "RevertToSnapshot sd (shotid s) = Some sd1" "state_ok sd1" "shots_ok sd1"
      "snapshotSet sd1 = pre" "snapshotID sd1 = snapshotID sd"
      using RevertToSnapshot_at [OF assms(1,2) S] by blast
    ultimately show ?thesis using 2 s(2) by simp
  next
    case 3
    have after: "sop_after 0 x" using assms(3) 3 by (cases x) auto
    have "\<exists>sd1. apply_sop x sd = Some sd1"
    proof (cases x)
      case (OpSetState a k v)
      then show ?thesis using SetState_no_panic [OF assms(1), of a k v] by auto
    next
      case (OpGetState a k)
      then show ?thesis using GetState_no_panic [OF assms(1), of a k] by auto
    next
      case (OpGetCode a)
      then show ?thesis using GetCode_no_panic [OF assms(1), of a] by auto
    qed (use assms(3) 3 in auto)
    then obtain sd1 where sd1: "apply_sop x sd = Some sd1" by blast
    then have u: "undoable sd sd1" using undoable_sop assms(1) after 3 by blast
    then have eq: "snapshotSet sd1 = snapshotSet sd" "snapshotID sd1 = snapshotID sd"
      by (simp_all add: undoable_def frame_def)
    have "run_safe xs (map shotid (snapshotSet sd)) (snapshotID sd)"
      using assms(3) 3 by (cases x) auto
    moreover have "shots_ok sd1" using u assms(2) by (rule shots_ok_undoable)
    ultimately show ?thesis using sd1 u eq by (simp add: undoable_def)
  qed
qed

lemma run_safe_total:
  "state_ok sd \<Longrightarrow> shots_ok sd \<Longrightarrow> run_safe xs (map shotid (snapshotSet sd)) (snapshotID sd)
    \<Longrightarrow> run_sops xs sd \<noteq> None"
proof (induction xs arbitrary: sd)
  case (Cons x xs)
  then show ?case using run_safe_step [of sd x xs] by fastforce
qed simp

section \<open>Fresh databases\<close>

lemma NewStateDB_Inr: "\<exists>sd. NewStateDB e expire clock db = Inr sd"
  by (simp add: NewStateDB_def OpenTrie_def)

lemma NewStateDB_ok:
  assumes "NewStateDB e expire clock db = Inr sd" "db_ok db"
  shows "state_ok sd" "shots_ok sd" "obj sd = Map.empty"
  using assms
  by (auto simp: NewStateDB_def OpenTrie_def empty_trie_def state_ok_def shots_ok_def obj_def
      trie_load_def newJournal_def)

text \<open>A small environment for the concrete runs.\<close>

definition sample_env :: state_env where
  "sample_env = \<lparr>Keccak256Hash = (\<lambda>b. word_of_nat (bytes_val b) + 1), marshalAccount = (\<lambda>a. GetBytes (acBalance a)),
           unmarshalAccount = (\<lambda>_. Inl ErrUnmarshal), trieRoot = (\<lambda>_. 1)\<rparr>"

definition sample_db :: Database where
  "sample_db = \<lparr>tries = (\<lambda>_. Inl ErrNotFound), codes = Map.empty\<rparr>"

definition fresh_sd :: StateDB where
  "fresh_sd = \<lparr>env = sample_env, BeatExpireTime = 600, now = 0, sdb = sample_db, strie = empty_trie, refund = 0,
          jrnl = newJournal, snapshotSet = [], snapshotID = 0, states = [], dirtyset = {}, beats = []\<rparr>"

lemma fresh_sd_new: "NewStateDB sample_env 600 0 sample_db = Inr fresh_sd"
  by (simp add: NewStateDB_def OpenTrie_def fresh_sd_def)

lemma fresh_sd_ok: "state_ok fresh_sd" "shots_ok fresh_sd"
  using NewStateDB_ok [OF fresh_sd_new] by (simp_all add: db_ok_def sample_db_def)


definition sops0 :: "sop list" where
  "sops0 = [OpSetBalance 5 100, OpSnapshot, OpSub 5 30, OpAdd 6 30, OpSetCode 6 [1, 2], OpRevert 1,
            OpSetState 5 1 2, OpGetState 5 1, OpSuicide 5, OpAddRefund 3]"

lemma sops0_after: "list_all (sop_after (fst (Snapshot fresh_sd))) sops0"
  by (simp add: sops0_def Snapshot_def Let_def fresh_sd_def)

lemma sops0_runs: "run_sops sops0 (snd (Snapshot fresh_sd)) \<noteq> None"
proof -
  have "run_safe sops0 [0] 1" by (simp add: sops0_def)
  then show ?thesis
    using run_safe_total [of "snd (Snapshot fresh_sd)" sops0] state_ok_Snapshot [OF fresh_sd_ok(1)]
      shots_ok_Snapshot [OF fresh_sd_ok(2)]
    by (simp add: snapshotSet_Snapshot snapshotID_Snapshot fst_Snapshot) (simp add: fresh_sd_def)
qed


end
