(* ===== verification/StateCommit.thy ===== *)
theory StateCommit
  imports Snapshots
begin

text \<open>
  Commit and purge of the state database. \<open>persisted\<close> says that the trie alone yields the account
  of an address, \<open>clean\<close> that this holds for every cached object that is not marked dirty. The
  operations the DAG uses keep \<open>clean\<close>, a commit makes every account persisted without changing
  balances, nonces and code hashes, and a purge of a clean state loses nothing.
\<close>

section \<open>Persistence\<close>

definition persisted :: "StateDB \<Rightarrow> Address \<Rightarrow> bool" where
  "persisted sd a \<longleftrightarrow>
     map_option data (trie_load (env sd) (strie sd) a) = map_option data (obj sd a)"

definition marked :: "StateDB \<Rightarrow> Address \<Rightarrow> bool" where
  "marked sd a \<longleftrightarrow> a \<in> dirtyset sd \<or> map_of (dirties (jrnl sd)) a \<noteq> None"

definition clean :: "StateDB \<Rightarrow> bool" where
  "clean sd \<longleftrightarrow> (\<forall>a. persisted sd a \<or> marked sd a)"

definition account_codec_ok :: "state_env \<Rightarrow> bool" where
  "account_codec_ok e \<longleftrightarrow> (\<forall>a. marshalAccount e a \<noteq> [] \<and> unmarshalAccount e (marshalAccount e a) = Inr a)"

definition readable :: "StateDB \<Rightarrow> Address \<Rightarrow> bool" where
  "readable sd a \<longleftrightarrow> (\<forall>err. strie sd (Address_ToBytes a) \<noteq> Inl err)"

text \<open>The part of an account a commit leaves alone: all but the storage root.\<close>

definition core :: "StateObject \<Rightarrow> Address \<times> Address \<times> int \<times> uint64 \<times> byte list" where
  "core s = (soAddress s, acAddress (data s), acBalance (data s), acNonce (data s), acCodeHash (data s))"

text \<open>Objects sit under their own address, with a non-negative balance and a code hash that fits.\<close>

definition acct_wf :: "Address \<Rightarrow> StateObject \<Rightarrow> bool" where
  "acct_wf a s \<longleftrightarrow> soAddress s = a \<and> acAddress (data s) = a \<and> 0 \<le> acBalance (data s)
     \<and> length (acCodeHash (data s)) \<le> 32"

definition acct_ok :: "StateDB \<Rightarrow> bool" where
  "acct_ok sd \<longleftrightarrow> (\<forall>a s. obj sd a = Some s \<longrightarrow> acct_wf a s)
     \<and> (\<forall>a s. trie_load (env sd) (strie sd) a = Some s \<longrightarrow> acct_wf a s)"

lemma acct_wf_core: "core s' = core s \<Longrightarrow> acct_wf a s' = acct_wf a s"
  by (simp add: acct_wf_def core_def)

lemma acct_wf_new: "acct_wf a (NewStateObject e a)"
  by (simp add: acct_wf_def NewStateObject_def)

lemma acct_wf_cur: "acct_ok sd \<Longrightarrow> acct_wf a (cur sd a)"
  by (auto simp: cur_def acct_ok_def acct_wf_new split: option.splits)

lemma acct_okD: "acct_ok sd \<Longrightarrow> obj sd a = Some s \<Longrightarrow> acct_wf a s"
  by (simp add: acct_ok_def)

lemma acct_ok_put: "acct_ok sd \<Longrightarrow> acct_wf a s \<Longrightarrow> acct_ok (put_object sd a s)"
  by (auto simp: acct_ok_def)

lemma acct_ok_frame:
  "acct_ok sd \<Longrightarrow> acct_ok (touched sd a)" "acct_ok sd \<Longrightarrow> acct_ok (refreshbeat sd a)"
  "acct_ok sd \<Longrightarrow> acct_ok (log_entry sd x)"
  by (simp_all add: acct_ok_def)

lemma acct_ok_created: "acct_ok sd \<Longrightarrow> acct_ok (created sd a)"
  using acct_wf_cur [of sd a] by (auto simp: acct_ok_def)

lemma acct_ok_setBalance: "acct_ok sd \<Longrightarrow> 0 \<le> b \<Longrightarrow> acct_ok (setBalance sd a b)"
  using acct_wf_cur [of sd a]
  by (auto simp: setBalance_def getOrCreate_Some so_SetBalance_def acct_wf_def
      intro!: acct_ok_frame acct_ok_put acct_ok_created)

lemma acct_ok_SetNonce: "acct_ok sd \<Longrightarrow> acct_ok (SetNonce sd a n)"
  using acct_wf_cur [of sd a]
  by (auto simp: SetNonce_def getOrCreate_Some so_SetNonce_def acct_wf_def
      intro!: acct_ok_frame acct_ok_put acct_ok_created)

lemma acct_ok_AddSub:
  "acct_ok sd \<Longrightarrow> acct_ok (addBalance sd a v)" "acct_ok sd \<Longrightarrow> acct_ok (subBalance sd a v)"
  by (auto simp: addBalance_eq subBalance_eq intro!: acct_ok_frame acct_ok_setBalance acct_ok_created)

lemma acct_ok_bal: "acct_ok sd \<Longrightarrow> 0 \<le> bal sd a"
  using acct_wf_cur [of sd a] by (simp add: bal_def acct_wf_def)

lemma persisted_uncached: "map_of (states sd) a = None \<Longrightarrow> persisted sd a"
  by (simp add: persisted_def obj_def)

section \<open>The operations keep it\<close>

lemma marked_log [simp]: "marked (log_entry sd x) a \<longleftrightarrow> marked sd a \<or> dirtied x = Some a"
  by (auto simp: marked_def journal_append_def Let_def split: option.splits)

lemma marked_frame [simp]:
  "marked (put_object sd b s) a = marked sd a" "marked (touched sd b) a = marked sd a"
  "marked (refreshbeat sd b) a = marked sd a"
  by (simp_all add: marked_def)

lemma persisted_frame [simp]:
  "persisted (log_entry sd x) a = persisted sd a" "persisted (touched sd b) a = persisted sd a"
  "persisted (refreshbeat sd b) a = persisted sd a"
  by (simp_all add: persisted_def)

lemma persisted_put: "a \<noteq> b \<Longrightarrow> persisted (put_object sd b s) a = persisted sd a"
  by (simp add: persisted_def)

lemma clean_frame:
  "clean sd \<Longrightarrow> clean (touched sd a)" "clean sd \<Longrightarrow> clean (refreshbeat sd a)"
  by (simp_all add: clean_def)

lemma clean_write:
  assumes "clean sd" "dirtied x = Some a"
  shows "clean (put_object (log_entry sd x) a s)"
  unfolding clean_def
proof
  fix b
  show "persisted (put_object (log_entry sd x) a s) b \<or> marked (put_object (log_entry sd x) a s) b"
    using assms by (cases "b = a") (auto simp: persisted_put clean_def)
qed

text \<open>Creating an account that does not exist yet marks it; \<open>CreateAccount\<close> on an existing one
  replaces the object and marks nothing, see \<open>CreateAccount_unmarked\<close>.\<close>

lemma clean_created: "clean sd \<Longrightarrow> clean (created sd a)"
  by (auto simp: created_eq CreateAccount_def getStateObject_eq Let_def intro!: clean_frame clean_write)

lemma clean_setBalance: "clean sd \<Longrightarrow> acct_ok sd \<Longrightarrow> clean (setBalance sd a b)"
  using acct_wf_cur [of sd a]
  by (auto simp: setBalance_def getOrCreate_Some so_SetBalance_def acct_wf_def
      intro!: clean_frame clean_write clean_created)

lemma clean_SetNonce: "clean sd \<Longrightarrow> acct_ok sd \<Longrightarrow> clean (SetNonce sd a n)"
  using acct_wf_cur [of sd a]
  by (auto simp: SetNonce_def getOrCreate_Some so_SetNonce_def acct_wf_def
      intro!: clean_frame clean_write clean_created)

lemma clean_AddSub:
  assumes "clean sd" "acct_ok sd"
  shows "clean (addBalance sd a v)" "clean (subBalance sd a v)"
  using assms by (auto simp: addBalance_eq subBalance_eq
      intro!: clean_frame clean_setBalance clean_created acct_ok_created)

lemma clean_new: "NewStateDB e expire clock db = Inr sd \<Longrightarrow> clean sd"
  by (auto simp: NewStateDB_def clean_def persisted_uncached split: sum.splits)

section \<open>Commit\<close>

lemma updateTrie_loop_core:
  "updateTrie_loop t s kvs = (t', s') \<Longrightarrow> data s' = data s \<and> soAddress s' = soAddress s"
proof (induction kvs arbitrary: t s)
  case (Cons kv kvs)
  obtain key v where kv: "kv = (key, v)" by (cases kv)
  obtain err t1 where u: "TryUpdate t (Hash_ToBytes key) (Hash_ToBytes v) = (err, t1)"
    by (cases "TryUpdate t (Hash_ToBytes key) (Hash_ToBytes v)")
  show ?case
    using Cons.IH Cons.prems kv u by (cases err) (fastforce simp: setError_def split: if_splits)+
qed simp

lemma CommitStorage_core:
  assumes "CommitStorage ord e db s = (err, s', db')"
  shows "core s' = core s"
proof -
  obtain t s1 where t: "openTrie db s = (t, s1)" by (cases "openTrie db s")
  have s1: "data s1 = data s" "soAddress s1 = soAddress s"
    using t by (auto simp: openTrie_def Let_def split: option.splits)
  obtain t2 s2 where "updateTrie_loop t s1 (ord (dirtyStorage s1)) = (t2, s2)"
    by (cases "updateTrie_loop t s1 (ord (dirtyStorage s1))")
  moreover from this have "data s2 = data s" "soAddress s2 = soAddress s"
    using updateTrie_loop_core s1 by fastforce+
  ultimately show ?thesis
    using assms t
    by (auto simp: CommitStorage_def updateTrie_def core_def Trie_Commit_def Let_def split: option.splits)
qed

lemma commit_code_total:
  assumes "acct_wf a s"
  obtains s1 db1 where "commit_code db s = Some (s1, db1)" "core s1 = core s"
proof -
  obtain h where "StateObject_GetCodeHash s = Some h"
    using BytesToHash_Some assms by (auto simp: acct_wf_def StateObject_GetCodeHash_def)
  then have "\<exists>s1 db1. commit_code db s = Some (s1, db1) \<and> core s1 = core s"
    by (cases "code s"; cases "dirtycode s") (simp_all add: commit_code_def core_def)
  then show ?thesis using that by blast
qed

lemma trie_load_update:
  assumes "account_codec_ok e" "\<forall>err. t (Address_ToBytes a) \<noteq> Inl err"
  shows "map_option data (trie_load e (snd (TryUpdate t (Address_ToBytes a) (StateObject_Encode e s))) b)
     = (if b = a then Some (data s) else map_option data (trie_load e t b))"
  using assms
  by (auto simp: trie_load_def TryUpdate_def StateObject_Encode_def StateObject_Decode_def
      account_codec_ok_def split: sum.splits)

lemma commit_object_spec:
  assumes "account_codec_ok (env sd)" "acct_wf a s" "obj sd a = Some s" "a \<in> dirtyset sd \<Longrightarrow> readable sd a"
  shows "\<exists>sd1. commit_object ord sd a s = Some sd1 \<and> env sd1 = env sd
     \<and> (\<forall>b. map_option core (obj sd1 b) = map_option core (obj sd b))
     \<and> (\<forall>b. b \<noteq> a \<longrightarrow> obj sd1 b = obj sd b \<and> persisted sd1 b = persisted sd b
                   \<and> readable sd1 b = readable sd b)
     \<and> dirtyset sd1 = dirtyset sd - {a}
     \<and> (persisted sd a \<or> a \<in> dirtyset sd \<longrightarrow> persisted sd1 a)"
proof (cases "a \<in> dirtyset sd")
  case False
  then show ?thesis by (simp add: commit_object_def)
next
  case True
  obtain s1 db1 where c: "commit_code (sdb sd) s = Some (s1, db1)" "core s1 = core s"
    using commit_code_total assms(2) by blast
  obtain err s2 db2 where st: "CommitStorage ord (env sd) db1 s1 = (err, s2, db2)"
    by (cases "CommitStorage ord (env sd) db1 s1")
  have core: "core s2 = core s" using CommitStorage_core [OF st] c by simp
  let ?t = "snd (TryUpdate (strie sd) (Address_ToBytes a) (StateObject_Encode (env sd) s2))"
  let ?sd1 = "(put_object sd a s2)\<lparr>sdb := db2, strie := ?t, dirtyset := dirtyset sd - {a}\<rparr>"
  have rd: "\<forall>err. strie sd (Address_ToBytes a) \<noteq> Inl err" using assms(4) True by (simp add: readable_def)
  have ld: "map_option data (trie_load (env sd) ?t b) =
      (if b = a then Some (data s2) else map_option data (trie_load (env sd) (strie sd) b))" for b
    by (rule trie_load_update [of "env sd" "strie sd" a s2, OF assms(1) rd])
  have ld': "trie_load (env sd) ?t b = trie_load (env sd) (strie sd) b" if "b \<noteq> a" for b
    using that rd by (auto simp: trie_load_def TryUpdate_def split: sum.splits)
  have ob: "obj ?sd1 b = (if b = a then Some s2 else obj sd b)" for b
    using ld' by (auto simp: obj_def split: option.splits)
  have eq: "commit_object ord sd a s = Some ?sd1" using True c st by (simp add: commit_object_def)
  have "map_option core (obj ?sd1 b) = map_option core (obj sd b)" for b
    using ob core assms(3) by auto
  moreover have "persisted ?sd1 b = persisted sd b" if "b \<noteq> a" for b
    using that ob ld by (simp add: persisted_def)
  moreover have "readable ?sd1 b = readable sd b" if "b \<noteq> a" for b
    using that rd by (auto simp: readable_def TryUpdate_def split: sum.splits)
  moreover have "persisted ?sd1 a" using ob ld by (simp add: persisted_def)
  moreover have "obj ?sd1 b = obj sd b" if "b \<noteq> a" for b using that ob by simp
  moreover have "env ?sd1 = env sd" "dirtyset ?sd1 = dirtyset sd - {a}" by simp_all
  ultimately show ?thesis using eq by blast
qed

lemma commit_loop_spec:
  assumes "account_codec_ok (env sd)" "distinct (map fst xs)"
    and "\<And>a s. (a, s) \<in> set xs \<Longrightarrow> obj sd a = Some s \<and> acct_wf a s"
    and "\<And>a s. (a, s) \<in> set xs \<Longrightarrow> a \<in> dirtyset sd \<Longrightarrow> readable sd a"
  shows "\<exists>sd1. commit_loop ord sd xs = Some sd1 \<and> env sd1 = env sd
     \<and> (\<forall>b. map_option core (obj sd1 b) = map_option core (obj sd b))
     \<and> (\<forall>b. persisted sd b \<or> b \<in> dirtyset sd \<and> b \<in> fst ` set xs \<longrightarrow> persisted sd1 b)"
  using assms
proof (induction xs arbitrary: sd)
  case (Cons x xs)
  obtain a s where x: "x = (a, s)" by (cases x)
  have as: "obj sd a = Some s" "acct_wf a s" "a \<in> dirtyset sd \<Longrightarrow> readable sd a"
    using Cons.prems x by auto
  obtain sd1 where sd1: "commit_object ord sd a s = Some sd1" "env sd1 = env sd"
    and core: "\<And>b. map_option core (obj sd1 b) = map_option core (obj sd b)"
    and o: "\<And>b. b \<noteq> a \<Longrightarrow> obj sd1 b = obj sd b"
    and p: "\<And>b. b \<noteq> a \<Longrightarrow> persisted sd1 b = persisted sd b"
    and r: "\<And>b. b \<noteq> a \<Longrightarrow> readable sd1 b = readable sd b"
    and d: "dirtyset sd1 = dirtyset sd - {a}"
    and pa: "persisted sd a \<or> a \<in> dirtyset sd \<Longrightarrow> persisted sd1 a"
    using commit_object_spec [OF Cons.prems(1) as(2,1) as(3), of ord] by blast
  have ne: "b \<noteq> a" if "(b, u) \<in> set xs" for b u
    using that Cons.prems(2) x by force
  have "\<exists>sd2. commit_loop ord sd1 xs = Some sd2 \<and> env sd2 = env sd1
     \<and> (\<forall>b. map_option core (obj sd2 b) = map_option core (obj sd1 b))
     \<and> (\<forall>b. persisted sd1 b \<or> b \<in> dirtyset sd1 \<and> b \<in> fst ` set xs \<longrightarrow> persisted sd2 b)"
  proof (rule Cons.IH)
    show "account_codec_ok (env sd1)" using Cons.prems(1) sd1 by simp
    show "distinct (map fst xs)" using Cons.prems(2) by simp
    show "obj sd1 b = Some u \<and> acct_wf b u" if "(b, u) \<in> set xs" for b u
      using that Cons.prems(3) o ne by simp
    show "readable sd1 b" if "(b, u) \<in> set xs" "b \<in> dirtyset sd1" for b u
      using that Cons.prems(4) [of b u] r [of b] ne d by simp
  qed
  then obtain sd2 where sd2: "commit_loop ord sd1 xs = Some sd2" "env sd2 = env sd1"
    "\<And>b. map_option core (obj sd2 b) = map_option core (obj sd1 b)"
    "\<And>b. persisted sd1 b \<or> b \<in> dirtyset sd1 \<and> b \<in> fst ` set xs \<Longrightarrow> persisted sd2 b"
    by blast
  have "persisted sd2 b" if "persisted sd b \<or> b \<in> dirtyset sd \<and> b \<in> fst ` set (x # xs)" for b
  proof (cases "b = a")
    case True
    then show ?thesis using that pa sd2(4) by blast
  next
    case False
    then show ?thesis using that p d sd2(4) [of b] x by auto
  qed
  moreover have "commit_loop ord sd (x # xs) = Some sd2" using x sd1(1) sd2(1) by simp
  moreover have "env sd2 = env sd" using sd1(2) sd2(2) by simp
  moreover have "map_option core (obj sd2 b) = map_option core (obj sd b)" for b
    using core [of b] sd2(3) [of b] by simp
  ultimately show ?case by blast
qed simp

lemma SD_commit_spec:
  assumes "account_codec_ok (env sd)" "acct_ok sd" "gomap_ok (states sd)" "range_order ordS"
    and "clean sd" "\<And>a. marked sd a \<Longrightarrow> readable sd a"
  shows "\<exists>root sd'. SD_commit ordS ordK sd = Some (root, sd')
     \<and> (\<forall>a. persisted sd' a) \<and> (\<forall>a. map_option core (obj sd' a) = map_option core (obj sd a))
     \<and> tries (sdb sd') root = Inr (strie sd') \<and> jrnl sd' = newJournal"
proof -
  let ?sd1 = "sd\<lparr>dirtyset := dirtyset sd \<union> set (map fst (dirties (jrnl sd)))\<rparr>"
  have dm: "b \<in> dirtyset ?sd1 \<longleftrightarrow> marked sd b" for b
    by (auto simp: marked_def map_of_eq_None_iff)
  have o1: "obj ?sd1 = obj sd" by (rule obj_cong) simp_all
  have mem: "obj ?sd1 a = Some s \<and> acct_wf a s" if "(a, s) \<in> set (ordS (states ?sd1))" for a s
  proof -
    have "map_of (states sd) a = Some s"
      using that assms(3,4) by (simp add: range_order_set gomap_mem)
    then show ?thesis using o1 acct_okD [OF assms(2)] by (simp add: obj_def)
  qed
  have "\<exists>sd2. commit_loop ordK ?sd1 (ordS (states ?sd1)) = Some sd2 \<and> env sd2 = env ?sd1
     \<and> (\<forall>b. map_option core (obj sd2 b) = map_option core (obj ?sd1 b))
     \<and> (\<forall>b. persisted ?sd1 b \<or> b \<in> dirtyset ?sd1 \<and> b \<in> fst ` set (ordS (states ?sd1)) \<longrightarrow> persisted sd2 b)"
  proof (rule commit_loop_spec)
    show "distinct (map fst (ordS (states ?sd1)))"
      using assms(3,4) by (simp add: range_order_distinct_map gomap_ok_def)
    show "readable ?sd1 a" if "(a, s) \<in> set (ordS (states ?sd1))" "a \<in> dirtyset ?sd1" for a s
      using that(2) dm assms(6) by (simp add: readable_def)
  qed (use assms(1) mem in auto)
  then obtain sd2 where l: "commit_loop ordK ?sd1 (ordS (states ?sd1)) = Some sd2"
    and core: "\<And>b. map_option core (obj sd2 b) = map_option core (obj ?sd1 b)"
    and per: "\<And>b. persisted ?sd1 b \<or> b \<in> dirtyset ?sd1 \<and> b \<in> fst ` set (ordS (states ?sd1)) \<Longrightarrow> persisted sd2 b"
    by blast
  have all: "persisted sd2 b" for b
  proof (cases "persisted sd b")
    case True
    then show ?thesis using per [of b] o1 by (simp add: persisted_def)
  next
    case False
    then have "map_of (states sd) b \<noteq> None" "marked sd b"
      using persisted_uncached assms(5) by (auto simp: clean_def)
    then have "b \<in> fst ` set (ordS (states ?sd1))" "b \<in> dirtyset ?sd1"
      using dm [of b] range_order_set [OF assms(4)] by (simp_all add: map_of_eq_None_iff)
    then show ?thesis using per [of b] by blast
  qed
  obtain root db' where rc: "Trie_Commit (env sd2) (sdb sd2) (strie sd2) = (root, db')"
    and tr: "tries db' root = Inr (strie sd2)"
    by (auto simp: Trie_Commit_def Let_def)
  let ?sd' = "clearJournalAndRefund (sd2\<lparr>sdb := db'\<rparr>)"
  have "obj ?sd' = obj sd2" by (rule obj_cong) (simp_all add: clearJournalAndRefund_def)
  moreover from this have "persisted ?sd' b" for b
    using all [of b] by (simp add: persisted_def clearJournalAndRefund_def)
  ultimately show ?thesis
    using l rc tr core o1 unfolding SD_commit_def Let_def
    by (auto simp: clearJournalAndRefund_def)
qed

section \<open>Purge\<close>

lemma deleteStateObject_frame [simp]:
  "env (deleteStateObject sd a) = env sd" "strie (deleteStateObject sd a) = strie sd"
  "jrnl (deleteStateObject sd a) = jrnl sd"
  by (simp_all add: deleteStateObject_def split: option.splits)

lemma states_delete: "map_of (states (deleteStateObject sd a)) = (map_of (states sd))(a := None)"
  by (auto simp: deleteStateObject_def split: option.splits)

lemma marked_delete: "b \<noteq> a \<Longrightarrow> marked (deleteStateObject sd a) b = marked sd b"
  by (auto simp: deleteStateObject_def marked_def split: option.splits)

lemma delete_persisted:
  assumes "clean sd" "\<not> marked sd a"
  shows "clean (deleteStateObject sd a)"
    "map_option data (obj (deleteStateObject sd a) b) = map_option data (obj sd b)"
proof -
  have p: "persisted sd a" using assms by (auto simp: clean_def)
  have o: "obj (deleteStateObject sd a) b = (if b = a then trie_load (env sd) (strie sd) a else obj sd b)" for b
    by (simp add: obj_def states_delete split: option.splits)
  show "map_option data (obj (deleteStateObject sd a) b) = map_option data (obj sd b)"
    using p o by (simp add: persisted_def)
  have "persisted (deleteStateObject sd a) b \<or> marked (deleteStateObject sd a) b" for b
  proof (cases "b = a")
    case True
    then show ?thesis using o by (simp add: persisted_def)
  next
    case False
    then show ?thesis using assms(1) o by (auto simp: clean_def persisted_def marked_delete)
  qed
  then show "clean (deleteStateObject sd a)" by (simp add: clean_def)
qed

lemma purge_loop_spec:
  "clean sd \<Longrightarrow> clean (purge_loop sd bs)
     \<and> (\<forall>a. map_option data (obj (purge_loop sd bs) a) = map_option data (obj sd a))"
proof (induction bs arbitrary: sd)
  case (Cons b bs)
  obtain addr lastbeat where b: "b = (addr, lastbeat)" by (cases b)
  have "purge_loop sd (b # bs) = purge_loop sd bs
      \<or> \<not> marked sd addr \<and> purge_loop sd (b # bs) = purge_loop (deleteStateObject sd addr) bs"
    by (simp add: b marked_def)
  then show ?case
  proof
    assume "\<not> marked sd addr \<and> purge_loop sd (b # bs) = purge_loop (deleteStateObject sd addr) bs"
    then show ?thesis
      using Cons.IH [of "deleteStateObject sd addr"] delete_persisted [OF Cons.prems] by simp
  qed (use Cons in simp)
qed simp

section \<open>The invariant of the state database\<close>

definition sd_inv :: "StateDB \<Rightarrow> bool" where
  "sd_inv sd \<longleftrightarrow> acct_ok sd \<and> clean sd \<and> gomap_ok (states sd) \<and> (\<forall>a. readable sd a)
     \<and> account_codec_ok (env sd)"

lemma strie_writes [simp, frames]:
  "strie (setBalance sd a b) = strie sd" "strie (addBalance sd a b) = strie sd"
  "strie (subBalance sd a b) = strie sd" "strie (SetNonce sd a n) = strie sd"
  by (simp_all add: setBalance_def SetNonce_def addBalance_eq subBalance_eq getOrCreate_Some
      so_SetBalance_def so_SetNonce_def)

lemma gomap_states_touched: "gomap_ok (states sd) \<Longrightarrow> gomap_ok (states (touched sd a))"
  by (simp add: touched_def split: option.splits)

lemma gomap_states_created: "gomap_ok (states sd) \<Longrightarrow> gomap_ok (states (created sd a))"
  by (simp add: created_eq gomap_states_touched CreateAccount_def getStateObject_eq Let_def)

lemma gomap_states_writes:
  assumes "gomap_ok (states sd)"
  shows "gomap_ok (states (setBalance sd a b))" "gomap_ok (states (SetNonce sd a n))"
    "gomap_ok (states (addBalance sd a v))" "gomap_ok (states (subBalance sd a v))"
proof -
  have sb: "gomap_ok (states (setBalance s a b))" if "gomap_ok (states s)" for s b
    using that by (simp add: setBalance_def getOrCreate_Some so_SetBalance_def gomap_states_created)
  show "gomap_ok (states (setBalance sd a b))" using sb assms by blast
  show "gomap_ok (states (SetNonce sd a n))"
    using assms by (simp add: SetNonce_def getOrCreate_Some so_SetNonce_def gomap_states_created)
  show "gomap_ok (states (addBalance sd a v))" "gomap_ok (states (subBalance sd a v))"
    using assms by (simp_all add: addBalance_eq subBalance_eq sb gomap_states_created)
qed

lemma sd_inv_writes:
  assumes "sd_inv sd"
  shows "0 \<le> b \<Longrightarrow> sd_inv (setBalance sd a b)" "sd_inv (SetNonce sd a n)"
    "sd_inv (addBalance sd a v)" "sd_inv (subBalance sd a v)"
  using assms
  by (simp_all add: sd_inv_def acct_ok_setBalance acct_ok_SetNonce acct_ok_AddSub clean_setBalance
      clean_SetNonce clean_AddSub gomap_states_writes readable_def)

lemma sd_inv_looked_up: "sd_inv sd \<Longrightarrow> sd_inv (looked_up sd a)"
  by (simp add: sd_inv_def looked_up_eq acct_ok_frame clean_frame gomap_states_touched readable_def)

lemma sd_inv_transfer:
  assumes "sd_inv sd"
  shows "sd_inv (ledger.transfer sd x)"
proof -
  have "sd_inv (ledger.bump sd f n)" for f n
    using assms by (simp add: ledger.bump_def sd_inv_looked_up sd_inv_writes)
  then show ?thesis by (cases x) (simp add: ledger.transfer_def sd_inv_writes)
qed

lemma sd_inv_transfers: "sd_inv sd \<Longrightarrow> sd_inv (foldl ledger.transfer sd xs)"
  by (induction xs arbitrary: sd) (simp_all add: sd_inv_transfer)

lemma sd_inv_new:
  assumes "NewStateDB e expire clock db = Inr sd" "account_codec_ok e"
  shows "sd_inv sd"
  using assms clean_new [OF assms(1)]
  by (auto simp: sd_inv_def acct_ok_def NewStateDB_def OpenTrie_def readable_def obj_def trie_load_def
      empty_trie_def)

lemma commit_object_frame:
  assumes "commit_object ord sd a s = Some sd1"
  shows "env sd1 = env sd" "gomap_ok (states sd) \<Longrightarrow> gomap_ok (states sd1)"
    "\<forall>b. readable sd b \<Longrightarrow> \<forall>b. readable sd1 b"
  using assms
  by (auto simp: commit_object_def readable_def TryUpdate_def
      split: if_splits option.splits prod.splits sum.splits)

lemma commit_loop_frame:
  "commit_loop ord sd xs = Some sd1 \<Longrightarrow> env sd1 = env sd \<and> (gomap_ok (states sd) \<longrightarrow> gomap_ok (states sd1))
     \<and> ((\<forall>b. readable sd b) \<longrightarrow> (\<forall>b. readable sd1 b))"
proof (induction xs arbitrary: sd)
  case (Cons x xs)
  obtain a s where x: "x = (a, s)" by (cases x)
  then obtain sd2 where "commit_object ord sd a s = Some sd2" "commit_loop ord sd2 xs = Some sd1"
    using Cons.prems by (auto split: option.splits)
  then show ?case using Cons.IH [of sd2] commit_object_frame [of ord sd a s sd2] by metis
qed simp

lemma SD_commit_inv:
  assumes "sd_inv sd" "range_order ordS"
  shows "\<exists>root sd'. SD_commit ordS ordK sd = Some (root, sd') \<and> sd_inv sd'
     \<and> (\<forall>a. map_option core (obj sd' a) = map_option core (obj sd a))"
proof -
  have inv: "account_codec_ok (env sd)" "acct_ok sd" "gomap_ok (states sd)" "clean sd" "readable sd a" for a
    using assms(1) by (simp_all add: sd_inv_def)
  obtain root sd' where c: "SD_commit ordS ordK sd = Some (root, sd')"
    and p: "\<forall>a. persisted sd' a" and co: "\<forall>a. map_option core (obj sd' a) = map_option core (obj sd a)"
    using SD_commit_spec [OF inv(1,2,3) assms(2) inv(4,5), of ordK] by blast
  let ?sd1 = "sd\<lparr>dirtyset := dirtyset sd \<union> set (map fst (dirties (jrnl sd)))\<rparr>"
  obtain sd2 where l: "commit_loop ordK ?sd1 (ordS (states ?sd1)) = Some sd2"
    and sd': "env sd' = env sd2" "states sd' = states sd2" "strie sd' = strie sd2"
    using c by (auto simp: SD_commit_def Let_def clearJournalAndRefund_def Trie_Commit_def split: option.splits)
  have "gomap_ok (states ?sd1)" "\<forall>b. readable ?sd1 b"
    using assms(1) by (simp_all add: sd_inv_def readable_def)
  then have fr: "env sd' = env sd" "gomap_ok (states sd')" "\<forall>a. readable sd' a"
    using commit_loop_frame [OF l] sd' by (simp_all add: readable_def)
  have wf: "acct_wf a s" if s: "obj sd' a = Some s" for a s
  proof -
    obtain s0 where "obj sd a = Some s0" "core s = core s0"
      using co [rule_format, of a] s by (cases "obj sd a") auto
    then show ?thesis using acct_okD [OF inv(2), of a s0] acct_wf_core [of s s0 a] by simp
  qed
  have "acct_wf a s" if s: "trie_load (env sd') (strie sd') a = Some s" for a s
  proof -
    obtain s1 where s1: "obj sd' a = Some s1" "data s1 = data s"
      using p [rule_format, of a] s by (cases "obj sd' a") (auto simp: persisted_def)
    have "soAddress s = acAddress (data s)"
      using s by (auto simp: trie_load_def StateObject_Decode_def split: sum.splits option.splits)
    then show ?thesis using wf [OF s1(1)] s1(2) by (simp add: acct_wf_def)
  qed
  then have "acct_ok sd'" using wf by (simp add: acct_ok_def)
  moreover have "clean sd'" using p by (simp add: clean_def)
  ultimately show ?thesis using c fr co assms(1) by (auto simp: sd_inv_def)
qed

lemma core_views:
  assumes "\<And>a. map_option core (obj sd' a) = map_option core (obj sd a)"
  shows "bal sd' = bal sd" "nonce_of sd' = nonce_of sd" "has_account sd' = has_account sd"
proof -
  have c: "(obj sd a = None \<and> obj sd' a = None) \<or> (\<exists>s s'. obj sd a = Some s \<and> obj sd' a = Some s' \<and> core s' = core s)" for a
    using assms [of a] by (cases "obj sd a"; cases "obj sd' a") auto
  have "has_account sd' a = has_account sd a" "bal sd' a = bal sd a" "nonce_of sd' a = nonce_of sd a" for a
    using c [of a] by (auto simp: has_account_def bal_def nonce_of_def cur_def core_def NewStateObject_def)
  then show "bal sd' = bal sd" "nonce_of sd' = nonce_of sd" "has_account sd' = has_account sd"
    by (simp_all add: fun_eq_iff)
qed

section \<open>Properties\<close>



text \<open>A codec that satisfies the round trip: fixed-width fields, then the sign, the length of the
  balance in unary, the balance and the code hash.\<close>

definition marshal1 :: "Account \<Rightarrow> byte list" where
  "marshal1 a =
     Address_ToBytes (acAddress a) @ word_bytes 8 (acNonce a) @ Hash_ToBytes (acRoot a)
       @ [if acBalance a < 0 then 1 else 0]
       @ replicate (length (GetBytes (acBalance a))) 1 @ [0] @ GetBytes (acBalance a) @ acCodeHash a"

definition unmarshal1 :: "byte list \<Rightarrow> error + Account" where
  "unmarshal1 bs =
     (let r = drop 60 bs; n = length (takeWhile (\<lambda>b. b = 1) (tl r)) in Inr
       \<lparr>acAddress = word_of_nat (bytes_val (take 20 bs)),
        acBalance = (if hd r = 1 then -1 else 1) * int (bytes_val (take n (drop (n + 1) (tl r)))),
        acNonce = word_of_nat (bytes_val (take 8 (drop 20 bs))),
        acRoot = word_of_nat (bytes_val (take 32 (drop 28 bs))),
        acCodeHash = drop (2 * n + 1) (tl r)\<rparr>)"

lemma takeWhile_unary:
  "takeWhile (\<lambda>b. b = 1) (replicate n (1::byte) @ 0 # ys) = replicate n 1"
  by (subst takeWhile_append2) auto

lemma unmarshal1_marshal1: "unmarshal1 (marshal1 a) = Inr a"
proof -
  let ?B = "GetBytes (acBalance a)"
  let ?r = "(if acBalance a < 0 then 1 else 0) # replicate (length ?B) (1::byte) @ 0 # ?B @ acCodeHash a"
  have m: "marshal1 a = Address_ToBytes (acAddress a) @ word_bytes 8 (acNonce a) @ Hash_ToBytes (acRoot a) @ ?r"
    by (simp add: marshal1_def)
  have r: "drop 60 (marshal1 a) = ?r" by (simp add: m)
  have parts: "take 20 (marshal1 a) = Address_ToBytes (acAddress a)"
    "take 8 (drop 20 (marshal1 a)) = word_bytes 8 (acNonce a)"
    "take 32 (drop 28 (marshal1 a)) = Hash_ToBytes (acRoot a)"
    by (simp_all add: m)
  have v: "int (bytes_val ?B) = \<bar>acBalance a\<bar>" by (simp add: GetBytes_def)
  have w: "bytes_val (Address_ToBytes (acAddress a)) = unat (acAddress a)"
    "bytes_val (word_bytes 8 (acNonce a)) = unat (acNonce a)"
    "bytes_val (Hash_ToBytes (acRoot a)) = unat (acRoot a)"
    by (simp_all add: Address_ToBytes_def Hash_ToBytes_def bytes_val_word_full)
  show ?thesis
    unfolding unmarshal1_def Let_def r parts w list.sel takeWhile_unary
    using v by (simp add: w)
qed

definition sample_env1 :: state_env where
  "sample_env1 = sample_env\<lparr>marshalAccount := marshal1, unmarshalAccount := unmarshal1\<rparr>"

lemma sample_env1_codec: "account_codec_ok sample_env1"
  by (simp add: account_codec_ok_def sample_env1_def unmarshal1_marshal1) (simp add: marshal1_def)

definition sample_sd :: StateDB where
  "sample_sd = setBalance (fresh_sd\<lparr>env := sample_env1\<rparr>) 5 100"

lemma sample_sd_start: "NewStateDB sample_env1 600 0 sample_db = Inr (fresh_sd\<lparr>env := sample_env1\<rparr>)"
  by (simp add: NewStateDB_def OpenTrie_def fresh_sd_def)

lemma sample_db_ok: "db_ok sample_db"
  by (simp add: db_ok_def sample_db_def)

lemma gomap_ok_states:
  "gomap_ok (states sd) \<Longrightarrow> gomap_ok (states (setBalance sd a b))"
  by (simp add: setBalance_def getOrCreate_Some so_SetBalance_def created_eq touched_def
      CreateAccount_def getStateObject_eq Let_def split: option.splits)

lemma sample_sd_facts: "acct_ok sample_sd" "clean sample_sd" "gomap_ok (states sample_sd)" "readable sample_sd a" "env sample_sd = sample_env1"
proof -
  note new = NewStateDB_ok [OF sample_sd_start sample_db_ok] clean_new [OF sample_sd_start]
  have ok: "acct_ok (fresh_sd\<lparr>env := sample_env1\<rparr>)"
    using new(3) by (simp add: acct_ok_def) (simp add: fresh_sd_def trie_load_def empty_trie_def)
  then show "acct_ok sample_sd" unfolding sample_sd_def by (rule acct_ok_setBalance) simp
  show "clean sample_sd" unfolding sample_sd_def using new ok by (intro clean_setBalance) simp_all
  show "gomap_ok (states sample_sd)" unfolding sample_sd_def by (rule gomap_ok_states) (simp add: fresh_sd_def)
  show "env sample_sd = sample_env1" by (simp add: sample_sd_def)
  show "readable sample_sd a"
    by (simp add: sample_sd_def readable_def setBalance_def getOrCreate_Some so_SetBalance_def fresh_sd_def empty_trie_def)
qed



text \<open>C33: the first read of a storage slot that is not cached returns the value stored in the
  trie and caches the zero hash, so the next read of the same slot returns zero.\<close>

theorem GetCommittedState_second_read_zero:
  assumes "committedStorage s key = None" "sotrie s = Some t"
    and "t (Hash_ToBytes key) = Inr (Some (Hash_ToBytes v))"
  shows "\<exists>s1. GetCommittedState db s key = Some (v, s1) \<and> GetCommittedState db s1 key = Some (0, s1)"
  using assms by (simp add: GetCommittedState_def openTrie_def TryGet_def)

theorem GetCommittedState_second_read_zero_witness:
  "\<exists>s1. GetCommittedState sample_db
      ((NewStateObject sample_env 5)\<lparr>sotrie := Some (empty_trie(Hash_ToBytes 1 := Inr (Some (Hash_ToBytes 9))))\<rparr>) 1
        = Some (9, s1)
     \<and> GetCommittedState sample_db s1 1 = Some (0, s1)"
  by (rule GetCommittedState_second_read_zero
       [where t = "empty_trie(Hash_ToBytes 1 := Inr (Some (Hash_ToBytes 9)))"])
     (simp_all add: NewStateObject_def)


definition acc5 :: Account where
  "acc5 = \<lparr>acAddress = 5, acBalance = 70, acNonce = 2, acRoot = 0, acCodeHash = []\<rparr>"

definition sample_sd5 :: StateDB where
  "sample_sd5 = fresh_sd\<lparr>env := sample_env1, now := 1000,
             strie := empty_trie(Address_ToBytes 5 := Inr (Some (marshal1 acc5)))\<rparr>"

definition so5 :: StateObject where
  "so5 = \<lparr>soAddress = 5, addressHash = Keccak256Hash sample_env1 (Address_ToBytes 5), data = acc5, dbErr = None,
         code = None, dirtycode = False, suicided = False, committedStorage = Map.empty,
         dirtyStorage = [], sotrie = None\<rparr>"

lemma sample_sd5_load: "trie_load (env sample_sd5) (strie sample_sd5) 5 = Some so5"
  by (simp add: sample_sd5_def trie_load_def StateObject_Decode_def so5_def sample_env1_def unmarshal1_marshal1 acc5_def)

lemma sample_sd5_touched: "touched sample_sd5 5 = put_object sample_sd5 5 so5"
  by (simp add: touched_def sample_sd5_load) (simp add: sample_sd5_def fresh_sd_def)


end
