(* ===== verification/Accessor.thy ===== *)
theory Accessor
  imports OGTypes
begin

text \<open>
  The key-value store of \<^verbatim>\<open>src/ogdb\<close> and the typed access layer \<^verbatim>\<open>src/core/accessor.go\<close>, with the
  receipts of \<^verbatim>\<open>src/core/receipt.go\<close>. A store is a map of byte strings; a write may be refused, which
  the in-memory database never does. The msgpack codecs that \<^verbatim>\<open>msgp\<close> generates are the fields of
  \<open>codec\<close>. An operation that can panic returns an option, \<open>None\<close> being the panic; inside it, \<open>None\<close> is nil.
\<close>

section \<open>Key-value store\<close>

record KvDB =
  kv :: "byte list \<rightharpoonup> byte list"
  put_fails :: "byte list \<Rightarrow> bool"

definition NewMemDatabase :: KvDB where
  "NewMemDatabase = \<lparr>kv = Map.empty, put_fails = (\<lambda>_. False)\<rparr>"

definition Put :: "KvDB \<Rightarrow> byte list \<Rightarrow> byte list \<Rightarrow> error option \<times> KvDB" where
  "Put db key v = (if put_fails db key then (Some ErrDB, db) else (None, db\<lparr>kv := (kv db)(key \<mapsto> v)\<rparr>))"

definition Has :: "KvDB \<Rightarrow> byte list \<Rightarrow> bool" where
  "Has db key \<longleftrightarrow> kv db key \<noteq> None"

definition Get :: "KvDB \<Rightarrow> byte list \<Rightarrow> error + byte list" where
  "Get db key = (case kv db key of Some entry \<Rightarrow> Inr entry | None \<Rightarrow> Inl ErrNotFound)"

definition Delete :: "KvDB \<Rightarrow> byte list \<Rightarrow> error option \<times> KvDB" where
  "Delete db key = (None, db\<lparr>kv := (kv db)(key := None)\<rparr>)"

text \<open>The data of \<^verbatim>\<open>data, _ := db.Get(key)\<close>: nil, of length 0, on an error.\<close>

definition get_data :: "KvDB \<Rightarrow> byte list \<Rightarrow> byte list" where
  "get_data db key = (case Get db key of Inr d \<Rightarrow> d | Inl _ \<Rightarrow> [])"

text \<open>The batch of the in-memory database.\<close>

record memBatch =
  writes :: "(byte list \<times> byte list) list"
  bsize :: nat

definition NewBatch :: memBatch where
  "NewBatch = \<lparr>writes = [], bsize = 0\<rparr>"

definition memBatch_Put :: "memBatch \<Rightarrow> byte list \<Rightarrow> byte list \<Rightarrow> memBatch" where
  "memBatch_Put b key v = \<lparr>writes = writes b @ [(key, v)], bsize = bsize b + length v\<rparr>"

fun write_loop :: "(byte list \<rightharpoonup> byte list) \<Rightarrow> (byte list \<times> byte list) list \<Rightarrow> (byte list \<rightharpoonup> byte list)" where
  "write_loop m [] = m"
| "write_loop m ((k, v) # ws) = write_loop (m(k \<mapsto> v)) ws"

definition memBatch_Write :: "KvDB \<Rightarrow> memBatch \<Rightarrow> KvDB" where
  "memBatch_Write db b = db\<lparr>kv := write_loop (kv db) (writes b)\<rparr>"

definition memBatch_Reset :: "memBatch \<Rightarrow> memBatch" where
  "memBatch_Reset b = \<lparr>writes = [], bsize = 0\<rparr>"

section \<open>Receipts\<close>

datatype ReceiptStatus = ReceiptStatusSeqSuccess | ReceiptStatusTxSuccess | ReceiptStatusOVMFailed

record Receipt =
  rTxHash :: Hash
  rStatus :: ReceiptStatus
  rProcessResult :: string
  rContractAddress :: Address

definition NewReceipt :: "Hash \<Rightarrow> ReceiptStatus \<Rightarrow> string \<Rightarrow> Address \<Rightarrow> Receipt" where
  "NewReceipt hash status pResult addr =
     \<lparr>rTxHash = hash, rStatus = status, rProcessResult = pResult, rContractAddress = addr\<rparr>"

text \<open>\<^verbatim>\<open>ReceiptSet\<close>: receipts by the hexadecimal form of the transaction hash.\<close>

type_synonym ReceiptSet = "(string, Receipt) gomap"

record ConfirmTime =
  ctSeqHeight :: uint64
  ctTxNum :: uint64
  ctConfirmTime :: string

section \<open>Codecs\<close>

record codec =
  marshalSeq :: "Sequencer \<Rightarrow> error + byte list"
  unmarshalSeq :: "byte list \<Rightarrow> error + Sequencer"
  marshalTx :: "Tx \<Rightarrow> error + byte list"
  unmarshalTx :: "byte list \<Rightarrow> error + Tx"
  marshalHashes :: "Hash list \<Rightarrow> error + byte list"
  unmarshalHashes :: "byte list \<Rightarrow> error + Hash list"
  marshalReceipts :: "ReceiptSet \<Rightarrow> error + byte list"
  unmarshalReceipts :: "byte list \<Rightarrow> error + ReceiptSet"
  marshalConfirmTime :: "ConfirmTime \<Rightarrow> error + byte list"
  unmarshalConfirmTime :: "byte list \<Rightarrow> error + ConfirmTime"
  marshalBigInt :: "int \<Rightarrow> error + byte list"
  unmarshalBigInt :: "byte list \<Rightarrow> error + int"

section \<open>Keys\<close>

definition str_bytes :: "string \<Rightarrow> byte list" where
  "str_bytes s = map of_char s"

definition encodeUint64 :: "uint64 \<Rightarrow> byte list" where
  "encodeUint64 n = word_bytes 8 n"

definition genesisKey :: "byte list" where
  "genesisKey = str_bytes ''genesis''"

definition latestSequencerKey :: "byte list" where
  "latestSequencerKey = str_bytes ''latestseq''"

definition receiptKey :: "uint64 \<Rightarrow> byte list" where
  "receiptKey seqID = str_bytes ''rp'' @ encodeUint64 seqID"

definition transactionKey :: "Hash \<Rightarrow> byte list" where
  "transactionKey hash = str_bytes ''tx'' @ Hash_ToBytes hash"

definition confirmTimeKey :: "uint64 \<Rightarrow> byte list" where
  "confirmTimeKey SeqHeight = str_bytes ''cf'' @ encodeUint64 SeqHeight"

definition txHashFlowKey :: "Address \<Rightarrow> uint64 \<Rightarrow> byte list" where
  "txHashFlowKey addr nonce =
     (let keybody = Address_ToBytes addr @ encodeUint64 nonce in str_bytes ''fl'' @ keybody)"

definition addrLatestNonceKey :: "Address \<Rightarrow> byte list" where
  "addrLatestNonceKey addr = str_bytes ''aln'' @ Address_ToBytes addr"

definition addressBalanceKey :: "Address \<Rightarrow> byte list" where
  "addressBalanceKey addr = str_bytes ''ba'' @ Address_ToBytes addr"

definition seqHeightKey :: "uint64 \<Rightarrow> byte list" where
  "seqHeightKey seqID = str_bytes ''sh'' @ encodeUint64 seqID"

definition txIndexKey :: "uint64 \<Rightarrow> byte list" where
  "txIndexKey seqID = str_bytes ''ti'' @ encodeUint64 seqID"

definition contentPrefixTransaction :: "byte list" where
  "contentPrefixTransaction = str_bytes ''cptx''"

definition contentPrefixSequencer :: "byte list" where
  "contentPrefixSequencer = str_bytes ''cpsq''"

section \<open>Reads and writes\<close>

text \<open>Writing what a codec produced, and reading back: nil for no data and for data the codec
  refuses.\<close>

definition put_marshalled :: "KvDB \<Rightarrow> byte list \<Rightarrow> error + byte list \<Rightarrow> error option \<times> KvDB" where
  "put_marshalled db key r = (case r of Inl err \<Rightarrow> (Some err, db) | Inr d \<Rightarrow> Put db key d)"

definition get_unmarshalled :: "KvDB \<Rightarrow> byte list \<Rightarrow> (byte list \<Rightarrow> error + 'a) \<Rightarrow> 'a option" where
  "get_unmarshalled db key un =
     (let d = get_data db key in
      if length d = 0 then None else case un d of Inl _ \<Rightarrow> None | Inr x \<Rightarrow> Some x)"

definition ReadGenesis :: "codec \<Rightarrow> KvDB \<Rightarrow> Sequencer option" where
  "ReadGenesis C db = get_unmarshalled db genesisKey (unmarshalSeq C)"

definition WriteGenesis :: "codec \<Rightarrow> KvDB \<Rightarrow> Sequencer \<Rightarrow> error option \<times> KvDB" where
  "WriteGenesis C db genesis = put_marshalled db genesisKey (marshalSeq C genesis)"

definition ReadLatestSequencer :: "codec \<Rightarrow> KvDB \<Rightarrow> Sequencer option" where
  "ReadLatestSequencer C db = get_unmarshalled db latestSequencerKey (unmarshalSeq C)"

definition WriteLatestSequencer :: "codec \<Rightarrow> KvDB \<Rightarrow> Sequencer \<Rightarrow> error option \<times> KvDB" where
  "WriteLatestSequencer C db seq = put_marshalled db latestSequencerKey (marshalSeq C seq)"

text \<open>\<^verbatim>\<open>ReadTransaction\<close> slices the content prefix off; a shorter value is a panic.\<close>

definition ReadTransaction :: "codec \<Rightarrow> KvDB \<Rightarrow> Hash \<Rightarrow> Txi option option" where
  "ReadTransaction C db hash =
     (let d = get_data db (transactionKey hash) in
      if length d = 0 then Some None
      else let prefixLen = length contentPrefixTransaction in
        if length d < prefixLen then None
        else let prefix = take prefixLen d; d' = drop prefixLen d in
          if prefix = contentPrefixTransaction then
            (case unmarshalTx C d' of Inl _ \<Rightarrow> Some None | Inr tx \<Rightarrow> Some (Some (TxiTx tx)))
          else if prefix = contentPrefixSequencer then
            (case unmarshalSeq C d' of Inl _ \<Rightarrow> Some None | Inr sq \<Rightarrow> Some (Some (TxiSeq sq)))
          else Some None)"

definition ReadTxByNonce :: "codec \<Rightarrow> KvDB \<Rightarrow> Address \<Rightarrow> uint64 \<Rightarrow> Txi option option" where
  "ReadTxByNonce C db addr nonce =
     (let d = get_data db (txHashFlowKey addr nonce) in
      if length d = 0 then Some None
      else case BytesToHash d of None \<Rightarrow> None | Some hash \<Rightarrow> ReadTransaction C db hash)"

definition WriteTxHashByNonce :: "KvDB \<Rightarrow> Address \<Rightarrow> uint64 \<Rightarrow> Hash \<Rightarrow> error option \<times> KvDB" where
  "WriteTxHashByNonce db addr nonce hash = Put db (txHashFlowKey addr nonce) (Hash_ToBytes hash)"

text \<open>\<^verbatim>\<open>strconv.ParseUint(s, 10, 64)\<close>.\<close>

fun parse_digits :: "byte list \<Rightarrow> nat \<Rightarrow> nat option" where
  "parse_digits [] acc = Some acc"
| "parse_digits (b # bs) acc =
     (if 48 \<le> unat b \<and> unat b \<le> 57 then
        (let acc' = acc * 10 + (unat b - 48) in
         if acc' \<ge> 2 ^ 64 then None else parse_digits bs acc')
      else None)"

definition ParseUint :: "byte list \<Rightarrow> uint64 option" where
  "ParseUint s = (if s = [] then None else map_option word_of_nat (parse_digits s 0))"

definition HasAddrLatestNonce :: "KvDB \<Rightarrow> Address \<Rightarrow> bool" where
  "HasAddrLatestNonce db addr = Has db (addrLatestNonceKey addr)"

text \<open>\<^verbatim>\<open>ReadAddrLatestNonce\<close>: for an entry of length 0 it returns 0 and the nil error of \<^verbatim>\<open>Get\<close>.\<close>

definition ReadAddrLatestNonce :: "KvDB \<Rightarrow> Address \<Rightarrow> error + uint64" where
  "ReadAddrLatestNonce db addr =
     (if \<not> HasAddrLatestNonce db addr then Inl ErrNotFound
      else case Get db (addrLatestNonceKey addr) of
        Inl err \<Rightarrow> Inl err
      | Inr d \<Rightarrow>
          (if length d = 0 then Inr 0
           else case ParseUint d of None \<Rightarrow> Inl ErrUnmarshal | Some n \<Rightarrow> Inr n))"

definition writeConfirmTime :: "codec \<Rightarrow> KvDB \<Rightarrow> ConfirmTime \<Rightarrow> error option \<times> KvDB" where
  "writeConfirmTime C db cf = put_marshalled db (confirmTimeKey (ctSeqHeight cf)) (marshalConfirmTime C cf)"

definition readConfirmTime :: "codec \<Rightarrow> KvDB \<Rightarrow> uint64 \<Rightarrow> ConfirmTime option" where
  "readConfirmTime C db SeqHeight =
     (let d = get_data db (confirmTimeKey SeqHeight) in
      if length d = 0 then None
      else case unmarshalConfirmTime C d of
        Inl _ \<Rightarrow> None
      | Inr cf \<Rightarrow> (if ctSeqHeight cf \<noteq> SeqHeight then None else Some cf))"

definition WriteReceipts :: "codec \<Rightarrow> KvDB \<Rightarrow> uint64 \<Rightarrow> ReceiptSet \<Rightarrow> error option \<times> KvDB" where
  "WriteReceipts C db seqID receipts = put_marshalled db (receiptKey seqID) (marshalReceipts C receipts)"

definition ReadReceipt :: "codec \<Rightarrow> KvDB \<Rightarrow> uint64 \<Rightarrow> Hash \<Rightarrow> Receipt option" where
  "ReadReceipt C db seqID hash =
     (let bundleBytes = get_data db (receiptKey seqID) in
      if length bundleBytes = 0 then None
      else case unmarshalReceipts C bundleBytes of
        Inl _ \<Rightarrow> None
      | Inr receipts \<Rightarrow> map_of receipts (Hash_Hex hash))"

definition WriteTransaction :: "codec \<Rightarrow> KvDB \<Rightarrow> Txi \<Rightarrow> error option \<times> KvDB" where
  "WriteTransaction C db tx =
     (let (prefix, r) =
        (case tx of
           TxiTx t \<Rightarrow> (contentPrefixTransaction, marshalTx C t)
         | TxiSeq s \<Rightarrow> (contentPrefixSequencer, marshalSeq C s))
      in case r of
        Inl err \<Rightarrow> (Some err, db)
      | Inr d \<Rightarrow> Put db (transactionKey (GetTxHash tx)) (prefix @ d))"

definition DeleteTransaction :: "KvDB \<Rightarrow> Hash \<Rightarrow> error option \<times> KvDB" where
  "DeleteTransaction db hash = Delete db (transactionKey hash)"

text \<open>\<^verbatim>\<open>ReadBalance\<close>: 0 without an entry, nil for one that cannot be decoded.\<close>

definition ReadBalance :: "codec \<Rightarrow> KvDB \<Rightarrow> Address \<Rightarrow> int option" where
  "ReadBalance C db addr =
     (let d = get_data db (addressBalanceKey addr) in
      if length d = 0 then Some 0
      else case unmarshalBigInt C d of Inl _ \<Rightarrow> None | Inr b \<Rightarrow> Some b)"

text \<open>The guards \<^verbatim>\<open>v.Abs(v).Cmp(v) != 0\<close> of the next three operations: \<^verbatim>\<open>big.Int.Abs\<close> stores the
  absolute value in its receiver, so both sides of the comparison are the new number. The number
  the caller passed is returned as the code leaves it.\<close>

definition must_be_positive :: "int \<Rightarrow> bool \<times> int" where
  "must_be_positive v = (let v' = \<bar>v\<bar> in (sgn (v' - v') \<noteq> 0, v'))"

definition Accessor_SetBalance :: "codec \<Rightarrow> KvDB \<Rightarrow> Address \<Rightarrow> int \<Rightarrow> (error option \<times> int) \<times> KvDB" where
  "Accessor_SetBalance C db addr v =
     (case must_be_positive v of (bad, v') \<Rightarrow>
        if bad then ((Some ErrMustBePositive, v'), db)
        else case put_marshalled db (addressBalanceKey addr) (marshalBigInt C v') of
          (err, db') \<Rightarrow> ((err, v'), db'))"

definition DeleteBalance :: "KvDB \<Rightarrow> Address \<Rightarrow> error option \<times> KvDB" where
  "DeleteBalance db addr = Delete db (addressBalanceKey addr)"

definition Accessor_AddBalance :: "codec \<Rightarrow> KvDB \<Rightarrow> Address \<Rightarrow> int \<Rightarrow> (error option \<times> int) \<times> KvDB" where
  "Accessor_AddBalance C db addr amount =
     (case must_be_positive amount of (bad, amount') \<Rightarrow>
        if bad then ((Some ErrMustBePositive, amount'), db)
        else case ReadBalance C db addr of
          None \<Rightarrow> Accessor_SetBalance C db addr amount'
        | Some balance \<Rightarrow>
            (case Accessor_SetBalance C db addr (balance + amount') of
               ((err, _), db') \<Rightarrow> ((err, amount'), db')))"

definition Accessor_SubBalance :: "codec \<Rightarrow> KvDB \<Rightarrow> Address \<Rightarrow> int \<Rightarrow> (error option \<times> int) \<times> KvDB" where
  "Accessor_SubBalance C db addr amount =
     (case must_be_positive amount of (bad, amount') \<Rightarrow>
        if bad then ((Some ErrMustBePositive, amount'), db)
        else case ReadBalance C db addr of
          None \<Rightarrow> ((Some (ErrBalanceNotEnough addr), amount'), db)
        | Some balance \<Rightarrow>
            (if balance < amount' then ((Some ErrBalanceLow, amount'), db)
             else case Accessor_SetBalance C db addr (balance - amount') of
               ((err, _), db') \<Rightarrow> ((err, amount'), db')))"

definition ReadSequencerByHeight :: "codec \<Rightarrow> KvDB \<Rightarrow> uint64 \<Rightarrow> error + Sequencer" where
  "ReadSequencerByHeight C db SeqHeight =
     (let d = get_data db (seqHeightKey SeqHeight) in
      if length d = 0 then Inl ErrNotFound else unmarshalSeq C d)"

definition WriteSequencerByHeight :: "codec \<Rightarrow> KvDB \<Rightarrow> Sequencer \<Rightarrow> error option \<times> KvDB" where
  "WriteSequencerByHeight C db seq = put_marshalled db (seqHeightKey (Height seq)) (marshalSeq C seq)"

definition ReadIndexedTxHashs :: "codec \<Rightarrow> KvDB \<Rightarrow> uint64 \<Rightarrow> error + Hash list" where
  "ReadIndexedTxHashs C db SeqHeight =
     (let d = get_data db (txIndexKey SeqHeight) in
      if length d = 0 then Inl ErrNotFound else unmarshalHashes C d)"

definition WriteIndexedTxHashs :: "codec \<Rightarrow> KvDB \<Rightarrow> uint64 \<Rightarrow> Hash list \<Rightarrow> error option \<times> KvDB" where
  "WriteIndexedTxHashs C db SeqHeight hashs = put_marshalled db (txIndexKey SeqHeight) (marshalHashes C hashs)"

section \<open>The store interface\<close>

locale kv_store =
  fixes get :: "'s \<Rightarrow> 'k \<Rightarrow> 'v option"
    and put :: "'s \<Rightarrow> 'k \<Rightarrow> 'v \<Rightarrow> error option \<times> 's"
    and del :: "'s \<Rightarrow> 'k \<Rightarrow> error option \<times> 's"
  assumes get_put: "put s k v = (None, s') \<Longrightarrow> get s' = (get s)(k \<mapsto> v)"
    and put_error: "put s k v = (Some e, s') \<Longrightarrow> s' = s"
    and get_del: "del s k = (None, s') \<Longrightarrow> get s' = (get s)(k := None)"
begin

text \<open>A write changes at most its own key, whether or not it is refused.\<close>

lemma put_other: "put s k v = (r, s') \<Longrightarrow> k' \<noteq> k \<Longrightarrow> get s' k' = get s k'"
  using get_put [of s k v s'] put_error [of s k v _ s'] by (cases r) auto

lemma put_same: "put s k v = (None, s') \<Longrightarrow> get s' k = Some v"
  by (simp add: get_put)

text \<open>Two accepted writes to different keys commute as far as a reader can tell.\<close>

lemma put_commute:
  assumes "k \<noteq> k'" "put s k v = (None, s1)" "put s1 k' v' = (None, s2)"
    "put s k' v' = (None, t1)" "put t1 k v = (None, t2)"
  shows "get s2 = get t2"
  using assms get_put by (metis fun_upd_twist)

end

interpretation store: kv_store kv Put Delete
  by unfold_locales (auto simp: Put_def Delete_def split: if_splits)

lemma put_fails_Put [simp]: "put_fails (snd (Put db k v)) = put_fails db"
  by (simp add: Put_def)

lemma get_data_kv: "get_data db key = (case kv db key of Some d \<Rightarrow> d | None \<Rightarrow> [])"
  by (simp add: get_data_def Get_def split: option.splits)

lemma get_data_Put: "Put db k v = (None, db') \<Longrightarrow> get_data db' k = v"
  by (simp add: get_data_kv store.put_same)

lemma get_data_Put_other: "Put db k v = (r, db') \<Longrightarrow> k' \<noteq> k \<Longrightarrow> get_data db' k' = get_data db k'"
  by (simp add: get_data_kv store.put_other)

lemma put_marshalled_None:
  "put_marshalled db k r = (None, db') \<longleftrightarrow> (\<exists>d. r = Inr d \<and> Put db k d = (None, db'))"
  by (auto simp: put_marshalled_def split: sum.splits)

lemma put_marshalled_other:
  "put_marshalled db k m = (r, db') \<Longrightarrow> k' \<noteq> k \<Longrightarrow> get_data db' k' = get_data db k'"
  by (auto simp: put_marshalled_def get_data_Put_other split: sum.splits)

text \<open>What the code relies on of a codec, for one value.\<close>

definition codec_at :: "('a \<Rightarrow> error + byte list) \<Rightarrow> (byte list \<Rightarrow> error + 'a) \<Rightarrow> 'a \<Rightarrow> bool" where
  "codec_at m un x \<longleftrightarrow> (\<exists>d. m x = Inr d \<and> d \<noteq> [] \<and> un d = Inr x)"

lemma marshalled_roundtrip:
  assumes "codec_at m un x" "put_marshalled db k (m x) = (None, db')"
  shows "get_data db' k \<noteq> [] \<and> un (get_data db' k) = Inr x"
  using assms by (auto simp: codec_at_def put_marshalled_None get_data_Put)

lemma get_unmarshalled_roundtrip:
  "codec_at m un x \<Longrightarrow> put_marshalled db k (m x) = (None, db') \<Longrightarrow> get_unmarshalled db' k un = Some x"
  using marshalled_roundtrip [of m un x db k db'] by (simp add: get_unmarshalled_def)

section \<open>Keys do not collide\<close>

text \<open>Every kind of key the node writes to the store: those of the accessor, and the trie nodes and
  contract codes that the state database keeps under their hash in the same store.\<close>

datatype dbkey =
    KGenesis | KLatestSeq | KReceipt uint64 | KTx Hash | KConfirm uint64 | KFlow Address uint64
  | KNonce Address | KBalance Address | KSeq uint64 | KIndex uint64 | KNode Hash

fun key_bytes :: "dbkey \<Rightarrow> byte list" where
  "key_bytes KGenesis = genesisKey"
| "key_bytes KLatestSeq = latestSequencerKey"
| "key_bytes (KReceipt n) = receiptKey n"
| "key_bytes (KTx h) = transactionKey h"
| "key_bytes (KConfirm n) = confirmTimeKey n"
| "key_bytes (KFlow a n) = txHashFlowKey a n"
| "key_bytes (KNonce a) = addrLatestNonceKey a"
| "key_bytes (KBalance a) = addressBalanceKey a"
| "key_bytes (KSeq n) = seqHeightKey n"
| "key_bytes (KIndex n) = txIndexKey n"
| "key_bytes (KNode h) = Hash_ToBytes h"

lemmas key_defs = genesisKey_def latestSequencerKey_def receiptKey_def transactionKey_def
  confirmTimeKey_def txHashFlowKey_def addrLatestNonceKey_def addressBalanceKey_def seqHeightKey_def
  txIndexKey_def encodeUint64_def str_bytes_def Let_def

lemma key_bytes_length:
  "length (key_bytes k) =
     (case k of KGenesis \<Rightarrow> 7 | KLatestSeq \<Rightarrow> 9 | KReceipt _ \<Rightarrow> 10 | KTx _ \<Rightarrow> 34 | KConfirm _ \<Rightarrow> 10
      | KFlow _ _ \<Rightarrow> 30 | KNonce _ \<Rightarrow> 23 | KBalance _ \<Rightarrow> 22 | KSeq _ \<Rightarrow> 10 | KIndex _ \<Rightarrow> 10 | KNode _ \<Rightarrow> 32)"
  by (cases k) (simp_all add: key_defs)

lemma key_bytes_eq: "key_bytes k = key_bytes k' \<longleftrightarrow> k = k'"
proof
  assume eq: "key_bytes k = key_bytes k'"
  then have "length (key_bytes k) = length (key_bytes k')" by simp
  with eq show "k = k'"
    unfolding key_bytes_length by (cases k; cases k') (simp_all add: key_defs)
qed simp

text \<open>The facts the components use: the keys of two kinds or two arguments differ.\<close>

lemma key_neq [simp]: "k \<noteq> k' \<Longrightarrow> key_bytes k \<noteq> key_bytes k'"
  by (simp add: key_bytes_eq)

lemma keys_as_bytes:
  "genesisKey = key_bytes KGenesis" "latestSequencerKey = key_bytes KLatestSeq"
  "receiptKey n = key_bytes (KReceipt n)" "transactionKey h = key_bytes (KTx h)"
  "confirmTimeKey n = key_bytes (KConfirm n)" "txHashFlowKey a n = key_bytes (KFlow a n)"
  "addressBalanceKey a = key_bytes (KBalance a)" "seqHeightKey n = key_bytes (KSeq n)"
  "txIndexKey n = key_bytes (KIndex n)"
  by simp_all

section \<open>Round trips\<close>

definition tx_codec_at :: "codec \<Rightarrow> Txi \<Rightarrow> bool" where
  "tx_codec_at C tx =
     (case tx of
        TxiTx t \<Rightarrow> codec_at (marshalTx C) (unmarshalTx C) t
      | TxiSeq s \<Rightarrow> codec_at (marshalSeq C) (unmarshalSeq C) s)"

lemma prefix_simps:
  "length contentPrefixTransaction = 4" "length contentPrefixSequencer = 4"
  "contentPrefixTransaction \<noteq> contentPrefixSequencer"
  "contentPrefixTransaction \<noteq> []" "contentPrefixSequencer \<noteq> []"
  by (simp_all add: contentPrefixTransaction_def contentPrefixSequencer_def str_bytes_def)

lemma ReadTransaction_cong:
  "get_data db' (transactionKey h) = get_data db (transactionKey h)
    \<Longrightarrow> ReadTransaction C db' h = ReadTransaction C db h"
  by (simp add: ReadTransaction_def)

lemma Read_WriteTransaction:
  assumes "tx_codec_at C tx" "WriteTransaction C db tx = (None, db')"
  shows "ReadTransaction C db' (GetTxHash tx) = Some (Some tx)"
proof (cases tx)
  case (TxiTx t)
  then obtain d where "marshalTx C t = Inr d" "unmarshalTx C d = Inr t"
    using assms(1) by (auto simp: tx_codec_at_def codec_at_def)
  moreover from this have "get_data db' (transactionKey (HashOf t)) = contentPrefixTransaction @ d"
    using assms(2) TxiTx by (simp add: WriteTransaction_def get_data_Put)
  ultimately show ?thesis
    using TxiTx prefix_simps by (simp add: ReadTransaction_def Let_def)
next
  case (TxiSeq s)
  then obtain d where "marshalSeq C s = Inr d" "unmarshalSeq C d = Inr s"
    using assms(1) by (auto simp: tx_codec_at_def codec_at_def)
  moreover from this have "get_data db' (transactionKey (HashOf s)) = contentPrefixSequencer @ d"
    using assms(2) TxiSeq by (simp add: WriteTransaction_def get_data_Put)
  ultimately show ?thesis
    using TxiSeq prefix_simps by (simp add: ReadTransaction_def Let_def)
qed

lemma WriteTransaction_other:
  "WriteTransaction C db tx = (r, db') \<Longrightarrow> k \<noteq> transactionKey (GetTxHash tx)
    \<Longrightarrow> get_data db' k = get_data db k"
  by (auto simp: WriteTransaction_def Let_def get_data_Put_other split: Txi.splits sum.splits)

lemma codec_atI: "m x = Inr d \<Longrightarrow> d \<noteq> [] \<Longrightarrow> un d = Inr x \<Longrightarrow> codec_at m un x"
  by (auto simp: codec_at_def)

lemma Accessor_SetBalance_stores:
  assumes "\<And>n. codec_at (marshalBigInt C) (unmarshalBigInt C) n" "\<And>k. \<not> put_fails db k" "0 \<le> n"
  shows "\<exists>db'. Accessor_SetBalance C db a n = ((None, n), db') \<and> ReadBalance C db' a = Some n
     \<and> (\<forall>a'. a' \<noteq> a \<longrightarrow> ReadBalance C db' a' = ReadBalance C db a')"
proof -
  obtain d where d: "marshalBigInt C n = Inr d" using assms(1) [of n] by (auto simp: codec_at_def)
  let ?db' = "snd (Put db (addressBalanceKey a) d)"
  have p: "put_marshalled db (addressBalanceKey a) (marshalBigInt C n) = (None, ?db')"
    using d assms(2) by (simp add: put_marshalled_def Put_def)
  have "ReadBalance C ?db' a = Some n"
    using marshalled_roundtrip [OF assms(1) p] by (simp add: ReadBalance_def)
  moreover have "ReadBalance C ?db' a' = ReadBalance C db a'" if "a' \<noteq> a" for a'
    using put_marshalled_other [OF p, of "addressBalanceKey a'"] that key_neq [of "KBalance a'" "KBalance a"]
    by (simp add: ReadBalance_def)
  ultimately show ?thesis
    using p assms(3) by (auto simp: Accessor_SetBalance_def must_be_positive_def Let_def)
qed

section \<open>Properties\<close>

text \<open>C14: the keys of the store never collide: two keys of any kinds and arguments have the same
  bytes only if they are the same key.\<close>

theorem db_keys_injective: "inj key_bytes"
  by (rule injI) (simp add: key_bytes_eq)

text \<open>C15: a transaction or sequencer that was written is read back as itself under its hash, and no
  other entry of the store has changed: not another transaction, nor the genesis, the latest
  sequencer, receipts, indices, balances or trie nodes.\<close>

theorem transaction_roundtrip:
  assumes "tx_codec_at C tx" "WriteTransaction C db tx = (None, db')"
  shows "ReadTransaction C db' (GetTxHash tx) = Some (Some tx)
     \<and> (\<forall>h. h \<noteq> GetTxHash tx \<longrightarrow> ReadTransaction C db' h = ReadTransaction C db h)
     \<and> (\<forall>k. k \<noteq> KTx (GetTxHash tx) \<longrightarrow> get_data db' (key_bytes k) = get_data db (key_bytes k))"
proof -
  have other: "get_data db' (key_bytes k) = get_data db (key_bytes k)" if "k \<noteq> KTx (GetTxHash tx)" for k
    using WriteTransaction_other [OF assms(2)] that key_neq [of k "KTx (GetTxHash tx)"] by simp
  have "ReadTransaction C db' h = ReadTransaction C db h" if "h \<noteq> GetTxHash tx" for h
    using other [of "KTx h"] that by (intro ReadTransaction_cong) simp
  then show ?thesis using Read_WriteTransaction [OF assms] other by blast
qed

definition codec0 :: codec where
  "codec0 = \<lparr>marshalSeq = (\<lambda>s. Inr [1]), unmarshalSeq = (\<lambda>_. Inl ErrUnmarshal),
     marshalTx = (\<lambda>t. Inr (1 # word_bytes 8 (AccountNonce t))),
     unmarshalTx = (\<lambda>d. Inr \<lparr>TypeOf = 0, HashOf = 7, ParentsHash = [], AccountNonce = word_of_nat (bytes_val (tl d)),
        Height = 0, PublicKey = [], Signature = [], MineNonce = 0, Weight = 0, From = 1, To = 2, Value = 3, Data = []\<rparr>),
     marshalHashes = (\<lambda>_. Inr [1]), unmarshalHashes = (\<lambda>_. Inl ErrUnmarshal),
     marshalReceipts = (\<lambda>_. Inr [1]), unmarshalReceipts = (\<lambda>_. Inl ErrUnmarshal),
     marshalConfirmTime = (\<lambda>_. Inr [1]), unmarshalConfirmTime = (\<lambda>_. Inl ErrUnmarshal),
     marshalBigInt = (\<lambda>v. Inr ((if v < 0 then 1 else 0) # GetBytes v)),
     unmarshalBigInt = (\<lambda>d. Inr ((if hd d = 1 then -1 else 1) * int (bytes_val (tl d))))\<rparr>"

definition tx7 :: Tx where
  "tx7 = \<lparr>TypeOf = 0, HashOf = 7, ParentsHash = [], AccountNonce = 4, Height = 0, PublicKey = [],
          Signature = [], MineNonce = 0, Weight = 0, From = 1, To = 2, Value = 3, Data = []\<rparr>"

lemma tx7_codec: "tx_codec_at codec0 (TxiTx tx7)"
proof -
  have "word_of_nat (bytes_val (word_bytes 8 (4::uint64))) = (4::uint64)"
    by (simp add: bytes_val_word_full)
  then show ?thesis by (simp add: tx_codec_at_def codec_at_def codec0_def tx7_def)
qed

theorem transaction_roundtrip_witness:
  "\<exists>db'. WriteTransaction codec0 NewMemDatabase (TxiTx tx7) = (None, db')
     \<and> ReadTransaction codec0 db' 7 = Some (Some (TxiTx tx7))"
proof -
  have "\<exists>db'. WriteTransaction codec0 NewMemDatabase (TxiTx tx7) = (None, db')"
    by (simp add: WriteTransaction_def codec0_def Put_def NewMemDatabase_def)
  then obtain db' where w: "WriteTransaction codec0 NewMemDatabase (TxiTx tx7) = (None, db')" by blast
  with transaction_roundtrip [OF tx7_codec w] show ?thesis by (auto simp: tx7_def)
qed

text \<open>C30: the positivity guards of \<^verbatim>\<open>SetBalance\<close>, \<^verbatim>\<open>AddBalance\<close> and \<^verbatim>\<open>SubBalance\<close> never fire: a
  negative number is not refused but replaced by its absolute value, in the store and in the
  caller's number.\<close>

theorem balance_guards_never_fire:
  "fst (fst (Accessor_SetBalance C db a v)) = fst (fst (Accessor_SetBalance C db a \<bar>v\<bar>))
   \<and> snd (Accessor_SetBalance C db a v) = snd (Accessor_SetBalance C db a \<bar>v\<bar>)
   \<and> snd (fst (Accessor_SetBalance C db a v)) = \<bar>v\<bar>
   \<and> Accessor_AddBalance C db a v = Accessor_AddBalance C db a \<bar>v\<bar>
   \<and> Accessor_SubBalance C db a v = Accessor_SubBalance C db a \<bar>v\<bar>
   \<and> fst (must_be_positive v) = False"
  by (simp add: Accessor_SetBalance_def Accessor_AddBalance_def Accessor_SubBalance_def
      must_be_positive_def Let_def split: prod.splits)

text \<open>C29: on non-negative balances \<^verbatim>\<open>AddBalance\<close> adds, \<^verbatim>\<open>SubBalance\<close> subtracts or refuses an amount
  above the balance and then leaves the store as it was; other addresses keep their balance.\<close>

theorem accessor_balance_arithmetic:
  assumes "\<And>n. codec_at (marshalBigInt C) (unmarshalBigInt C) n" "\<And>k. \<not> put_fails db k"
    and "ReadBalance C db a = Some b" "0 \<le> b" "0 \<le> v"
  shows "(\<exists>db'. Accessor_AddBalance C db a v = ((None, v), db') \<and> ReadBalance C db' a = Some (b + v)
       \<and> (\<forall>a'. a' \<noteq> a \<longrightarrow> ReadBalance C db' a' = ReadBalance C db a'))
     \<and> (if v \<le> b
        then \<exists>db'. Accessor_SubBalance C db a v = ((None, v), db') \<and> ReadBalance C db' a = Some (b - v)
           \<and> (\<forall>a'. a' \<noteq> a \<longrightarrow> ReadBalance C db' a' = ReadBalance C db a')
        else Accessor_SubBalance C db a v = ((Some ErrBalanceLow, v), db))"
proof -
  note set = Accessor_SetBalance_stores [OF assms(1,2)]
  obtain db1 where "Accessor_SetBalance C db a (b + v) = ((None, b + v), db1)"
    "ReadBalance C db1 a = Some (b + v)" "\<forall>a'. a' \<noteq> a \<longrightarrow> ReadBalance C db1 a' = ReadBalance C db a'"
    using set [of "b + v" a] assms(4,5) by auto
  moreover have "\<exists>db2. Accessor_SetBalance C db a (b - v) = ((None, b - v), db2)
      \<and> ReadBalance C db2 a = Some (b - v) \<and> (\<forall>a'. a' \<noteq> a \<longrightarrow> ReadBalance C db2 a' = ReadBalance C db a')"
    if "v \<le> b"
    using set [of "b - v" a] that by auto
  ultimately show ?thesis
    using assms(3-5)
    by (auto simp: Accessor_AddBalance_def Accessor_SubBalance_def must_be_positive_def Let_def)
qed

lemma codec0_BigInt: "codec_at (marshalBigInt codec0) (unmarshalBigInt codec0) n"
  by (auto simp: codec_at_def codec0_def GetBytes_def)

theorem accessor_balance_arithmetic_witness:
  "\<exists>db'. Accessor_AddBalance codec0 NewMemDatabase 5 9 = ((None, 9), db') \<and> ReadBalance codec0 db' 5 = Some 9"
proof -
  have "\<not> put_fails NewMemDatabase k" for k by (simp add: NewMemDatabase_def)
  moreover have "ReadBalance codec0 NewMemDatabase 5 = Some 0"
    by (simp add: ReadBalance_def get_data_kv NewMemDatabase_def)
  ultimately show ?thesis
    using accessor_balance_arithmetic [of codec0 NewMemDatabase 5 0 9, OF codec0_BigInt] by auto
qed

end
