(* ===== verification/AccountFlow.thy ===== *)
theory AccountFlow
  imports OGTypes
begin

text \<open>
  \<^verbatim>\<open>src/core/account_flow.go\<close>: for each sender with transactions in the pool, the nonce-sorted
  list of those transactions (\<open>TxList\<close>) and the balance they may still spend
  (\<open>BalanceState\<close>). The nonces are kept in a slice managed by Go's \<^verbatim>\<open>container/heap\<close>, whose
  \<^verbatim>\<open>up\<close>, \<^verbatim>\<open>down\<close>, \<^verbatim>\<open>Push\<close> and \<^verbatim>\<open>Remove\<close> are modelled as they are in the standard library.
\<close>

section \<open>The nonce heap\<close>

function heap_up :: "uint64 list \<Rightarrow> nat \<Rightarrow> uint64 list" where
  "heap_up h j =
     (let i = (j - 1) div 2 in
      if i = j \<or> \<not> h ! j < h ! i then h else heap_up (list_swap h i j) i)"
  by pat_completeness auto
termination
  by (relation "measure snd") auto

function heap_down :: "uint64 list \<Rightarrow> nat \<Rightarrow> nat \<Rightarrow> uint64 list \<times> nat" where
  "heap_down h i n =
     (let j1 = 2 * i + 1 in
      if n \<le> j1 then (h, i)
      else let j = (if j1 + 1 < n \<and> h ! (j1 + 1) < h ! j1 then j1 + 1 else j1) in
        if \<not> h ! j < h ! i then (h, i) else heap_down (list_swap h i j) j n)"
  by pat_completeness auto
termination
  by (relation "measure (\<lambda>(h, i, n). n - i)") (auto split: if_splits)

declare heap_up.simps [simp del] heap_down.simps [simp del]

definition nonceHeap_Push :: "uint64 list \<Rightarrow> uint64 \<Rightarrow> uint64 list" where
  "nonceHeap_Push n x = n @ [x]"

definition nonceHeap_Pop :: "uint64 list \<Rightarrow> uint64 \<times> uint64 list" where
  "nonceHeap_Pop old = (last old, butlast old)"

definition heap_Push :: "uint64 list \<Rightarrow> uint64 \<Rightarrow> uint64 list" where
  "heap_Push h x = heap_up (nonceHeap_Push h x) (length (nonceHeap_Push h x) - 1)"

text \<open>\<^verbatim>\<open>heap.Remove\<close>: \<^verbatim>\<open>down\<close> reports whether it moved the element, otherwise \<^verbatim>\<open>up\<close> is tried.\<close>

definition heap_Remove :: "uint64 list \<Rightarrow> nat \<Rightarrow> uint64 list" where
  "heap_Remove h i =
     (let n = length h - 1 in
      if n \<noteq> i then
        (case heap_down (list_swap h i n) i n of (h', i') \<Rightarrow>
           snd (nonceHeap_Pop (if i' > i then h' else heap_up h' i)))
      else snd (nonceHeap_Pop h))"

text \<open>\<^verbatim>\<open>nonceHeap.Tail\<close> sorts the slice in place and returns its last element.\<close>

definition nonceHeap_Tail :: "uint64 list \<Rightarrow> uint64 \<times> uint64 list" where
  "nonceHeap_Tail n = (last (sort n), sort n)"

section \<open>TxList\<close>

record TxList =
  keys :: "uint64 list"
  txflow :: "uint64 \<rightharpoonup> Txi"

definition NewTxList :: TxList where
  "NewTxList = \<lparr>keys = [], txflow = Map.empty\<rparr>"

definition TxList_Len :: "TxList \<Rightarrow> nat" where
  "TxList_Len t = length (keys t)"

definition TxList_get :: "TxList \<Rightarrow> uint64 \<Rightarrow> Txi option" where
  "TxList_get t nonce = txflow t nonce"

definition TxList_put :: "TxList \<Rightarrow> Txi \<Rightarrow> TxList" where
  "TxList_put t txi =
     (let nonce = GetNonce txi in
      case txflow t nonce of
        None \<Rightarrow> t\<lparr>keys := heap_Push (keys t) nonce, txflow := (txflow t)(nonce \<mapsto> txi)\<rparr>
      | Some _ \<Rightarrow> t)"

lemma length_heap_up [simp]: "length (heap_up h j) = length h"
  by (induction h j rule: heap_up.induct) (subst heap_up.simps, auto simp: Let_def)

lemma length_heap_down [simp]: "length (fst (heap_down h i n)) = length h"
  by (induction h i n rule: heap_down.induct) (subst heap_down.simps, auto simp: Let_def)

lemma length_heap_down_eq: "heap_down h i n = (h', k) \<Longrightarrow> length h' = length h"
  by (metis fst_conv length_heap_down)

lemma length_heap_Remove [simp]: "length (heap_Remove h i) = length h - 1"
  by (auto simp: heap_Remove_def nonceHeap_Pop_def Let_def dest!: length_heap_down_eq
      split: prod.splits)

text \<open>The loop of \<^verbatim>\<open>TxList.remove\<close> does not stop at the first match; it goes on with the next
  index of the shortened slice.\<close>

function TxList_remove_loop :: "uint64 \<Rightarrow> nat \<Rightarrow> uint64 list \<Rightarrow> uint64 list" where
  "TxList_remove_loop nonce i ks =
     (if i < length ks then
        (if ks ! i = nonce then TxList_remove_loop nonce (Suc i) (heap_Remove ks i)
         else TxList_remove_loop nonce (Suc i) ks)
      else ks)"
  by pat_completeness auto
termination
  by (relation "measure (\<lambda>(nonce, i, ks). length ks - i)") auto

declare TxList_remove_loop.simps [simp del]

definition TxList_remove :: "TxList \<Rightarrow> uint64 \<Rightarrow> bool \<times> TxList" where
  "TxList_remove t nonce =
     (case txflow t nonce of
        None \<Rightarrow> (False, t)
      | Some _ \<Rightarrow> (True, t\<lparr>keys := TxList_remove_loop nonce 0 (keys t),
                         txflow := (txflow t)(nonce := None)\<rparr>))"

section \<open>BalanceState\<close>

record BalanceState =
  spent :: int
  originBalance :: int

definition NewBalanceState :: "int \<Rightarrow> BalanceState" where
  "NewBalanceState b = \<lparr>spent = 0, originBalance = b\<rparr>"

definition TrySubBalance :: "BalanceState \<Rightarrow> int \<Rightarrow> error + BalanceState" where
  "TrySubBalance bs v =
     (let totalspent = spent bs + v in
      if totalspent > originBalance bs then Inl ErrBalanceLow
      else Inr (bs\<lparr>spent := totalspent\<rparr>))"

definition TryRemoveValue :: "BalanceState \<Rightarrow> int \<Rightarrow> error + BalanceState" where
  "TryRemoveValue bs txValue =
     (if spent bs < txValue then Inl ErrRemoveTooMuch
      else Inr (bs\<lparr>spent := spent bs - txValue,
                   originBalance := originBalance bs - txValue\<rparr>))"

section \<open>AccountFlow\<close>

record AccountFlow =
  balance :: BalanceState
  txlist :: TxList

definition NewAccountFlow :: "int \<Rightarrow> AccountFlow" where
  "NewAccountFlow origin = \<lparr>balance = NewBalanceState origin, txlist = NewTxList\<rparr>"

definition AccountFlow_Len :: "AccountFlow \<Rightarrow> nat" where
  "AccountFlow_Len af = TxList_Len (txlist af)"

definition AccountFlow_GetTx :: "AccountFlow \<Rightarrow> uint64 \<Rightarrow> Txi option" where
  "AccountFlow_GetTx af nonce = TxList_get (txlist af) nonce"

definition AccountFlow_Add :: "AccountFlow \<Rightarrow> Txi \<Rightarrow> error + AccountFlow" where
  "AccountFlow_Add af tx =
     (case TxList_get (txlist af) (GetNonce tx) of
        Some _ \<Rightarrow> Inl ErrAlreadyExists
      | None \<Rightarrow>
          (case TrySubBalance (balance af) (GetValue tx) of
             Inl err \<Rightarrow> Inl err
           | Inr b \<Rightarrow> Inr (af\<lparr>balance := b, txlist := TxList_put (txlist af) tx\<rparr>)))"

definition AccountFlow_Remove :: "AccountFlow \<Rightarrow> uint64 \<Rightarrow> error + AccountFlow" where
  "AccountFlow_Remove af nonce =
     (case TxList_get (txlist af) nonce of
        None \<Rightarrow> Inr af
      | Some tx \<Rightarrow>
          (case TryRemoveValue (balance af) (GetValue tx) of
             Inl err \<Rightarrow> Inl err
           | Inr b \<Rightarrow> Inr (af\<lparr>balance := b, txlist := snd (TxList_remove (txlist af) nonce)\<rparr>)))"

text \<open>\<^verbatim>\<open>LatestNonce\<close> returns the largest nonce and leaves the key slice sorted.\<close>

definition AccountFlow_LatestNonce :: "AccountFlow \<Rightarrow> error + (uint64 \<times> AccountFlow)" where
  "AccountFlow_LatestNonce af =
     (if \<not> TxList_Len (txlist af) > 0 then Inl ErrFlowEmpty
      else case nonceHeap_Tail (keys (txlist af)) of (n, ks) \<Rightarrow>
        Inr (n, af\<lparr>txlist := (txlist af)\<lparr>keys := ks\<rparr>\<rparr>))"

section \<open>AccountFlows\<close>

record AccountFlows =
  afs :: "Address \<rightharpoonup> AccountFlow"

definition NewAccountFlows :: AccountFlows where
  "NewAccountFlows = \<lparr>afs = Map.empty\<rparr>"

text \<open>\<^verbatim>\<open>AccountFlows.Add\<close> drops the error of \<^verbatim>\<open>AccountFlow.Add\<close>.\<close>

definition AccountFlows_Add :: "AccountFlows \<Rightarrow> Txi \<Rightarrow> AccountFlows" where
  "AccountFlows_Add a tx =
     (case afs a (Sender tx) of
        None \<Rightarrow> a
      | Some f \<Rightarrow>
          (case AccountFlow_Add f tx of
             Inl _ \<Rightarrow> a
           | Inr f' \<Rightarrow> a\<lparr>afs := (afs a)(Sender tx \<mapsto> f')\<rparr>))"

definition AccountFlows_Get :: "AccountFlows \<Rightarrow> Address \<Rightarrow> AccountFlow option" where
  "AccountFlows_Get a addr = afs a addr"

definition AccountFlows_GetBalanceState :: "AccountFlows \<Rightarrow> Address \<Rightarrow> BalanceState option" where
  "AccountFlows_GetBalanceState a addr =
     (case AccountFlows_Get a addr of None \<Rightarrow> None | Some af \<Rightarrow> Some (balance af))"

definition AccountFlows_GetTxByNonce :: "AccountFlows \<Rightarrow> Address \<Rightarrow> uint64 \<Rightarrow> Txi option" where
  "AccountFlows_GetTxByNonce a addr nonce =
     (case afs a addr of None \<Rightarrow> None | Some flow \<Rightarrow> AccountFlow_GetTx flow nonce)"

definition AccountFlows_GetLatestNonce ::
    "AccountFlows \<Rightarrow> Address \<Rightarrow> error + (uint64 \<times> AccountFlows)" where
  "AccountFlows_GetLatestNonce a addr =
     (case afs a addr of
        None \<Rightarrow> Inl ErrNoFlow
      | Some flow \<Rightarrow>
          (if \<not> AccountFlow_Len flow > 0 then Inl ErrFlowEmpty
           else case AccountFlow_LatestNonce flow of
             Inl err \<Rightarrow> Inl err
           | Inr (n, flow') \<Rightarrow> Inr (n, a\<lparr>afs := (afs a)(addr \<mapsto> flow')\<rparr>)))"

definition AccountFlows_ResetFlow :: "AccountFlows \<Rightarrow> Address \<Rightarrow> int \<Rightarrow> AccountFlows" where
  "AccountFlows_ResetFlow a addr origin = a\<lparr>afs := (afs a)(addr \<mapsto> NewAccountFlow origin)\<rparr>"

definition AccountFlows_Remove :: "AccountFlows \<Rightarrow> Txi \<Rightarrow> AccountFlows" where
  "AccountFlows_Remove a tx =
     (case afs a (Sender tx) of
        None \<Rightarrow> a
      | Some flow \<Rightarrow>
          (let flow' = (case AccountFlow_Remove flow (GetNonce tx) of Inl _ \<Rightarrow> flow | Inr f \<Rightarrow> f)
           in if AccountFlow_Len flow' = 0 then a\<lparr>afs := (afs a)(Sender tx := None)\<rparr>
              else a\<lparr>afs := (afs a)(Sender tx \<mapsto> flow')\<rparr>))"

section \<open>The heap keeps the nonces\<close>

lemma mset_heap_up [simp]: "j < length h \<Longrightarrow> mset (heap_up h j) = mset h"
proof (induction h j rule: heap_up.induct)
  case (1 h j)
  show ?case
  proof (cases "(j - 1) div 2 = j \<or> \<not> h ! j < h ! ((j - 1) div 2)")
    case True
    then show ?thesis by (simp add: heap_up.simps [of h j])
  next
    case False
    let ?i = "(j - 1) div 2"
    have i: "?i < length h" using "1.prems" by simp
    have "mset (heap_up (list_swap h ?i j) ?i) = mset (list_swap h ?i j)"
      using "1.IH" False i by simp
    then show ?thesis
      using False "1.prems" i by (simp add: heap_up.simps [of h j] Let_def)
  qed
qed

lemma heap_down_spec:
  "n \<le> length h \<Longrightarrow> heap_down h i n = (h', k) \<Longrightarrow>
   mset h' = mset h \<and> i \<le> k \<and> (\<forall>m. n \<le> m \<longrightarrow> h' ! m = h ! m)"
proof (induction h i n arbitrary: h' k rule: heap_down.induct)
  case (1 h i n)
  let ?j1 = "2 * i + 1"
  define j where "j = (if ?j1 + 1 < n \<and> h ! (?j1 + 1) < h ! ?j1 then ?j1 + 1 else ?j1)"
  show ?case
  proof (cases "n \<le> ?j1 \<or> \<not> h ! j < h ! i")
    case True
    then have "heap_down h i n = (h, i)"
      by (auto simp: heap_down.simps [of h i n] Let_def j_def)
    then show ?thesis using "1.prems" by simp
  next
    case False
    then have jn: "j < n" and ij: "i < j"
      by (auto simp: j_def split: if_splits)
    have rec: "heap_down (list_swap h i j) j n = (h', k)"
      using "1.prems"(2) False by (auto simp: heap_down.simps [of h i n] Let_def j_def split: if_splits)
    have "mset h' = mset (list_swap h i j) \<and> j \<le> k
        \<and> (\<forall>m. n \<le> m \<longrightarrow> h' ! m = list_swap h i j ! m)"
      using "1.IH" [OF refl _ j_def _ _ rec] False "1.prems"(1) by simp
    moreover have "mset (list_swap h i j) = mset h"
      using "1.prems"(1) jn ij by simp
    moreover have "\<forall>m. n \<le> m \<longrightarrow> list_swap h i j ! m = h ! m"
      using jn ij by (auto simp: list_swap_def)
    ultimately show ?thesis using ij by simp
  qed
qed

lemma heap_up_above: "j < m \<Longrightarrow> heap_up h j ! m = h ! m"
proof (induction h j rule: heap_up.induct)
  case (1 h j)
  show ?case
  proof (cases "(j - 1) div 2 = j \<or> \<not> h ! j < h ! ((j - 1) div 2)")
    case True
    then show ?thesis by (simp add: heap_up.simps [of h j])
  next
    case False
    then have "heap_up (list_swap h ((j - 1) div 2) j) ((j - 1) div 2) ! m
        = list_swap h ((j - 1) div 2) j ! m"
      using "1.IH" [OF refl] "1.prems" by simp
    then show ?thesis
      using False "1.prems" by (simp add: heap_up.simps [of h j] Let_def list_swap_def)
  qed
qed

lemma mset_heap_Push [simp]: "mset (heap_Push h x) = add_mset x (mset h)"
  by (simp add: heap_Push_def nonceHeap_Push_def)

text \<open>The element that \<^verbatim>\<open>Remove\<close> swaps to the end is the one \<^verbatim>\<open>Pop\<close> drops.\<close>

lemma mset_butlast: "xs \<noteq> [] \<Longrightarrow> mset (butlast xs) = mset xs - {#last xs#}"
  by (metis add_mset_add_single append_butlast_last_id diff_union_cancelR mset.simps(1)
      mset.simps(2) union_code)

lemma mset_heap_Remove:
  assumes "i < length h"
  shows "mset (heap_Remove h i) = mset h - {#h ! i#}"
proof (cases "length h - 1 = i")
  case True
  then have "last h = h ! i"
    using assms by (cases "h = []") (auto simp: last_conv_nth)
  then show ?thesis
    using True assms mset_butlast [of h]
    by (cases "h = []") (auto simp: heap_Remove_def nonceHeap_Pop_def Let_def)
next
  case False
  let ?n = "length h - 1"
  let ?s = "list_swap h i ?n"
  obtain h' k where hd: "heap_down ?s i ?n = (h', k)"
    by (cases "heap_down ?s i ?n")
  have sp: "mset h' = mset ?s" "\<forall>m. ?n \<le> m \<longrightarrow> h' ! m = ?s ! m"
    using heap_down_spec [OF _ hd] by auto
  have len: "length h' = length h"
    using length_heap_down_eq [OF hd] by simp
  have ms: "mset ?s = mset h" using assms by simp
  have end_s: "?s ! ?n = h ! i"
    using assms False by (simp add: list_swap_def)
  define g where "g = (if k > i then h' else heap_up h' i)"
  have "mset g = mset h"
    using sp(1) ms assms len by (simp add: g_def)
  moreover have "length g = length h" using len by (simp add: g_def)
  moreover have "g ! ?n = h ! i"
    using sp(2) end_s assms False heap_up_above [of i ?n h'] by (auto simp: g_def)
  moreover have "g \<noteq> []" using calculation(2) assms by auto
  ultimately have "mset (butlast g) = mset h - {#h ! i#}"
    using mset_butlast [of g] by (simp add: last_conv_nth)
  then show ?thesis
    using False hd by (simp add: heap_Remove_def nonceHeap_Pop_def Let_def g_def)
qed

lemma mset_remove_loop_absent:
  "nonce \<notin> set ks \<Longrightarrow> TxList_remove_loop nonce i ks = ks"
  by (induction nonce i ks rule: TxList_remove_loop.induct)
    (subst TxList_remove_loop.simps, auto)

lemma mset_remove_loop:
  assumes "distinct ks" and "i \<le> length ks" and "nonce \<in> set (drop i ks)"
  shows "mset (TxList_remove_loop nonce i ks) = mset ks - {#nonce#}"
  using assms
proof (induction nonce i ks rule: TxList_remove_loop.induct)
  case (1 nonce i ks)
  have i: "i < length ks"
    using "1.prems"(2,3) by (metis drop_all empty_iff empty_set not_le)
  show ?case
  proof (cases "ks ! i = nonce")
    case True
    have m: "mset (heap_Remove ks i) = mset ks - {#nonce#}"
      using mset_heap_Remove [OF i] True by simp
    then have "nonce \<notin> set (heap_Remove ks i)"
      using "1.prems"(1)
      by (metis count_diff count_single distinct_count_atmost_1 diff_self_eq_0 count_mset_0_iff
          i True nth_mem)
    then show ?thesis
      using i True m by (simp add: TxList_remove_loop.simps [of nonce i ks] mset_remove_loop_absent)
  next
    case False
    then have "nonce \<in> set (drop (Suc i) ks)"
      using "1.prems"(3) i by (metis Cons_nth_drop_Suc set_ConsD)
    then show ?thesis
      using "1.IH"(2) False i "1.prems"(1) by (simp add: TxList_remove_loop.simps [of nonce i ks])
  qed
qed

section \<open>The contract of a nonce-indexed list\<close>

text \<open>What \<open>AccountFlow\<close> relies on: a finite map from nonces to transactions, whose length is the
  number of its nonces.\<close>

definition flow_total :: "(uint64 \<rightharpoonup> Txi) \<Rightarrow> int" where
  "flow_total m = (\<Sum>n \<in> dom m. GetValue (the (m n)))"

locale nonce_list =
  fixes new :: 'l
    and put :: "'l \<Rightarrow> Txi \<Rightarrow> 'l"
    and rem :: "'l \<Rightarrow> uint64 \<Rightarrow> 'l"
    and get :: "'l \<Rightarrow> uint64 \<Rightarrow> Txi option"
    and len :: "'l \<Rightarrow> nat"
    and ok :: "'l \<Rightarrow> bool"
  assumes ok_new: "ok new"
    and ok_put: "ok l \<Longrightarrow> ok (put l x)"
    and ok_rem: "ok l \<Longrightarrow> ok (rem l n)"
    and get_new: "get new = Map.empty"
    and get_put: "ok l \<Longrightarrow> get (put l x) =
        (if get l (GetNonce x) = None then (get l)(GetNonce x \<mapsto> x) else get l)"
    and get_rem: "ok l \<Longrightarrow> get (rem l n) = (get l)(n := None)"
    and get_nonce: "ok l \<Longrightarrow> get l n = Some x \<Longrightarrow> GetNonce x = n"
    and finite_get: "ok l \<Longrightarrow> finite (dom (get l))"
    and len_card: "ok l \<Longrightarrow> len l = card (dom (get l))"
begin

lemma total_new: "flow_total (get new) = 0"
  by (simp add: flow_total_def get_new)

lemma total_put:
  assumes "ok l" and "get l (GetNonce x) = None"
  shows "flow_total (get (put l x)) = flow_total (get l) + GetValue x"
proof -
  have nd: "GetNonce x \<notin> dom (get l)" using assms(2) by blast
  have "(\<Sum>n \<in> dom (get l). GetValue (the (((get l)(GetNonce x \<mapsto> x)) n)))
      = (\<Sum>n \<in> dom (get l). GetValue (the (get l n)))"
    using nd by (intro sum.cong) auto
  then show ?thesis
    using assms nd finite_get [OF assms(1)] by (simp add: flow_total_def get_put)
qed

lemma total_rem:
  assumes "ok l" and "get l n = Some x"
  shows "flow_total (get (rem l n)) = flow_total (get l) - GetValue x"
proof -
  have nd: "n \<in> dom (get l)" using assms(2) by blast
  have "(\<Sum>k \<in> dom (get l) - {n}. GetValue (the (((get l)(n := None)) k)))
      = (\<Sum>k \<in> dom (get l) - {n}. GetValue (the (get l k)))"
    by (intro sum.cong) auto
  then show ?thesis
    using assms nd finite_get [OF assms(1)]
    by (simp add: flow_total_def get_rem sum.remove [of "dom (get l)" n])
qed

lemma len_0_iff: "ok l \<Longrightarrow> len l = 0 \<longleftrightarrow> get l = Map.empty"
  using finite_get [of l] by (auto simp: len_card)

lemma value_le_total:
  assumes "ok l" and "get l n = Some x" and "\<And>k y. get l k = Some y \<Longrightarrow> 0 \<le> GetValue y"
  shows "GetValue x \<le> flow_total (get l)"
proof -
  have "GetValue (the (get l n)) \<le> (\<Sum>k \<in> dom (get l). GetValue (the (get l k)))"
    using assms by (intro member_le_sum) (auto simp: finite_get)
  then show ?thesis using assms(2) by (simp add: flow_total_def)
qed

end

definition TxList_ok :: "TxList \<Rightarrow> bool" where
  "TxList_ok t \<longleftrightarrow> distinct (keys t) \<and> set (keys t) = dom (txflow t)
     \<and> (\<forall>n x. txflow t n = Some x \<longrightarrow> GetNonce x = n)"

lemma TxList_put_keys:
  assumes "TxList_ok t" and "txflow t (GetNonce x) = None"
  shows "distinct (keys (TxList_put t x)) \<and> set (keys (TxList_put t x)) = insert (GetNonce x) (set (keys t))"
proof -
  have m: "mset (keys (TxList_put t x)) = mset (GetNonce x # keys t)"
    using assms(2) by (simp add: TxList_put_def Let_def)
  have "distinct (GetNonce x # keys t)"
    using assms by (auto simp: TxList_ok_def)
  then show ?thesis
    using m by (metis list.simps(15) mset_eq_imp_distinct_iff mset_eq_setD)
qed

lemma TxList_remove_keys:
  assumes "TxList_ok t" and "txflow t n = Some x"
  shows "distinct (keys (snd (TxList_remove t n)))
    \<and> set (keys (snd (TxList_remove t n))) = set (keys t) - {n}"
proof -
  have d: "distinct (keys t)" and mem: "n \<in> set (keys t)"
    using assms by (auto simp: TxList_ok_def)
  have m: "mset (keys (snd (TxList_remove t n))) = mset (remove1 n (keys t))"
    using assms(2) mset_remove_loop [OF d, of 0 n] mem by (simp add: TxList_remove_def)
  have "distinct (remove1 n (keys t))" and "set (remove1 n (keys t)) = set (keys t) - {n}"
    using d by (simp_all add: set_remove1_eq)
  then show ?thesis
    using m by (metis mset_eq_imp_distinct_iff mset_eq_setD)
qed

interpretation txl: nonce_list NewTxList TxList_put "\<lambda>t n. snd (TxList_remove t n)"
  TxList_get TxList_Len TxList_ok
proof (unfold_locales, goal_cases)
  case 1
  show ?case by (simp add: TxList_ok_def NewTxList_def)
next
  case (2 l x)
  then show ?case
    using TxList_put_keys [of l x]
    by (cases "txflow l (GetNonce x)") (auto simp: TxList_ok_def TxList_put_def Let_def)
next
  case (3 l n)
  then show ?case
    using TxList_remove_keys [of l n]
    by (cases "txflow l n") (auto simp: TxList_ok_def TxList_remove_def split: if_splits)
next
  case 4
  show ?case by (simp add: TxList_get_def NewTxList_def fun_eq_iff)
next
  case (5 l x)
  show ?case
    by (auto simp: TxList_get_def TxList_put_def Let_def fun_eq_iff split: option.splits)
next
  case (6 l n)
  show ?case
    by (auto simp: TxList_get_def TxList_remove_def fun_eq_iff split: option.splits)
next
  case (7 l n x)
  then show ?case by (simp add: TxList_ok_def TxList_get_def)
next
  case (8 l)
  then have "dom (txflow l) = set (keys l)" by (simp add: TxList_ok_def)
  then have "dom (TxList_get l) = set (keys l)" by (auto simp: TxList_get_def dom_def)
  then show ?case by simp
next
  case (9 l)
  then have "dom (TxList_get l) = set (keys l)" by (auto simp: TxList_ok_def TxList_get_def dom_def)
  then show ?case
    using 9 distinct_card [of "keys l"] by (simp add: TxList_Len_def TxList_ok_def)
qed

section \<open>The flow invariant\<close>

text \<open>\<open>AccountFlow_ok\<close>: the list is well formed, the amount recorded as spent is the sum of the
  values of the listed transactions, none of them negative, and it is covered by the origin
  balance.\<close>

definition AccountFlow_ok :: "AccountFlow \<Rightarrow> bool" where
  "AccountFlow_ok af \<longleftrightarrow> TxList_ok (txlist af)
     \<and> spent (balance af) = flow_total (txflow (txlist af))
     \<and> spent (balance af) \<le> originBalance (balance af)
     \<and> (\<forall>n x. txflow (txlist af) n = Some x \<longrightarrow> 0 \<le> GetValue x)"

lemma TxList_get_txflow: "TxList_get t = txflow t"
  by (simp add: TxList_get_def fun_eq_iff)

lemmas txl_facts = txl.get_put [unfolded TxList_get_txflow] txl.get_rem [unfolded TxList_get_txflow]
  txl.total_put [unfolded TxList_get_txflow] txl.total_rem [unfolded TxList_get_txflow]
  txl.ok_put txl.ok_rem txl.ok_new

lemma AccountFlow_ok_new: "0 \<le> origin \<Longrightarrow> AccountFlow_ok (NewAccountFlow origin)"
  using txl.ok_new
  by (simp add: AccountFlow_ok_def NewAccountFlow_def NewBalanceState_def NewTxList_def
      flow_total_def)

lemma AccountFlow_Add_cases:
  "AccountFlow_Add af tx =
     (if txflow (txlist af) (GetNonce tx) \<noteq> None then Inl ErrAlreadyExists
      else if spent (balance af) + GetValue tx > originBalance (balance af) then Inl ErrBalanceLow
      else Inr (af\<lparr>balance := (balance af)\<lparr>spent := spent (balance af) + GetValue tx\<rparr>,
                   txlist := TxList_put (txlist af) tx\<rparr>))"
  by (simp add: AccountFlow_Add_def TxList_get_def TrySubBalance_def Let_def split: option.splits)

lemma AccountFlow_ok_Add:
  assumes "AccountFlow_ok af" and "0 \<le> GetValue tx" and "AccountFlow_Add af tx = Inr af'"
  shows "AccountFlow_ok af'"
    and "txflow (txlist af') = (txflow (txlist af))(GetNonce tx \<mapsto> tx)"
    and "originBalance (balance af') = originBalance (balance af)"
    and "spent (balance af') = spent (balance af) + GetValue tx"
proof -
  have ok: "TxList_ok (txlist af)" using assms(1) by (simp add: AccountFlow_ok_def)
  have new: "txflow (txlist af) (GetNonce tx) = None"
    and fits: "spent (balance af) + GetValue tx \<le> originBalance (balance af)"
    and af': "af' = af\<lparr>balance := (balance af)\<lparr>spent := spent (balance af) + GetValue tx\<rparr>,
                   txlist := TxList_put (txlist af) tx\<rparr>"
    using assms(3) by (auto simp: AccountFlow_Add_cases split: if_splits)
  show g: "txflow (txlist af') = (txflow (txlist af))(GetNonce tx \<mapsto> tx)"
    using new ok by (simp add: af' txl_facts)
  show "originBalance (balance af') = originBalance (balance af)"
    and "spent (balance af') = spent (balance af) + GetValue tx"
    by (simp_all add: af')
  have "flow_total ((txflow (txlist af))(GetNonce tx \<mapsto> tx))
      = flow_total (txflow (txlist af)) + GetValue tx"
    using txl.total_put [OF ok, of tx] new ok by (simp add: TxList_get_txflow txl_facts)
  then show "AccountFlow_ok af'"
    using assms(1,2) ok new fits g
    by (auto simp: AccountFlow_ok_def af' txl_facts)
qed

lemma AccountFlow_ok_Remove:
  assumes "AccountFlow_ok af"
  obtains af' where "AccountFlow_Remove af n = Inr af'" and "AccountFlow_ok af'"
    and "txflow (txlist af') = (txflow (txlist af))(n := None)"
    and "originBalance (balance af') - spent (balance af')
       = originBalance (balance af) - spent (balance af)"
proof (cases "txflow (txlist af) n")
  case None
  have "(txflow (txlist af))(n := None) = txflow (txlist af)" using None by auto
  then show ?thesis
    using that [of af] assms None by (simp add: AccountFlow_Remove_def TxList_get_def)
next
  case (Some x)
  have ok: "TxList_ok (txlist af)"
    and sp: "spent (balance af) = flow_total (txflow (txlist af))"
    and le: "spent (balance af) \<le> originBalance (balance af)"
    and nn: "\<And>k y. txflow (txlist af) k = Some y \<Longrightarrow> 0 \<le> GetValue y"
    using assms by (auto simp: AccountFlow_ok_def)
  have "GetValue x \<le> flow_total (TxList_get (txlist af))"
    using txl.value_le_total [OF ok, of n x] Some nn by (simp add: TxList_get_def)
  then have cover: "\<not> spent (balance af) < GetValue x"
    using sp by (simp add: TxList_get_txflow)
  define af' where "af' = af\<lparr>balance := (balance af)\<lparr>spent := spent (balance af) - GetValue x,
       originBalance := originBalance (balance af) - GetValue x\<rparr>,
     txlist := snd (TxList_remove (txlist af) n)\<rparr>"
  have r: "AccountFlow_Remove af n = Inr af'"
    using Some cover by (simp add: AccountFlow_Remove_def TxList_get_def TryRemoveValue_def af'_def)
  have g: "txflow (txlist af') = (txflow (txlist af))(n := None)"
    using ok by (simp add: af'_def txl_facts)
  have "flow_total (txflow (txlist af')) = flow_total (txflow (txlist af)) - GetValue x"
    using txl.total_rem [OF ok, of n x] Some by (simp add: af'_def TxList_get_txflow)
  then have "AccountFlow_ok af'"
    using ok sp le nn g
    by (auto simp: AccountFlow_ok_def af'_def txl.ok_rem split: if_splits)
  then show ?thesis
    using that [of af'] r g by (simp add: af'_def)
qed

lemma AccountFlow_LatestNonce_max:
  assumes "AccountFlow_ok af" and "dom (txflow (txlist af)) \<noteq> {}"
  obtains af' where "AccountFlow_LatestNonce af = Inr (Max (dom (txflow (txlist af))), af')"
    and "AccountFlow_ok af'" and "txflow (txlist af') = txflow (txlist af)"
    and "balance af' = balance af"
proof -
  have ks: "set (keys (txlist af)) = dom (txflow (txlist af))" and d: "distinct (keys (txlist af))"
    using assms(1) by (simp_all add: AccountFlow_ok_def TxList_ok_def)
  then have ne: "keys (txlist af) \<noteq> []" using assms(2) by (metis set_empty)
  define af' where "af' = af\<lparr>txlist := (txlist af)\<lparr>keys := sort (keys (txlist af))\<rparr>\<rparr>"
  have "last (sort (keys (txlist af))) = Max (set (keys (txlist af)))"
    using ne sorted_last_Max [of "sort (keys (txlist af))"] by (metis set_empty set_sort sorted_sort)
  then have "AccountFlow_LatestNonce af = Inr (Max (dom (txflow (txlist af))), af')"
    using ne ks by (simp add: AccountFlow_LatestNonce_def TxList_Len_def nonceHeap_Tail_def af'_def)
  moreover have "AccountFlow_ok af'"
    using assms(1) by (simp add: AccountFlow_ok_def af'_def TxList_ok_def)
  ultimately show ?thesis using that [of af'] by (simp add: af'_def)
qed

end
