(* ===== verification/Dag.thy ===== *)
theory Dag
  imports StateCommit Accessor AccountFlow
begin

text \<open>
  \<^verbatim>\<open>src/core/dag.go\<close>: the confirmed part of the ledger. A \<^verbatim>\<open>Dag\<close> holds the store, the state
  database, the genesis and latest sequencer and a bounded cache of transactions; \<^verbatim>\<open>push\<close> writes and
  executes a batch of transactions that a sequencer confirms.

  The virtual machine (\<^verbatim>\<open>ogvm.Create\<close>, \<^verbatim>\<open>Call\<close>, \<^verbatim>\<open>StaticCall\<close>; its arguments are the state database,
  the sequence number of the context and those of the call), the flush of the trie database to the
  disk and the clock are the fields of \<open>dag_env\<close>. An operation that fails half-way returns its error
  together with the state it leaves behind; a run-time panic is the error \<open>ErrPanic\<close>. Read-only
  operations return only their result: the cache entries and heart beats that a read adds to the state
  database are invisible (\<open>obj_touched\<close>, \<open>account_view_frame\<close>).
\<close>

section \<open>The transaction cache\<close>

record txcached =
  tcMaxsize :: nat
  tcOrder :: "Hash list"
  tcTxs :: "Hash \<rightharpoonup> Txi"

definition newTxcached :: "nat \<Rightarrow> txcached" where
  "newTxcached maxsize = \<lparr>tcMaxsize = maxsize, tcOrder = [], tcTxs = Map.empty\<rparr>"

definition txcached_get :: "txcached \<Rightarrow> Hash \<Rightarrow> Txi option" where
  "txcached_get tc hash = tcTxs tc hash"

text \<open>\<open>None\<close> is the panic of \<^verbatim>\<open>tc.order[0]\<close> on an empty slice.\<close>

definition txcached_add :: "txcached \<Rightarrow> Txi \<Rightarrow> txcached option" where
  "txcached_add tc tx =
     (if tcTxs tc (GetTxHash tx) \<noteq> None then Some tc
      else
        let evicted =
              (if length (tcOrder tc) \<ge> tcMaxsize tc then
                 (case tcOrder tc of
                    [] \<Rightarrow> None
                  | fstHash # rest \<Rightarrow> Some (tc\<lparr>tcTxs := (tcTxs tc)(fstHash := None), tcOrder := rest\<rparr>))
               else Some tc)
        in map_option
             (\<lambda>tc1. tc1\<lparr>tcOrder := tcOrder tc1 @ [GetTxHash tx], tcTxs := (tcTxs tc1)(GetTxHash tx \<mapsto> tx)\<rparr>)
             evicted)"

section \<open>State\<close>

record dag_env =
  vmCreate :: "StateDB \<Rightarrow> uint64 \<Rightarrow> Address \<Rightarrow> byte list \<Rightarrow> uint64 \<Rightarrow> int \<Rightarrow> (string + byte list \<times> Address) \<times> StateDB"
  vmCall :: "StateDB \<Rightarrow> uint64 \<Rightarrow> Address \<Rightarrow> Address \<Rightarrow> byte list \<Rightarrow> uint64 \<Rightarrow> int \<Rightarrow> (string + byte list) \<times> StateDB"
  vmStaticCall :: "StateDB \<Rightarrow> uint64 \<Rightarrow> Address \<Rightarrow> Address \<Rightarrow> byte list \<Rightarrow> uint64 \<Rightarrow> (string + byte list) \<times> StateDB"
  triedbCommit :: "StateDB \<Rightarrow> Hash \<Rightarrow> error option"
  rfc3339Now :: string

record Dag =
  dcodec :: codec
  denv :: dag_env
  ddb :: KvDB
  statedb :: StateDB
  genesis :: "Sequencer option"
  latestSequencer :: "Sequencer option"
  dtxcached :: txcached

record BatchDetail =
  bdTxList :: "TxList option"
  bdNeg :: int
  bdPos :: int

record ConfirmBatch =
  cbSeq :: Sequencer
  cbBatch :: "(Address, BatchDetail) gomap"
  cbTxHashes :: "Hash list option"

definition emptyAddress :: Address where
  "emptyAddress = 0"

definition DefaultGasLimit :: uint64 where
  "DefaultGasLimit = 10000000000"

definition DefaultCoinbase :: Address where
  "DefaultCoinbase = 0x1234567812345678AABBCCDDEEFF998877665544"

definition NewDag :: "codec \<Rightarrow> dag_env \<Rightarrow> KvDB \<Rightarrow> state_env \<Rightarrow> int \<Rightarrow> int \<Rightarrow> Database \<Rightarrow> error + Dag" where
  "NewDag C de db e expire clock trdb =
     (case NewStateDB e expire clock trdb of
        Inl err \<Rightarrow> Inl err
      | Inr sd \<Rightarrow> Inr
          \<lparr>dcodec = C, denv = de, ddb = db, statedb = sd, genesis = None, latestSequencer = None,
           dtxcached = newTxcached 10000\<rparr>)"

section \<open>Writing and executing a transaction\<close>

definition Dag_WriteTransaction :: "Dag \<Rightarrow> Txi \<Rightarrow> error option \<times> Dag" where
  "Dag_WriteTransaction dag tx =
     (case WriteTxHashByNonce (ddb dag) (Sender tx) (GetNonce tx) (GetTxHash tx) of
        (Some err, db1) \<Rightarrow> (Some err, dag\<lparr>ddb := db1\<rparr>)
      | (None, db1) \<Rightarrow>
          (case WriteTransaction (dcodec dag) db1 tx of
             (Some err, db2) \<Rightarrow> (Some err, dag\<lparr>ddb := db2\<rparr>)
           | (None, db2) \<Rightarrow>
               (case txcached_add (dtxcached dag) tx of
                  None \<Rightarrow> (Some (ErrPanic ''index out of range''), dag\<lparr>ddb := db2\<rparr>)
                | Some tc \<Rightarrow> (None, dag\<lparr>ddb := db2, dtxcached := tc\<rparr>))))"

text \<open>The nonce update of \<^verbatim>\<open>ProcessTransaction\<close>.\<close>

definition update_nonce :: "StateDB \<Rightarrow> Txi \<Rightarrow> StateDB" where
  "update_nonce sd tx =
     (case SD_GetNonce sd (Sender tx) of (curNonce, sd1) \<Rightarrow>
        case Exist sd1 (Sender tx) of (ex, sd2) \<Rightarrow>
          if \<not> ex \<or> GetNonce tx > curNonce then SetNonce sd2 (Sender tx) (GetNonce tx) else sd2)"

definition transfer_value :: "StateDB \<Rightarrow> Tx \<Rightarrow> StateDB" where
  "transfer_value sd t =
     (if sgn (Value t) \<noteq> 0 then addBalance (subBalance sd (From t) (Value t)) (To t) (Value t) else sd)"

text \<open>The type switch is on the type field; the type assertion to \<^verbatim>\<open>*types.Tx\<close> panics on a
  sequencer object whose field says otherwise.\<close>

definition ProcessTransaction :: "Dag \<Rightarrow> Txi \<Rightarrow> (error + byte list \<times> Receipt) \<times> Dag" where
  "ProcessTransaction dag tx =
     (let sd1 = update_nonce (statedb dag) tx; dag1 = dag\<lparr>statedb := sd1\<rparr> in
      if GetType tx = TxBaseTypeSequencer then
        (Inr ([], NewReceipt (GetTxHash tx) ReceiptStatusSeqSuccess [] emptyAddress), dag1)
      else case tx of
        TxiSeq _ \<Rightarrow> (Inl (ErrPanic ''interface conversion''), dag1)
      | TxiTx t \<Rightarrow>
          (let sd2 = transfer_value sd1 t; dag2 = dag1\<lparr>statedb := sd2\<rparr> in
           if length (Data t) = 0 then
             (Inr ([], NewReceipt (GetTxHash tx) ReceiptStatusTxSuccess [] emptyAddress), dag2)
           else case latestSequencer dag of
             None \<Rightarrow> (Inl (ErrPanic ''nil pointer dereference''), dag2)
           | Some latest \<Rightarrow>
               (if To t = emptyAddress then
                  (case vmCreate (denv dag) sd2 (Height latest) (From t) (Data t) DefaultGasLimit (Value t) of
                     (Inl _, sd3) \<Rightarrow> (Inl ErrVM, dag2\<lparr>statedb := sd3\<rparr>)
                   | (Inr (ret, contractAddress), sd3) \<Rightarrow>
                       (Inr (ret, NewReceipt (GetTxHash tx) ReceiptStatusTxSuccess [] contractAddress),
                        dag2\<lparr>statedb := sd3\<rparr>))
                else
                  (case vmCall (denv dag) sd2 (Height latest) (From t) (To t) (Data t) DefaultGasLimit (Value t) of
                     (Inl _, sd3) \<Rightarrow> (Inl ErrVM, dag2\<lparr>statedb := sd3\<rparr>)
                   | (Inr ret, sd3) \<Rightarrow>
                       (Inr (ret, NewReceipt (GetTxHash tx) ReceiptStatusTxSuccess [] emptyAddress),
                        dag2\<lparr>statedb := sd3\<rparr>)))))"

text \<open>\<open>None\<close> is the nil dereference of \<^verbatim>\<open>latestSequencer\<close>.\<close>

definition CallContract :: "Dag \<Rightarrow> Address \<Rightarrow> byte list \<Rightarrow> ((string + byte list) \<times> Dag) option" where
  "CallContract dag addr d =
     (case latestSequencer dag of
        None \<Rightarrow> None
      | Some latest \<Rightarrow>
          (case vmStaticCall (denv dag) (statedb dag) (Height latest) DefaultCoinbase addr d DefaultGasLimit of
             (r, sd) \<Rightarrow> Some (r, dag\<lparr>statedb := sd\<rparr>)))"

section \<open>Pushing a batch\<close>

definition push_tx :: "Dag \<Rightarrow> uint64 \<Rightarrow> Txi \<Rightarrow> ReceiptSet \<Rightarrow> (error + ReceiptSet) \<times> Dag" where
  "push_tx dag height txi receipts =
     (let txi' = set_Height txi height in
      case Dag_WriteTransaction dag txi' of
        (Some err, dag1) \<Rightarrow> (Inl err, dag1)
      | (None, dag1) \<Rightarrow>
          (case ProcessTransaction dag1 txi' of
             (Inl err, dag2) \<Rightarrow> (Inl err, dag2)
           | (Inr (_, receipt), dag2) \<Rightarrow>
               (Inr (AList.update (Hash_Hex (GetTxHash txi')) receipt receipts), dag2)))"

fun push_list :: "Dag \<Rightarrow> uint64 \<Rightarrow> TxList \<Rightarrow> uint64 list \<Rightarrow> ReceiptSet \<Rightarrow> (error + ReceiptSet) \<times> Dag" where
  "push_list dag height l [] receipts = (Inr receipts, dag)"
| "push_list dag height l (nonce # nonces) receipts =
     (case TxList_get l nonce of
        None \<Rightarrow> (Inl (ErrTxNotInList nonce), dag)
      | Some txi \<Rightarrow>
          (case push_tx dag height txi receipts of
             (Inl err, dag1) \<Rightarrow> (Inl err, dag1)
           | (Inr receipts1, dag1) \<Rightarrow> push_list dag1 height l nonces receipts1))"

fun push_batch ::
    "Dag \<Rightarrow> uint64 \<Rightarrow> (Address \<times> BatchDetail) list \<Rightarrow> ReceiptSet \<Rightarrow> (error + ReceiptSet) \<times> Dag" where
  "push_batch dag height [] receipts = (Inr receipts, dag)"
| "push_batch dag height ((_, batchDetail) # rest) receipts =
     (case bdTxList batchDetail of
        None \<Rightarrow> (Inl ErrNoTxList, dag)
      | Some l \<Rightarrow>
          (case push_list dag height l (keys l) receipts of
             (Inl err, dag1) \<Rightarrow> (Inl err, dag1)
           | (Inr receipts1, dag1) \<Rightarrow> push_batch dag1 height rest receipts1))"

text \<open>The indices written after the state is committed. The errors of the transaction index and of
  the confirm time are ignored by the code.\<close>

definition push_indices :: "Dag \<Rightarrow> ConfirmBatch \<Rightarrow> error option \<times> Dag" where
  "push_indices dag batch =
     (let C = dcodec dag; seq = cbSeq batch;
          txHashNum = (case cbTxHashes batch of None \<Rightarrow> 0 | Some hs \<Rightarrow> length hs);
          db1 = (if txHashNum > 0
                 then snd (WriteIndexedTxHashs C (ddb dag) (Height seq) (the (cbTxHashes batch)))
                 else ddb dag)
      in case WriteSequencerByHeight C db1 seq of
        (Some err, db2) \<Rightarrow> (Some err, dag\<lparr>ddb := db2\<rparr>)
      | (None, db2) \<Rightarrow>
          (case WriteLatestSequencer C db2 seq of
             (Some err, db3) \<Rightarrow> (Some err, dag\<lparr>ddb := db3\<rparr>)
           | (None, db3) \<Rightarrow>
               (None, dag\<lparr>latestSequencer := Some seq,
                  ddb := snd (writeConfirmTime C db3
                    \<lparr>ctSeqHeight = Height seq, ctTxNum = word_of_nat txHashNum,
                     ctConfirmTime = rfc3339Now (denv dag)\<rparr>)\<rparr>)))"

record push_orders =
  ordBatch :: "(Address \<times> BatchDetail) list \<Rightarrow> (Address \<times> BatchDetail) list"
  ordStates :: "(Address \<times> StateObject) list \<Rightarrow> (Address \<times> StateObject) list"
  ordStorage :: "(Hash \<times> Hash) list \<Rightarrow> (Hash \<times> Hash) list"

definition push_commit :: "push_orders \<Rightarrow> Dag \<Rightarrow> ConfirmBatch \<Rightarrow> error option \<times> Dag" where
  "push_commit ords dag batch =
     (case SD_commit (ordStates ords) (ordStorage ords) (statedb dag) of
        None \<Rightarrow> (Some (ErrPanic ''BytesToHash''), dag)
      | Some (root, sd) \<Rightarrow>
          (let dag1 = dag\<lparr>statedb := sd\<rparr> in
           case triedbCommit (denv dag) sd root of
             Some err \<Rightarrow> (Some err, dag1)
           | None \<Rightarrow> push_indices dag1 batch))"

definition Dag_push :: "push_orders \<Rightarrow> Dag \<Rightarrow> ConfirmBatch \<Rightarrow> error option \<times> Dag" where
  "Dag_push ords dag batch =
     (case latestSequencer dag of
        None \<Rightarrow> (Some (ErrPanic ''nil pointer dereference''), dag)
      | Some latest \<Rightarrow>
          (let seq = cbSeq batch in
           if Height latest + 1 \<noteq> Height seq then (Some (ErrHeightMismatch (Height latest) (Height seq)), dag)
           else case push_batch dag (Height seq) (ordBatch ords (cbBatch batch)) [] of
             (Inl err, dag1) \<Rightarrow> (Some err, dag1)
           | (Inr receipts, dag1) \<Rightarrow>
               (case Dag_WriteTransaction dag1 (TxiSeq seq) of
                  (Some err, dag2) \<Rightarrow> (Some err, dag2)
                | (None, dag2) \<Rightarrow>
                    (case ProcessTransaction dag2 (TxiSeq seq) of
                       (Inl err, dag3) \<Rightarrow> (Some err, dag3)
                     | (Inr (_, receipt), dag3) \<Rightarrow>
                         (case WriteReceipts (dcodec dag) (ddb dag3) (Height seq)
                                 (AList.update (Hash_Hex (HashOf seq)) receipt receipts) of
                            (Some err, db) \<Rightarrow> (Some err, dag3\<lparr>ddb := db\<rparr>)
                          | (None, db) \<Rightarrow> push_commit ords (dag3\<lparr>ddb := db\<rparr>) batch)))))"

section \<open>Initialisation\<close>

fun set_balances :: "StateDB \<Rightarrow> (Address \<times> int) list \<Rightarrow> StateDB" where
  "set_balances sd [] = sd"
| "set_balances sd ((addr, v) # rest) = set_balances (setBalance sd addr v) rest"

definition Dag_Init ::
    "((Address \<times> int) list \<Rightarrow> (Address \<times> int) list) \<Rightarrow> Dag \<Rightarrow> Sequencer \<Rightarrow> (Address, int) gomap
      \<Rightarrow> error option \<times> Dag" where
  "Dag_Init ord dag gen genesisBalance =
     (if Height gen \<noteq> 0 then (Some ErrBadGenesisHeight, dag)
      else case WriteGenesis (dcodec dag) (ddb dag) gen of
        (Some err, db1) \<Rightarrow> (Some err, dag\<lparr>ddb := db1\<rparr>)
      | (None, db1) \<Rightarrow>
          (case WriteLatestSequencer (dcodec dag) db1 gen of
             (Some err, db2) \<Rightarrow> (Some err, dag\<lparr>ddb := db2\<rparr>)
           | (None, db2) \<Rightarrow>
               (case WriteSequencerByHeight (dcodec dag) db2 gen of
                  (Some err, db3) \<Rightarrow> (Some err, dag\<lparr>ddb := db3\<rparr>)
                | (None, db3) \<Rightarrow>
                    (case Dag_WriteTransaction (dag\<lparr>ddb := db3\<rparr>) (TxiSeq gen) of
                       (Some err, dag1) \<Rightarrow> (Some err, dag1)
                     | (None, dag1) \<Rightarrow>
                         (None, dag1\<lparr>statedb := set_balances (statedb dag1) (ord genesisBalance),
                                     genesis := Some gen, latestSequencer := Some gen\<rparr>)))))"

definition LoadLastState :: "Dag \<Rightarrow> bool \<times> Dag" where
  "LoadLastState dag =
     (case ReadGenesis (dcodec dag) (ddb dag) of
        None \<Rightarrow> (False, dag)
      | Some g \<Rightarrow>
          (case ReadLatestSequencer (dcodec dag) (ddb dag) of
             None \<Rightarrow> (True, dag\<lparr>genesis := Some g, latestSequencer := Some g\<rparr>)
           | Some s \<Rightarrow> (True, dag\<lparr>genesis := Some g, latestSequencer := Some s\<rparr>)))"

section \<open>Queries\<close>

definition Dag_getTx :: "Dag \<Rightarrow> Hash \<Rightarrow> Txi option option" where
  "Dag_getTx dag hash =
     (case txcached_get (dtxcached dag) hash of
        Some tx \<Rightarrow> Some (Some tx)
      | None \<Rightarrow> ReadTransaction (dcodec dag) (ddb dag) hash)"

definition Dag_getTxByNonce :: "Dag \<Rightarrow> Address \<Rightarrow> uint64 \<Rightarrow> Txi option option" where
  "Dag_getTxByNonce dag addr nonce = ReadTxByNonce (dcodec dag) (ddb dag) addr nonce"

fun Dag_getTxs :: "Dag \<Rightarrow> Hash list \<Rightarrow> Tx list option" where
  "Dag_getTxs dag [] = Some []"
| "Dag_getTxs dag (hash # hashs) =
     (case Dag_getTx dag hash of
        None \<Rightarrow> None
      | Some (Some (TxiTx t)) \<Rightarrow> map_option ((#) t) (Dag_getTxs dag hashs)
      | Some _ \<Rightarrow> Dag_getTxs dag hashs)"

definition getTxConfirmHeight :: "Dag \<Rightarrow> Hash \<Rightarrow> (error + uint64) option" where
  "getTxConfirmHeight dag hash =
     map_option (\<lambda>r. case r of None \<Rightarrow> Inl (ErrHashNotExist hash) | Some tx \<Rightarrow> Inr (GetHeight tx))
       (Dag_getTx dag hash)"

text \<open>\<^verbatim>\<open>getTxsHashesByNumber\<close>: the outer option is the nil dereference of \<^verbatim>\<open>latestSequencer\<close>.\<close>

definition getTxsHashesByNumber :: "Dag \<Rightarrow> uint64 \<Rightarrow> Hash list option option" where
  "getTxsHashesByNumber dag height =
     map_option
       (\<lambda>latest. if height > Height latest then None
                 else case ReadIndexedTxHashs (dcodec dag) (ddb dag) height of
                        Inl _ \<Rightarrow> None | Inr hs \<Rightarrow> Some hs)
       (latestSequencer dag)"

definition GetTxsByNumber :: "Dag \<Rightarrow> uint64 \<Rightarrow> Tx list option" where
  "GetTxsByNumber dag height =
     (case getTxsHashesByNumber dag height of
        None \<Rightarrow> None
      | Some None \<Rightarrow> Some []
      | Some (Some hashs) \<Rightarrow> if length hashs = 0 then Some [] else Dag_getTxs dag hashs)"

definition GetReceipt :: "Dag \<Rightarrow> Hash \<Rightarrow> Receipt option option" where
  "GetReceipt dag hash =
     map_option
       (\<lambda>r. case r of None \<Rightarrow> None | Some tx \<Rightarrow> ReadReceipt (dcodec dag) (ddb dag) (GetHeight tx) hash)
       (Dag_getTx dag hash)"

definition GetSequencerByHash :: "Dag \<Rightarrow> Hash \<Rightarrow> Sequencer option option" where
  "GetSequencerByHash dag hash =
     map_option (\<lambda>r. case r of Some (TxiSeq s) \<Rightarrow> Some s | _ \<Rightarrow> None) (Dag_getTx dag hash)"

definition getSequencerByHeight :: "Dag \<Rightarrow> uint64 \<Rightarrow> Sequencer option option" where
  "getSequencerByHeight dag height =
     (if height = 0 then Some (genesis dag)
      else map_option
        (\<lambda>latest. if height > Height latest then None
                  else case ReadSequencerByHeight (dcodec dag) (ddb dag) height of
                         Inl _ \<Rightarrow> None | Inr s \<Rightarrow> Some s)
        (latestSequencer dag))"

definition getSequencerHashByHeight :: "Dag \<Rightarrow> uint64 \<Rightarrow> Hash option" where
  "getSequencerHashByHeight dag height =
     (case ReadSequencerByHeight (dcodec dag) (ddb dag) height of
        Inl _ \<Rightarrow> None | Inr s \<Rightarrow> Some (HashOf s))"

definition GetSequencer :: "Dag \<Rightarrow> Hash \<Rightarrow> uint64 \<Rightarrow> Sequencer option option" where
  "GetSequencer dag hash seqHeight =
     map_option
       (\<lambda>r. case r of
              Some (TxiSeq s) \<Rightarrow> if Height s \<noteq> seqHeight then None else Some s
            | _ \<Rightarrow> None)
       (Dag_getTx dag hash)"

definition getConfirmTime :: "Dag \<Rightarrow> uint64 \<Rightarrow> ConfirmTime option" where
  "getConfirmTime dag seqHeight =
     (if seqHeight = 0 then None else readConfirmTime (dcodec dag) (ddb dag) seqHeight)"

definition Dag_Exist :: "Dag \<Rightarrow> Address \<Rightarrow> bool" where
  "Dag_Exist dag addr = fst (Exist (statedb dag) addr)"

definition Dag_getBalance :: "Dag \<Rightarrow> Address \<Rightarrow> int" where
  "Dag_getBalance dag addr = fst (GetBalance (statedb dag) addr)"

definition Dag_getLatestNonce :: "Dag \<Rightarrow> Address \<Rightarrow> error + uint64" where
  "Dag_getLatestNonce dag addr =
     (if \<not> fst (Exist (statedb dag) addr) then Inl ErrNonceNotExist
      else Inr (fst (SD_GetNonce (statedb dag) addr)))"

text \<open>\<^verbatim>\<open>getState\<close> is not a pure read, see \<open>GetCommittedState\<close>.\<close>

definition Dag_getState :: "Dag \<Rightarrow> Address \<Rightarrow> Hash \<Rightarrow> (Hash \<times> Dag) option" where
  "Dag_getState dag addr key =
     map_option (\<lambda>(v, sd). (v, dag\<lparr>statedb := sd\<rparr>)) (GetState (statedb dag) addr key)"

text \<open>The loop of \<^verbatim>\<open>getTxsByAddress\<close> counts an int64 down to 0, so it does not run at all for a
  nonce above the int64 range.\<close>

fun txs_by_address_loop :: "Dag \<Rightarrow> Address \<Rightarrow> nat \<Rightarrow> Txi list option" where
  "txs_by_address_loop dag addr 0 = Some []"
| "txs_by_address_loop dag addr (Suc i) =
     (case Dag_getTxByNonce dag addr (word_of_nat i) of
        None \<Rightarrow> None
      | Some None \<Rightarrow> txs_by_address_loop dag addr i
      | Some (Some tx) \<Rightarrow> map_option ((#) tx) (txs_by_address_loop dag addr i))"

definition getTxsByAddress :: "Dag \<Rightarrow> Address \<Rightarrow> Txi list option" where
  "getTxsByAddress dag addr =
     (let nonce = (case Dag_getLatestNonce dag addr of Inl _ \<Rightarrow> 0 | Inr n \<Rightarrow> n) in
      txs_by_address_loop dag addr (nat (sint nonce + 1)))"

end
