(* ===== verification/TxPool.thy ===== *)
theory TxPool
  imports Dag
begin

text \<open>
  \<^verbatim>\<open>src/core/tx_pool.go\<close>: the transactions that no sequencer has confirmed yet. The pool holds a lookup
  table of envelopes with the order of arrival, the maps of tips, bad and pending transactions, and the
  account flows; its event loop takes one envelope at a time from the queue, commits a transaction
  or lets a sequencer confirm its elders by pushing them to the DAG.

  Queries of the DAG are its value functions (\<open>Dag_getTx\<close>, \<open>Dag_getBalance\<close>, ...). The error \<open>ErrPanic\<close> is
  a run-time panic. Ranging over a Go map takes its order from \<open>pool_orders\<close>. Messages sent to
  subscribers are appended to \<open>notices\<close>. The heights that a push writes into the elders are recorded in the
  DAG's copies only: a successful confirmation removes the elders from the pool.
\<close>

section \<open>Types\<close>

datatype TxType = TxTypeGenesis | TxTypeLocal | TxTypeRemote | TxTypeRejudge

datatype TxStatus = TxStatusNotExist | TxStatusQueue | TxStatusTip | TxStatusBadTx | TxStatusPending

fun TxStatus_String :: "TxStatus \<Rightarrow> string" where
  "TxStatus_String TxStatusBadTx = ''BadTx''"
| "TxStatus_String TxStatusNotExist = ''NotExist''"
| "TxStatus_String TxStatusPending = ''Pending''"
| "TxStatus_String TxStatusQueue = ''Queueing''"
| "TxStatus_String TxStatusTip = ''Tip''"

datatype TxQuality = TxQualityIsBad | TxQualityIsGood | TxQualityIsFatal

datatype hashOrderRemoveType = noRemove | removeFromFront | removeFromEnd

record txEnvelope =
  envTx :: Txi
  envTxType :: TxType
  envStatus :: TxStatus

section \<open>TxMap\<close>

record TxMap =
  tmTxs :: "(Hash, Txi) gomap"

definition NewTxMap :: TxMap where
  "NewTxMap = \<lparr>tmTxs = []\<rparr>"

definition TxMap_Count :: "TxMap \<Rightarrow> nat" where
  "TxMap_Count tm = length (tmTxs tm)"

definition TxMap_Get :: "TxMap \<Rightarrow> Hash \<Rightarrow> Txi option" where
  "TxMap_Get tm hash = map_of (tmTxs tm) hash"

definition TxMap_GetAllKeys :: "((Hash \<times> Txi) list \<Rightarrow> (Hash \<times> Txi) list) \<Rightarrow> TxMap \<Rightarrow> Hash list" where
  "TxMap_GetAllKeys ord tm = map fst (ord (tmTxs tm))"

definition TxMap_GetAllValues :: "((Hash \<times> Txi) list \<Rightarrow> (Hash \<times> Txi) list) \<Rightarrow> TxMap \<Rightarrow> Txi list" where
  "TxMap_GetAllValues ord tm = map snd (ord (tmTxs tm))"

definition TxMap_Exists :: "TxMap \<Rightarrow> Txi \<Rightarrow> bool" where
  "TxMap_Exists tm tx = (map_of (tmTxs tm) (GetTxHash tx) \<noteq> None)"

definition TxMap_Remove :: "TxMap \<Rightarrow> Hash \<Rightarrow> TxMap" where
  "TxMap_Remove tm hash = tm\<lparr>tmTxs := AList.delete hash (tmTxs tm)\<rparr>"

definition TxMap_Add :: "TxMap \<Rightarrow> Txi \<Rightarrow> TxMap" where
  "TxMap_Add tm tx =
     (if map_of (tmTxs tm) (GetTxHash tx) = None
      then tm\<lparr>tmTxs := AList.update (GetTxHash tx) tx (tmTxs tm)\<rparr> else tm)"

section \<open>txLookUp\<close>

record txLookUp =
  lkOrder :: "Hash list"
  lkTxs :: "(Hash, txEnvelope) gomap"

definition newTxLookUp :: txLookUp where
  "newTxLookUp = \<lparr>lkOrder = [], lkTxs = []\<rparr>"

definition lookup_get :: "txLookUp \<Rightarrow> Hash \<Rightarrow> Txi option" where
  "lookup_get t h = (case map_of (lkTxs t) h of Some txEnv \<Rightarrow> Some (envTx txEnv) | None \<Rightarrow> None)"

definition lookup_add :: "txLookUp \<Rightarrow> txEnvelope \<Rightarrow> txLookUp" where
  "lookup_add t txEnv =
     (let h = GetTxHash (envTx txEnv) in
      if map_of (lkTxs t) h \<noteq> None then t
      else t\<lparr>lkOrder := lkOrder t @ [h], lkTxs := AList.update h txEnv (lkTxs t)\<rparr>)"

text \<open>The two search loops of \<^verbatim>\<open>remove\<close>: the first match from the front, the first from the end.\<close>

fun remove_front :: "Hash \<Rightarrow> Hash list \<Rightarrow> Hash list" where
  "remove_front h [] = []"
| "remove_front h (hash # hs) = (if Hash_Cmp hash h = 0 then hs else hash # remove_front h hs)"

definition remove_end :: "Hash \<Rightarrow> Hash list \<Rightarrow> Hash list" where
  "remove_end h hs = rev (remove_front h (rev hs))"

definition lookup_remove :: "txLookUp \<Rightarrow> Hash \<Rightarrow> hashOrderRemoveType \<Rightarrow> txLookUp" where
  "lookup_remove t h removeType =
     (let t1 = (case removeType of
                  noRemove \<Rightarrow> t
                | removeFromFront \<Rightarrow> t\<lparr>lkOrder := remove_front h (lkOrder t)\<rparr>
                | removeFromEnd \<Rightarrow> t\<lparr>lkOrder := remove_end h (lkOrder t)\<rparr>)
      in t1\<lparr>lkTxs := AList.delete h (lkTxs t1)\<rparr>)"

definition removeTxFromMapOnly :: "txLookUp \<Rightarrow> Hash \<Rightarrow> txLookUp" where
  "removeTxFromMapOnly t h = t\<lparr>lkTxs := AList.delete h (lkTxs t)\<rparr>"

definition removeByIndex :: "txLookUp \<Rightarrow> int \<Rightarrow> txLookUp" where
  "removeByIndex t i =
     (if i < 0 \<or> i \<ge> int (length (lkOrder t)) then t
      else let hash = lkOrder t ! nat i in
        t\<lparr>lkOrder := take (nat i) (lkOrder t) @ drop (nat i + 1) (lkOrder t),
          lkTxs := AList.delete hash (lkTxs t)\<rparr>)"

definition getorder :: "txLookUp \<Rightarrow> Hash list" where
  "getorder t = lkOrder t"

definition resetOrder :: "txLookUp \<Rightarrow> txLookUp" where
  "resetOrder t = t\<lparr>lkOrder := []\<rparr>"

definition lookup_count :: "txLookUp \<Rightarrow> nat" where
  "lookup_count t = length (lkTxs t)"

fun stats_loop :: "txEnvelope list \<Rightarrow> nat \<times> nat \<times> nat \<Rightarrow> nat \<times> nat \<times> nat" where
  "stats_loop [] acc = acc"
| "stats_loop (v # vs) (nTips, nBad, nPending) =
     stats_loop vs
       (if envStatus v = TxStatusTip then (nTips + 1, nBad, nPending)
        else if envStatus v = TxStatusBadTx then (nTips, nBad + 1, nPending)
        else if envStatus v = TxStatusPending then (nTips, nBad, nPending + 1)
        else (nTips, nBad, nPending))"

definition lookup_stats :: "txLookUp \<Rightarrow> nat \<times> nat \<times> nat" where
  "lookup_stats t = stats_loop (map snd (lkTxs t)) (0, 0, 0)"

definition lookup_status :: "txLookUp \<Rightarrow> Hash \<Rightarrow> TxStatus" where
  "lookup_status t h = (case map_of (lkTxs t) h of Some txEnv \<Rightarrow> envStatus txEnv | None \<Rightarrow> TxStatusNotExist)"

definition switchstatus :: "txLookUp \<Rightarrow> Hash \<Rightarrow> TxStatus \<Rightarrow> txLookUp" where
  "switchstatus t h st =
     (case map_of (lkTxs t) h of
        Some txEnv \<Rightarrow> t\<lparr>lkTxs := AList.update h (txEnv\<lparr>envStatus := st\<rparr>) (lkTxs t)\<rparr>
      | None \<Rightarrow> t)"

section \<open>The pool\<close>

record TxPoolConfig =
  QueueSize :: int
  TipsSize :: int
  ResetDuration :: int
  TxVerifyTime :: int
  TxValidTime :: int
  TimeOutPoolQueue :: int
  TimeoutSubscriber :: int
  TimeoutConfirmation :: int
  TimeoutLatestSequencer :: int

definition DefaultTxPoolConfig :: TxPoolConfig where
  "DefaultTxPoolConfig =
     \<lparr>QueueSize = 100, TipsSize = 1000, ResetDuration = 10, TxVerifyTime = 2, TxValidTime = 100,
      TimeOutPoolQueue = 10000, TimeoutSubscriber = 10000, TimeoutConfirmation = 10000,
      TimeoutLatestSequencer = 10000\<rparr>"

text \<open>A message on the channel of a named subscriber, or on the n-th channel of a list.\<close>

datatype notice =
    NewTxReceived string Txi
  | BatchConfirmed nat "(Hash, Txi) gomap"
  | NewLatestSequencer nat

record TxPool =
  pconf :: TxPoolConfig
  pdag :: Dag
  queue :: "txEnvelope list"
  tips :: TxMap
  badtxs :: TxMap
  pendings :: TxMap
  flows :: AccountFlows
  txLookup :: txLookUp
  onNewTxReceived :: "string list"
  OnBatchConfirmed :: nat
  OnNewLatestSequencer :: nat
  txNum :: "32 word"
  maxWeight :: uint64
  notices :: "notice list"

record pool_orders =
  ordElders :: "(Hash \<times> Txi) list \<Rightarrow> (Hash \<times> Txi) list"
  ordDetails :: "(Address \<times> BatchDetail) list \<Rightarrow> (Address \<times> BatchDetail) list"
  ordPush :: push_orders

definition NewTxPool :: "TxPoolConfig \<Rightarrow> Dag \<Rightarrow> TxPool" where
  "NewTxPool conf d =
     \<lparr>pconf = conf, pdag = d, queue = [], tips = NewTxMap, badtxs = NewTxMap, pendings = NewTxMap,
      flows = NewAccountFlows, txLookup = newTxLookUp, onNewTxReceived = [], OnBatchConfirmed = 0,
      OnNewLatestSequencer = 0, txNum = 0, maxWeight = 0, notices = []\<rparr>"

definition pool_Init :: "TxPool \<Rightarrow> Sequencer \<Rightarrow> TxPool" where
  "pool_Init p gen =
     p\<lparr>txLookup := lookup_add (txLookup p)
          \<lparr>envTx = TxiSeq gen, envTxType = TxTypeGenesis, envStatus = TxStatusTip\<rparr>,
       tips := TxMap_Add (tips p) (TxiSeq gen)\<rparr>"

section \<open>Queries\<close>

definition poolStatus :: "TxPool \<Rightarrow> nat \<times> nat \<times> nat" where
  "poolStatus p = lookup_stats (txLookup p)"

definition pool_get :: "TxPool \<Rightarrow> Hash \<Rightarrow> Txi option" where
  "pool_get p hash = lookup_get (txLookup p) hash"

definition pool_Has :: "TxPool \<Rightarrow> Hash \<Rightarrow> bool" where
  "pool_Has p hash = (pool_get p hash \<noteq> None)"

definition IsLocalHash :: "TxPool \<Rightarrow> Hash \<Rightarrow> bool option" where
  "IsLocalHash p hash =
     (if pool_Has p hash then Some True
      else map_option (\<lambda>r. r \<noteq> None) (Dag_getTx (pdag p) hash))"

definition getHashOrder :: "TxPool \<Rightarrow> Hash list" where
  "getHashOrder p = getorder (txLookup p)"

definition getByNonce :: "TxPool \<Rightarrow> Address \<Rightarrow> uint64 \<Rightarrow> Txi option" where
  "getByNonce p addr nonce = AccountFlows_GetTxByNonce (flows p) addr nonce"

text \<open>\<^verbatim>\<open>GetLatestNonce\<close> sorts the key slice of the flow as it reads it.\<close>

definition pool_GetLatestNonce :: "TxPool \<Rightarrow> Address \<Rightarrow> error + (uint64 \<times> TxPool)" where
  "pool_GetLatestNonce p addr =
     (case AccountFlows_GetLatestNonce (flows p) addr of
        Inl err \<Rightarrow> Inl err
      | Inr (n, fs) \<Rightarrow> Inr (n, p\<lparr>flows := fs\<rparr>))"

definition getStatus :: "TxPool \<Rightarrow> Hash \<Rightarrow> TxStatus" where
  "getStatus p hash = lookup_status (txLookup p) hash"

definition GetAllTips :: "TxPool \<Rightarrow> (Hash, Txi) gomap" where
  "GetAllTips p = tmTxs (tips p)"

definition RegisterOnNewTxReceived :: "TxPool \<Rightarrow> string \<Rightarrow> TxPool" where
  "RegisterOnNewTxReceived p chanName =
     p\<lparr>onNewTxReceived := List.insert chanName (onNewTxReceived p)\<rparr>"

text \<open>\<^verbatim>\<open>generateRandomIndices\<close>: the values of \<^verbatim>\<open>rand.Intn(upper)\<close> are the list of draws; \<open>None\<close> when the
  draws run out before enough different ones came up.\<close>

fun random_loop :: "int \<Rightarrow> nat list \<Rightarrow> nat list \<Rightarrow> nat list option" where
  "random_loop cnt generated draws =
     (if cnt > int (length generated) then
        (case draws of
           [] \<Rightarrow> None
         | i # rest \<Rightarrow> random_loop cnt (List.insert i generated) rest)
      else Some generated)"

declare random_loop.simps [simp del]

definition generateRandomIndices ::
    "(nat list \<Rightarrow> nat list) \<Rightarrow> int \<Rightarrow> nat \<Rightarrow> nat list \<Rightarrow> nat list option" where
  "generateRandomIndices ord cnt upper draws =
     map_option ord (random_loop (if cnt > int upper then int upper else cnt) [] draws)"

definition GetRandomTips ::
    "((Hash \<times> Txi) list \<Rightarrow> (Hash \<times> Txi) list) \<Rightarrow> (nat list \<Rightarrow> nat list) \<Rightarrow> TxPool \<Rightarrow> int \<Rightarrow> nat list
      \<Rightarrow> Txi list option" where
  "GetRandomTips ordTips ordIndices p n draws =
     (let values = TxMap_GetAllValues ordTips (tips p) in
      map_option (map ((!) values)) (generateRandomIndices ordIndices n (length values) draws))"

section \<open>Removing\<close>

definition pool_remove :: "TxPool \<Rightarrow> Txi \<Rightarrow> hashOrderRemoveType \<Rightarrow> TxPool" where
  "pool_remove p tx removeType =
     (let h = GetTxHash tx; st = getStatus p h;
          p1 = (if st = TxStatusBadTx then p\<lparr>badtxs := TxMap_Remove (badtxs p) h\<rparr> else p);
          p2 = (if st = TxStatusTip
                then p1\<lparr>tips := TxMap_Remove (tips p1) h, flows := AccountFlows_Remove (flows p1) tx\<rparr> else p1);
          p3 = (if st = TxStatusPending
                then p2\<lparr>pendings := TxMap_Remove (pendings p2) h, flows := AccountFlows_Remove (flows p2) tx\<rparr>
                else p2)
      in p3\<lparr>txLookup := lookup_remove (txLookup p3) h removeType\<rparr>)"

definition clearAll :: "TxPool \<Rightarrow> TxPool" where
  "clearAll p = p\<lparr>badtxs := NewTxMap, tips := NewTxMap, pendings := NewTxMap, flows := NewAccountFlows,
     txLookup := newTxLookUp\<rparr>"

section \<open>Judging and committing a transaction\<close>

text \<open>The parent loop of \<^verbatim>\<open>isBadTx\<close>: the quality it returns with, or \<open>None\<close> inside when it runs through. The
  outer option is a panic of the DAG.\<close>

fun check_parents :: "TxPool \<Rightarrow> Hash list \<Rightarrow> TxQuality option option" where
  "check_parents p [] = Some None"
| "check_parents p (parentHash # rest) =
     (if pool_get p parentHash \<noteq> None then
        (if getStatus p parentHash = TxStatusBadTx then Some (Some TxQualityIsBad) else check_parents p rest)
      else case Dag_getTx (pdag p) parentHash of
        None \<Rightarrow> None
      | Some None \<Rightarrow> Some (Some TxQualityIsFatal)
      | Some (Some _) \<Rightarrow> check_parents p rest)"

definition balance_state :: "TxPool \<Rightarrow> Address \<Rightarrow> BalanceState" where
  "balance_state p addr =
     (case AccountFlows_GetBalanceState (flows p) addr of
        Some st \<Rightarrow> st
      | None \<Rightarrow> NewBalanceState (Dag_getBalance (pdag p) addr))"

definition isBadTx :: "TxPool \<Rightarrow> Tx \<Rightarrow> TxQuality option" where
  "isBadTx p tx =
     (case check_parents p (ParentsHash tx) of
        None \<Rightarrow> None
      | Some (Some q) \<Rightarrow> Some q
      | Some None \<Rightarrow>
          (case AccountFlows_GetTxByNonce (flows p) (From tx) (AccountNonce tx) of
             Some txinpool \<Rightarrow>
               Some (if GetTxHash txinpool = HashOf tx then TxQualityIsFatal else TxQualityIsBad)
           | None \<Rightarrow>
               (case Dag_getTxByNonce (pdag p) (From tx) (AccountNonce tx) of
                  None \<Rightarrow> None
                | Some (Some txindag) \<Rightarrow> Some TxQualityIsFatal
                | Some None \<Rightarrow>
                    (let stateFrom = balance_state p (From tx) in
                     Some (if Value tx > originBalance stateFrom then TxQualityIsFatal
                           else if spent stateFrom + Value tx > originBalance stateFrom then TxQualityIsBad
                           else TxQualityIsGood)))))"

text \<open>One round of the loop of \<^verbatim>\<open>commit\<close> over the parents.\<close>

definition settle_parent :: "Hash \<Rightarrow> TxPool \<Rightarrow> TxPool" where
  "settle_parent pHash p =
     (if getStatus p pHash \<noteq> TxStatusTip then p
      else case TxMap_Get (tips p) pHash of
        None \<Rightarrow> p
      | Some parent \<Rightarrow>
          (if GetType parent = TxBaseTypeSequencer then
             p\<lparr>tips := TxMap_Remove (tips p) pHash,
               txLookup := lookup_remove (txLookup p) pHash removeFromFront\<rparr>
           else
             p\<lparr>tips := TxMap_Remove (tips p) pHash, pendings := TxMap_Add (pendings p) parent,
               txLookup := switchstatus (txLookup p) pHash TxStatusPending\<rparr>))"

text \<open>The flow of a sender is opened with the confirmed balance before its first entry.\<close>

definition open_flow :: "TxPool \<Rightarrow> Address \<Rightarrow> TxPool" where
  "open_flow p addr =
     (if AccountFlows_Get (flows p) addr = None
      then p\<lparr>flows := AccountFlows_ResetFlow (flows p) addr (Dag_getBalance (pdag p) addr)\<rparr> else p)"

definition pool_commit :: "TxPool \<Rightarrow> Tx \<Rightarrow> error option \<times> TxPool" where
  "pool_commit p tx =
     (case isBadTx p tx of
        None \<Rightarrow> (Some (ErrPanic ''dag''), p)
      | Some TxQualityIsFatal \<Rightarrow> (Some (ErrSurelyIncorrect (HashOf tx)), pool_remove p (TxiTx tx) removeFromEnd)
      | Some TxQualityIsBad \<Rightarrow>
          (None, p\<lparr>badtxs := TxMap_Add (badtxs p) (TxiTx tx),
                   txLookup := switchstatus (txLookup p) (HashOf tx) TxStatusBadTx\<rparr>)
      | Some TxQualityIsGood \<Rightarrow>
          (let p1 = fold settle_parent (ParentsHash tx) p;
               p2 = open_flow p1 (From tx)
           in (None, p2\<lparr>flows := AccountFlows_Add (flows p2) (TxiTx tx),
                        tips := TxMap_Add (tips p2) (TxiTx tx),
                        txLookup := switchstatus (txLookup p2) (HashOf tx) TxStatusTip\<rparr>)))"

section \<open>Seeking the elders of a sequencer\<close>

definition pool_txs :: "TxPool \<Rightarrow> Txi list" where
  "pool_txs p = map (envTx \<circ> snd) (lkTxs (txLookup p))"

definition parent_hashes :: "TxPool \<Rightarrow> Hash set" where
  "parent_hashes p = (\<Union>t \<in> set (pool_txs p). set (Parents t))"

fun enqueue_parents :: "Hash list \<Rightarrow> Hash list \<Rightarrow> Hash set \<Rightarrow> Hash list \<times> Hash set" where
  "enqueue_parents [] seekingPool inSeekingPool = (seekingPool, inSeekingPool)"
| "enqueue_parents (h # hs) seekingPool inSeekingPool =
     (if h \<notin> inSeekingPool then enqueue_parents hs (seekingPool @ [h]) (insert h inSeekingPool)
      else enqueue_parents hs seekingPool inSeekingPool)"

lemma enqueue_parents_eq:
  assumes "enqueue_parents hs sp ins = (sp', ins')"
  shows "ins' = ins \<union> set hs"
    and "set sp' = set sp \<union> (set hs - ins)"
    and "set hs \<subseteq> ins \<Longrightarrow> sp' = sp"
  using assms by (induction hs sp ins rule: enqueue_parents.induct) (auto split: if_splits)

lemma pool_get_mem: "pool_get p h = Some t \<Longrightarrow> t \<in> set (pool_txs p)"
  by (force simp: pool_get_def lookup_get_def pool_txs_def split: option.splits dest: map_of_SomeD)

lemma finite_parent_hashes [simp]: "finite (parent_hashes p)"
  by (simp add: parent_hashes_def)

lemma seek_measure:
  assumes "pool_get p h = Some t" "enqueue_parents (Parents t) sp ins = (sp', ins')"
  shows "card (parent_hashes p - ins') < card (parent_hashes p - ins)
    \<or> card (parent_hashes p - ins') = card (parent_hashes p - ins) \<and> sp' = sp"
proof (cases "set (Parents t) \<subseteq> ins")
  case True
  then show ?thesis using enqueue_parents_eq [OF assms(2)] by (simp add: Un_absorb2)
next
  case False
  have "set (Parents t) \<subseteq> parent_hashes p" using pool_get_mem [OF assms(1)] by (auto simp: parent_hashes_def)
  then have "parent_hashes p - ins' \<subset> parent_hashes p - ins"
    using False enqueue_parents_eq(1) [OF assms(2)] by auto
  then show ?thesis by (simp add: psubset_card_mono)
qed

text \<open>The loop ends: an iteration that queues nothing shortens the queue, and each parent hash of a
  pooled transaction is queued at most once.\<close>

function seek_loop ::
    "TxPool \<Rightarrow> Hash list \<Rightarrow> Hash set \<Rightarrow> (Hash, Txi) gomap \<Rightarrow> error + (Hash, Txi) gomap" where
  "seek_loop p [] inSeekingPool batch = Inr batch"
| "seek_loop p (elderHash # seekingPool) inSeekingPool batch =
     (case pool_get p elderHash of
        None \<Rightarrow>
          (case Dag_getTx (pdag p) elderHash of
             None \<Rightarrow> Inl (ErrPanic ''dag'')
           | Some None \<Rightarrow> Inl (ErrElderNotFound elderHash)
           | Some (Some _) \<Rightarrow> seek_loop p seekingPool inSeekingPool batch)
      | Some elder \<Rightarrow>
          (case enqueue_parents (Parents elder) seekingPool inSeekingPool of
             (sp, ins) \<Rightarrow>
               seek_loop p sp ins
                 (if map_of batch (GetTxHash elder) = None
                  then AList.update (GetTxHash elder) elder batch else batch)))"
  by pat_completeness auto
termination
proof (relation "(\<lambda>(p, sp, ins, b). card (parent_hashes p - ins)) <*mlex*> measure (\<lambda>(p, sp, ins, b). length sp)",
    goal_cases)
  case 1
  show ?case by (intro wf_mlex wf_measure)
next
  case (2 p h sp ins b)
  show ?case by (rule mlex_leq) simp_all
next
  case (3 p h sp ins b t sp' ins')
  from seek_measure [OF 3(1) 3(2) [symmetric]]
  consider "card (parent_hashes p - ins') < card (parent_hashes p - ins)"
    | "card (parent_hashes p - ins') = card (parent_hashes p - ins)" "sp' = sp" by metis
  then show ?case
  proof cases
    case 1
    then show ?thesis by (intro mlex_less) simp
  next
    case 2
    then show ?thesis by (intro mlex_leq) simp_all
  qed
qed

definition seekElders :: "TxPool \<Rightarrow> Txi \<Rightarrow> error + (Hash, Txi) gomap" where
  "seekElders p baseTx = seek_loop p (Parents baseTx) {} []"

section \<open>Verifying a confirm batch\<close>

text \<open>\<^verbatim>\<open>isBadSeq\<close>.\<close>

definition isBadSeq :: "TxPool \<Rightarrow> Sequencer \<Rightarrow> error option" where
  "isBadSeq p seq =
     (case Dag_getTxByNonce (pdag p) (Issuer seq) (AccountNonce seq) of
        None \<Rightarrow> Some (ErrPanic ''dag'')
      | Some (Some _) \<Rightarrow> Some (ErrSeqNonceInDag (AccountNonce seq))
      | Some None \<Rightarrow> None)"

definition new_detail :: BatchDetail where
  "new_detail = \<lparr>bdTxList = Some NewTxList, bdNeg = 0, bdPos = 0\<rparr>"

definition detail_of :: "(Address, BatchDetail) gomap \<Rightarrow> Address \<Rightarrow> BatchDetail" where
  "detail_of batch addr = (case map_of batch addr of None \<Rightarrow> new_detail | Some d \<Rightarrow> d)"

text \<open>The accounting of one transaction: the sender's entry is written back before the receiver's
  is looked up, so an account that pays itself is one entry.\<close>

definition add_to_batch :: "(Address, BatchDetail) gomap \<Rightarrow> Tx \<Rightarrow> (Address, BatchDetail) gomap" where
  "add_to_batch batch tx =
     (let batchFrom = detail_of batch (From tx);
          batch1 = AList.update (From tx)
            (batchFrom\<lparr>bdTxList := map_option (\<lambda>l. TxList_put l (TxiTx tx)) (bdTxList batchFrom),
                       bdNeg := bdNeg batchFrom + Value tx\<rparr>) batch;
          batchTo = detail_of batch1 (To tx)
      in AList.update (To tx) (batchTo\<lparr>bdPos := bdPos batchTo + Value tx\<rparr>) batch1)"

fun collect_batch ::
    "Sequencer \<Rightarrow> (Hash \<times> Txi) list \<Rightarrow> (Address, BatchDetail) gomap \<Rightarrow> error + (Address, BatchDetail) gomap" where
  "collect_batch seq [] batch = Inr batch"
| "collect_batch seq ((_, txi) # rest) batch =
     (if Sender txi = Issuer seq \<and> GetNonce txi = AccountNonce seq
      then Inl (ErrSeqNonceEqElder (AccountNonce seq) (GetTxHash txi))
      else case txi of
        TxiSeq _ \<Rightarrow> collect_batch seq rest batch
      | TxiTx tx \<Rightarrow> collect_batch seq rest (add_to_batch batch tx))"

text \<open>The neighbours of a sorted list of nonces that do not follow each other.\<close>

fun nonce_gap :: "uint64 list \<Rightarrow> (uint64 \<times> uint64) option" where
  "nonce_gap (m # n # ns) = (if n \<noteq> m + 1 then Some (m, n) else nonce_gap (n # ns))"
| "nonce_gap _ = None"

text \<open>\<^verbatim>\<open>verifyNonce\<close> sorts the slice it gets, which is the key slice of the batch: the sorted keys are the
  value of a successful check.\<close>

definition verifyNonce :: "TxPool \<Rightarrow> Address \<Rightarrow> uint64 list \<Rightarrow> Sequencer \<Rightarrow> error + uint64 list" where
  "verifyNonce p addr noncesP seq =
     (let nonces = sort noncesP;
          first = (case Dag_getLatestNonce (pdag p) addr of
                     Inl _ \<Rightarrow> (if nonces ! 0 \<noteq> 0 then Some (ErrNonceNotZero (nonces ! 0)) else None)
                   | Inr latestNonce \<Rightarrow>
                       (if nonces ! 0 \<noteq> latestNonce + 1 then Some (ErrNonceNotNext (nonces ! 0) latestNonce)
                        else None))
      in case first of
        Some err \<Rightarrow> Inl err
      | None \<Rightarrow>
          (case nonce_gap nonces of
             Some (m, n) \<Rightarrow> Inl (ErrNonceOrder m n)
           | None \<Rightarrow>
               (if Address_Hex (Issuer seq) = Address_Hex addr \<and> AccountNonce seq \<noteq> last nonces + 1
                then Inl (ErrSeqNonceNotNext (AccountNonce seq) (last nonces))
                else Inr nonces)))"

fun verify_details ::
    "TxPool \<Rightarrow> Sequencer \<Rightarrow> (Address \<times> BatchDetail) list \<Rightarrow> (Address, BatchDetail) gomap
      \<Rightarrow> error + (Address, BatchDetail) gomap" where
  "verify_details p seq [] batch = Inr batch"
| "verify_details p seq ((addr, batchDetail) # rest) batch =
     (if Dag_getBalance (pdag p) addr < bdNeg batchDetail then Inl (ErrBalanceNotEnough addr)
      else case bdTxList batchDetail of
        None \<Rightarrow> Inl (ErrPanic ''nil pointer dereference'')
      | Some l \<Rightarrow>
          (if \<not> length (keys l) > 0 then verify_details p seq rest batch
           else case verifyNonce p addr (keys l) seq of
             Inl err \<Rightarrow> Inl err
           | Inr nonces \<Rightarrow>
               verify_details p seq rest
                 (AList.update addr (batchDetail\<lparr>bdTxList := Some (l\<lparr>keys := nonces\<rparr>)\<rparr>) batch)))"

definition confirm_hashes :: "TxPool \<Rightarrow> (Hash, Txi) gomap \<Rightarrow> Hash list" where
  "confirm_hashes p elders =
     filter (\<lambda>hash. case map_of elders hash of None \<Rightarrow> False | Some elder \<Rightarrow> GetType elder = TxBaseTypeNormal)
       (getHashOrder p)"

definition verifyConfirmBatch ::
    "pool_orders \<Rightarrow> TxPool \<Rightarrow> Sequencer \<Rightarrow> (Hash, Txi) gomap \<Rightarrow> error + ConfirmBatch" where
  "verifyConfirmBatch ords p seq elders =
     (case collect_batch seq (ordElders ords elders) [] of
        Inl err \<Rightarrow> Inl err
      | Inr batch \<Rightarrow>
          (case verify_details p seq (ordDetails ords batch) batch of
             Inl err \<Rightarrow> Inl err
           | Inr batch' \<Rightarrow>
               Inr \<lparr>cbSeq = seq, cbBatch = batch', cbTxHashes = Some (confirm_hashes p elders)\<rparr>))"

section \<open>Confirming\<close>

text \<open>\<^verbatim>\<open>tx.(*types.Tx)\<close> panics on a sequencer object; the error of \<^verbatim>\<open>commit\<close> is ignored. The loops over
  the transactions of the pool do not change the lookup they read from.\<close>

definition is_panic :: "error option \<Rightarrow> bool" where
  "is_panic r = (case r of Some (ErrPanic _) \<Rightarrow> True | _ \<Rightarrow> False)"

fun rejudge :: "TxPool \<Rightarrow> Txi list \<Rightarrow> TxPool option" where
  "rejudge p [] = Some p"
| "rejudge p (tx # txs) =
     (let p1 = p\<lparr>txLookup := lookup_add (txLookup p)
                  \<lparr>envTx = tx, envTxType = TxTypeRejudge, envStatus = TxStatusQueue\<rparr>\<rparr>
      in case tx of
        TxiSeq _ \<Rightarrow> None
      | TxiTx t \<Rightarrow>
          (case pool_commit p1 t of (r, p2) \<Rightarrow> if is_panic r then None else rejudge p2 txs))"

definition left_in_pool :: "TxPool \<Rightarrow> Txi list" where
  "left_in_pool p =
     filter (\<lambda>tx. GetType tx \<noteq> TxBaseTypeSequencer) (List.map_filter (pool_get p) (getorder (txLookup p)))"

definition solveConflicts :: "pool_orders \<Rightarrow> TxPool \<Rightarrow> (Hash, Txi) gomap \<Rightarrow> TxPool option" where
  "solveConflicts ords p elders =
     (let p1 = p\<lparr>txLookup :=
                 fold (\<lambda>(elderHash, _) t. lookup_remove t elderHash noRemove) (ordElders ords elders) (txLookup p)\<rparr>
      in rejudge (clearAll p1) (left_in_pool p1))"

definition confirm_notices :: "TxPool \<Rightarrow> (Hash, Txi) gomap \<Rightarrow> notice list" where
  "confirm_notices p elders =
     map (\<lambda>i. BatchConfirmed i elders) [0..<OnBatchConfirmed p]
       @ map NewLatestSequencer [0..<OnNewLatestSequencer p]"

definition pool_confirm :: "pool_orders \<Rightarrow> TxPool \<Rightarrow> Sequencer \<Rightarrow> error option \<times> TxPool" where
  "pool_confirm ords p seq =
     (case isBadSeq p seq of
        Some err \<Rightarrow> (Some err, p)
      | None \<Rightarrow>
          (case seekElders p (TxiSeq seq) of
             Inl err \<Rightarrow> (Some err, p)
           | Inr elders \<Rightarrow>
               (case verifyConfirmBatch ords p seq elders of
                  Inl err \<Rightarrow> (Some err, p)
                | Inr batch \<Rightarrow>
                    (case Dag_push (ordPush ords) (pdag p) batch of
                       (Some err, dag') \<Rightarrow> (Some err, p\<lparr>pdag := dag'\<rparr>)
                     | (None, dag') \<Rightarrow>
                         (case solveConflicts ords (p\<lparr>pdag := dag'\<rparr>) elders of
                            None \<Rightarrow> (Some (ErrPanic ''interface conversion''), p\<lparr>pdag := dag'\<rparr>)
                          | Some p1 \<Rightarrow>
                              (let p2 = open_flow p1 (Issuer seq) in
                               (None, p2\<lparr>flows := AccountFlows_Add (flows p2) (TxiSeq seq),
                                         tips := TxMap_Add (tips p2) (TxiSeq seq),
                                         txLookup := switchstatus (txLookup p2) (HashOf seq) TxStatusTip,
                                         notices := notices p2 @ confirm_notices p2 elders\<rparr>)))))))"

section \<open>The event loop\<close>

text \<open>The assignment \<^verbatim>\<open>tx.GetBase().Height = h\<close> is seen through every reference to the transaction that the pool
  holds.\<close>

definition with_height :: "Hash \<Rightarrow> uint64 \<Rightarrow> Txi \<Rightarrow> Txi" where
  "with_height hash h tx = (if GetTxHash tx = hash then set_Height tx h else tx)"

definition map_TxMap :: "(Txi \<Rightarrow> Txi) \<Rightarrow> TxMap \<Rightarrow> TxMap" where
  "map_TxMap f tm = tm\<lparr>tmTxs := map (\<lambda>(k, t). (k, f t)) (tmTxs tm)\<rparr>"

definition assign_height :: "TxPool \<Rightarrow> Hash \<Rightarrow> uint64 \<Rightarrow> TxPool" where
  "assign_height p hash h =
     (let f = with_height hash h in
      p\<lparr>txLookup := (txLookup p)\<lparr>lkTxs := map (\<lambda>(k, e). (k, e\<lparr>envTx := f (envTx e)\<rparr>)) (lkTxs (txLookup p))\<rparr>,
        tips := map_TxMap f (tips p), badtxs := map_TxMap f (badtxs p), pendings := map_TxMap f (pendings p),
        flows := \<lparr>afs = (\<lambda>a. map_option
                    (\<lambda>af. af\<lparr>txlist := (txlist af)\<lparr>txflow := map_option f \<circ> txflow (txlist af)\<rparr>\<rparr>) (afs (flows p) a))\<rparr>\<rparr>)"

definition raise_maxWeight :: "TxPool \<Rightarrow> uint64 \<Rightarrow> TxPool" where
  "raise_maxWeight p w = (if maxWeight p < w then p\<lparr>maxWeight := w\<rparr> else p)"

text \<open>The handling of one event taken from the queue.\<close>

definition loop_event :: "pool_orders \<Rightarrow> TxPool \<Rightarrow> txEnvelope \<Rightarrow> error option \<times> TxPool" where
  "loop_event ords p txEnv =
     (let tx = envTx txEnv in
      if pool_get p (GetTxHash tx) \<noteq> None then (Some ErrDuplicateTx, p)
      else
        let p1 = p\<lparr>txLookup := lookup_add (txLookup p) txEnv\<rparr> in
        case tx of
          TxiTx t \<Rightarrow>
            (case pool_commit p1 t of
               (Some err, p2) \<Rightarrow> (Some err, p2)
             | (None, p2) \<Rightarrow>
                 (let p3 = raise_maxWeight (p2\<lparr>txNum := txNum p2 + 1\<rparr>) (Weight t) in
                  case latestSequencer (pdag p3) of
                    None \<Rightarrow> (Some (ErrPanic ''nil pointer dereference''), p3)
                  | Some latest \<Rightarrow> (None, assign_height p3 (HashOf t) (Height latest + 1))))
        | TxiSeq s \<Rightarrow>
            (case pool_confirm ords p1 s of
               (Some err, p2) \<Rightarrow> (Some err, p2\<lparr>txLookup := lookup_remove (txLookup p2) (HashOf s) removeFromEnd\<rparr>)
             | (None, p2) \<Rightarrow> (None, raise_maxWeight (p2\<lparr>txNum := 0\<rparr>) (Weight s))))"

definition new_event :: "Txi \<Rightarrow> TxType \<Rightarrow> txEnvelope" where
  "new_event tx senderType = \<lparr>envTx = tx, envTxType = senderType, envStatus = TxStatusQueue\<rparr>"

definition notify_new_tx :: "(string list \<Rightarrow> string list) \<Rightarrow> TxPool \<Rightarrow> Txi \<Rightarrow> TxPool" where
  "notify_new_tx ord p tx =
     p\<lparr>notices := notices p @ map (\<lambda>name. NewTxReceived name tx) (ord (onNewTxReceived p))\<rparr>"

text \<open>\<^verbatim>\<open>addTx\<close> when no other event is waiting: the event is served, and the subscribers are told.\<close>

definition addTx :: "pool_orders \<Rightarrow> (string list \<Rightarrow> string list) \<Rightarrow> TxPool \<Rightarrow> Txi \<Rightarrow> TxType \<Rightarrow> error option \<times> TxPool" where
  "addTx ords ord p tx senderType =
     (case loop_event ords p (new_event tx senderType) of
        (Some err, p1) \<Rightarrow> (Some err, p1)
      | (None, p1) \<Rightarrow> (None, notify_new_tx ord p1 tx))"

definition AddLocalTx :: "pool_orders \<Rightarrow> (string list \<Rightarrow> string list) \<Rightarrow> TxPool \<Rightarrow> Txi \<Rightarrow> error option \<times> TxPool" where
  "AddLocalTx ords ord p tx = addTx ords ord p tx TxTypeLocal"

definition AddRemoteTx :: "pool_orders \<Rightarrow> (string list \<Rightarrow> string list) \<Rightarrow> TxPool \<Rightarrow> Txi \<Rightarrow> error option \<times> TxPool" where
  "AddRemoteTx ords ord p tx = addTx ords ord p tx TxTypeRemote"

fun add_all ::
    "pool_orders \<Rightarrow> (string list \<Rightarrow> string list) \<Rightarrow> TxType \<Rightarrow> TxPool \<Rightarrow> Txi list \<Rightarrow> error option list
      \<Rightarrow> error option list \<times> TxPool" where
  "add_all ords ord ty p [] result = (result, p)"
| "add_all ords ord ty p (tx # txs) result =
     (case addTx ords ord p tx ty of (err, p1) \<Rightarrow> add_all ords ord ty p1 txs (result @ [err]))"

definition AddLocalTxs ::
    "pool_orders \<Rightarrow> (string list \<Rightarrow> string list) \<Rightarrow> TxPool \<Rightarrow> Txi list \<Rightarrow> error option list \<times> TxPool" where
  "AddLocalTxs ords ord p txs = add_all ords ord TxTypeLocal p txs (replicate (length txs) None)"

definition AddRemoteTxs ::
    "pool_orders \<Rightarrow> (string list \<Rightarrow> string list) \<Rightarrow> TxPool \<Rightarrow> Txi list \<Rightarrow> error option list \<times> TxPool" where
  "AddRemoteTxs ords ord p txs = add_all ords ord TxTypeRemote p txs (replicate (length txs) None)"

end
