(* ===== verification/DagPush.thy ===== *)
theory DagPush
  imports Dag
begin

text \<open>
  What \<^verbatim>\<open>push\<close> of \<^verbatim>\<open>src/core/dag.go\<close> achieves. The execution of a batch of plain transactions is
  a run of transfers of the ledger interface, so the balances after it do not depend on the
  order in which Go ranges over the batch; everything written can be read back; the latest sequencer
  advances by one; and the invariant of the DAG is kept, so that pushes can be iterated.
\<close>

section \<open>The transaction cache\<close>

definition tc_ok :: "txcached \<Rightarrow> bool" where
  "tc_ok tc \<longleftrightarrow> 0 < tcMaxsize tc \<and> distinct (tcOrder tc) \<and> set (tcOrder tc) = dom (tcTxs tc)
     \<and> length (tcOrder tc) \<le> tcMaxsize tc \<and> (\<forall>h t. tcTxs tc h = Some t \<longrightarrow> GetTxHash t = h)"

lemma tc_ok_new: "0 < n \<Longrightarrow> tc_ok (newTxcached n)"
  by (simp add: tc_ok_def newTxcached_def)

lemma txcached_add_new:
  assumes "tc_ok tc" "tcTxs tc (GetTxHash tx) = None"
  shows "\<exists>tc'. txcached_add tc tx = Some tc' \<and> tc_ok tc' \<and> tcMaxsize tc' = tcMaxsize tc
     \<and> tcOrder tc' = (if length (tcOrder tc) < tcMaxsize tc then tcOrder tc else tl (tcOrder tc)) @ [GetTxHash tx]
     \<and> tcTxs tc' = (tcTxs tc |` set (butlast (tcOrder tc')))(GetTxHash tx \<mapsto> tx)"
proof (cases "length (tcOrder tc) < tcMaxsize tc")
  case True
  have "tcTxs tc |` set (tcOrder tc) = tcTxs tc"
    using assms(1) by (intro ext) (auto simp: tc_ok_def restrict_map_def dom_def)
  then show ?thesis using True assms by (auto simp: txcached_add_def tc_ok_def Let_def)
next
  case False
  then obtain f rest where o: "tcOrder tc = f # rest"
    using assms(1) by (cases "tcOrder tc") (auto simp: tc_ok_def)
  have d: "dom (tcTxs tc) = insert f (set rest)" "f \<notin> set rest"
    using assms(1) o by (auto simp: tc_ok_def)
  then have r: "(tcTxs tc)(f := None) = tcTxs tc |` set rest"
    by (intro ext) (auto simp: restrict_map_def fun_upd_apply dom_def)
  have nf: "GetTxHash tx \<noteq> f" "GetTxHash tx \<notin> set rest" using assms(2) d by auto
  have dr: "dom ((tcTxs tc)(f := None)) = set rest" using d by auto
  show ?thesis
    using False o assms nf d r dr
    by (auto simp: txcached_add_def tc_ok_def Let_def fun_upd_apply restrict_map_def split: if_splits)
qed

lemma txcached_add_total:
  assumes "tc_ok tc"
  shows "\<exists>tc'. txcached_add tc tx = Some tc' \<and> tc_ok tc'"
proof (cases "tcTxs tc (GetTxHash tx)")
  case None
  then show ?thesis using txcached_add_new [OF assms] by blast
qed (use assms in \<open>simp add: txcached_add_def\<close>)

section \<open>Writing a transaction\<close>

definition stored :: "Dag \<Rightarrow> Txi \<Rightarrow> bool" where
  "stored dag tx \<longleftrightarrow>
     ReadTransaction (dcodec dag) (ddb dag) (GetTxHash tx) = Some (Some tx)
     \<and> get_data (ddb dag) (txHashFlowKey (Sender tx) (GetNonce tx)) = Hash_ToBytes (GetTxHash tx)"

lemma stored_by_nonce: "stored dag tx \<Longrightarrow> Dag_getTxByNonce dag (Sender tx) (GetNonce tx) = Some (Some tx)"
proof -
  have "Hash_ToBytes h \<noteq> []" for h by (metis length_Hash_ToBytes list.size(3) zero_neq_numeral)
  then show "stored dag tx \<Longrightarrow> Dag_getTxByNonce dag (Sender tx) (GetNonce tx) = Some (Some tx)"
    by (simp add: stored_def Dag_getTxByNonce_def ReadTxByNonce_def Let_def)
qed

text \<open>The part of the DAG that writes and executions leave alone.\<close>

definition dframe :: "Dag \<Rightarrow> Dag \<Rightarrow> bool" where
  "dframe dag dag' \<longleftrightarrow> dcodec dag' = dcodec dag \<and> denv dag' = denv dag \<and> genesis dag' = genesis dag
     \<and> latestSequencer dag' = latestSequencer dag"

definition store_ok :: "Dag \<Rightarrow> bool" where
  "store_ok dag \<longleftrightarrow> (\<forall>k. \<not> put_fails (ddb dag) k) \<and> tc_ok (dtxcached dag)"

definition same_data :: "dbkey set \<Rightarrow> Dag \<Rightarrow> Dag \<Rightarrow> bool" where
  "same_data K dag dag' \<longleftrightarrow> (\<forall>k. k \<notin> K \<longrightarrow> get_data (ddb dag') (key_bytes k) = get_data (ddb dag) (key_bytes k))"

lemma dframe_refl [simp]: "dframe dag dag"
  by (simp add: dframe_def)

lemma dframe_trans: "dframe a b \<Longrightarrow> dframe b c \<Longrightarrow> dframe a c"
  by (simp add: dframe_def)

lemma same_data_trans: "same_data K a b \<Longrightarrow> same_data L b c \<Longrightarrow> same_data (K \<union> L) a c"
  by (simp add: same_data_def)

lemma same_data_refl [simp]: "same_data K dag dag"
  by (simp add: same_data_def)

definition tx_keys :: "Txi \<Rightarrow> dbkey set" where
  "tx_keys tx = {KTx (GetTxHash tx), KFlow (Sender tx) (GetNonce tx)}"

lemma stored_same_data:
  assumes "stored dag tx" "same_data K dag dag'" "dcodec dag' = dcodec dag" "tx_keys tx \<inter> K = {}"
  shows "stored dag' tx"
proof -
  have k: "get_data (ddb dag') (transactionKey (GetTxHash tx)) = get_data (ddb dag) (transactionKey (GetTxHash tx))"
    "get_data (ddb dag') (txHashFlowKey (Sender tx) (GetNonce tx)) = get_data (ddb dag) (txHashFlowKey (Sender tx) (GetNonce tx))"
    using assms(2,4) unfolding keys_as_bytes same_data_def tx_keys_def by blast+
  show ?thesis using assms(1,3) ReadTransaction_cong [OF k(1)] k(2) by (simp add: stored_def)
qed

lemma Dag_WriteTransaction_ok:
  assumes "store_ok dag" "tx_codec_at (dcodec dag) tx"
  shows "\<exists>dag'. Dag_WriteTransaction dag tx = (None, dag') \<and> dframe dag dag' \<and> store_ok dag'
     \<and> statedb dag' = statedb dag \<and> stored dag' tx \<and> same_data (tx_keys tx) dag dag'"
proof -
  let ?fk = "txHashFlowKey (Sender tx) (GetNonce tx)" and ?h = "GetTxHash tx"
  obtain db1 where p1: "Put (ddb dag) ?fk (Hash_ToBytes ?h) = (None, db1)" and f1: "\<not> put_fails db1 k" for k
    using assms(1) by (auto simp: Put_def store_ok_def)
  obtain db2 where p2: "WriteTransaction (dcodec dag) db1 tx = (None, db2)" and f2: "\<not> put_fails db2 k" for k
  proof -
    obtain v where "WriteTransaction (dcodec dag) db1 tx = Put db1 (transactionKey ?h) v"
      using assms(2) by (cases tx) (auto simp: tx_codec_at_def codec_at_def WriteTransaction_def)
    then show thesis using that f1 by (auto simp: Put_def)
  qed
  obtain tc where tc: "txcached_add (dtxcached dag) tx = Some tc" "tc_ok tc"
    using txcached_add_total [of "dtxcached dag" tx] assms(1) by (auto simp: store_ok_def)
  let ?dag' = "dag\<lparr>ddb := db2, dtxcached := tc\<rparr>"
  have w: "Dag_WriteTransaction dag tx = (None, ?dag')"
    using p1 p2 tc by (simp add: Dag_WriteTransaction_def WriteTxHashByNonce_def)
  have o2: "get_data db2 k = get_data db1 k" if "k \<noteq> transactionKey ?h" for k
    using WriteTransaction_other [OF p2 that] .
  have o1: "get_data db1 k = get_data (ddb dag) k" if "k \<noteq> ?fk" for k
    using get_data_Put_other [OF p1 that] .
  have "?fk \<noteq> transactionKey ?h" unfolding keys_as_bytes by (rule key_neq) simp
  then have "get_data db2 ?fk = Hash_ToBytes ?h" using o2 get_data_Put [OF p1] by simp
  then have "stored ?dag' tx" using Read_WriteTransaction [OF assms(2) p2] by (simp add: stored_def)
  moreover have "get_data db2 (key_bytes k) = get_data (ddb dag) (key_bytes k)" if "k \<notin> tx_keys tx" for k
    using o1 [of "key_bytes k"] o2 [of "key_bytes k"] that key_neq [of k "KTx ?h"]
      key_neq [of k "KFlow (Sender tx) (GetNonce tx)"] by (simp add: tx_keys_def)
  then have "same_data (tx_keys tx) dag ?dag'" by (simp add: same_data_def)
  ultimately show ?thesis using w tc f2 by (simp add: dframe_def store_ok_def)
qed

section \<open>Executing a transaction\<close>

definition plain :: "Txi \<Rightarrow> bool" where
  "plain tx = (case tx of TxiTx t \<Rightarrow> TypeOf t \<noteq> TxBaseTypeSequencer \<and> Data t = [] | TxiSeq _ \<Rightarrow> False)"

definition xfer :: "Txi \<Rightarrow> Address \<times> Address \<times> int \<times> uint64" where
  "xfer tx = (case tx of TxiTx t \<Rightarrow> (From t, To t, Value t, AccountNonce t) | TxiSeq s \<Rightarrow> (Issuer s, Issuer s, 0, AccountNonce s))"

lemma update_nonce_bump: "update_nonce sd tx = ledger.bump sd (Sender tx) (GetNonce tx)"
  by (simp add: update_nonce_def ledger.bump_def GetNonce_eq Exist_eq looked_up_eq)

lemma transfer_value_eq: "transfer_value sd t = addBalance (subBalance sd (From t) (Value t)) (To t) (Value t)"
  by (simp add: transfer_value_def sgn_0_0 addBalance_def subBalance_def)

lemma ProcessTransaction_plain:
  assumes "plain tx"
  shows "\<exists>r. ProcessTransaction dag tx =
     (Inr ([], r), dag\<lparr>statedb := ledger.transfer (statedb dag) (xfer tx)\<rparr>)
     \<and> rTxHash r = GetTxHash tx \<and> rStatus r = ReceiptStatusTxSuccess"
  using assms
  by (auto simp: plain_def xfer_def ProcessTransaction_def update_nonce_bump transfer_value_eq
      ledger.transfer_def NewReceipt_def Let_def split: Txi.splits)

lemma ProcessTransaction_seq:
  assumes "TypeOf s = TxBaseTypeSequencer"
  shows "\<exists>r. ProcessTransaction dag (TxiSeq s) =
     (Inr ([], r), dag\<lparr>statedb := ledger.transfer (statedb dag) (xfer (TxiSeq s))\<rparr>)
     \<and> rTxHash r = HashOf s \<and> rStatus r = ReceiptStatusSeqSuccess"
  using assms
  by (auto simp: xfer_def ProcessTransaction_def update_nonce_bump ledger.transfer_def NewReceipt_def
      Let_def addBalance_def subBalance_def)

lemma set_Height_same [simp]:
  "plain (set_Height tx h) = plain tx" "xfer (set_Height tx h) = xfer tx"
  "tx_keys (set_Height tx h) = tx_keys tx"
  by (cases tx; simp add: plain_def xfer_def tx_keys_def)+

section \<open>Executing a batch\<close>

fun push_txs :: "Dag \<Rightarrow> uint64 \<Rightarrow> Txi list \<Rightarrow> ReceiptSet \<Rightarrow> (error + ReceiptSet) \<times> Dag" where
  "push_txs dag height [] receipts = (Inr receipts, dag)"
| "push_txs dag height (tx # txs) receipts =
     (case push_tx dag height tx receipts of
        (Inl err, dag1) \<Rightarrow> (Inl err, dag1)
      | (Inr receipts1, dag1) \<Rightarrow> push_txs dag1 height txs receipts1)"

definition list_txs :: "TxList \<Rightarrow> Txi list" where
  "list_txs l = map (\<lambda>n. the (TxList_get l n)) (keys l)"

definition detail_txs :: "Address \<times> BatchDetail \<Rightarrow> Txi list" where
  "detail_txs = (\<lambda>(a, d). case bdTxList d of None \<Rightarrow> [] | Some l \<Rightarrow> list_txs l)"

definition batch_txs :: "(Address \<times> BatchDetail) list \<Rightarrow> Txi list" where
  "batch_txs ds = concat (map detail_txs ds)"

definition detail_ok :: "Address \<times> BatchDetail \<Rightarrow> bool" where
  "detail_ok = (\<lambda>(a, d). \<exists>l. bdTxList d = Some l \<and> (\<forall>n \<in> set (keys l). TxList_get l n \<noteq> None))"

lemma push_txs_append:
  "push_txs dag h (xs @ ys) rs =
     (case push_txs dag h xs rs of
        (Inl err, dag1) \<Rightarrow> (Inl err, dag1)
      | (Inr rs1, dag1) \<Rightarrow> push_txs dag1 h ys rs1)"
  by (induction dag h xs rs rule: push_txs.induct) (auto split: prod.splits sum.splits)

lemma push_list_txs:
  "\<forall>n \<in> set ns. TxList_get l n \<noteq> None \<Longrightarrow>
   push_list dag h l ns rs = push_txs dag h (map (\<lambda>n. the (TxList_get l n)) ns) rs"
  by (induction dag h l ns rs rule: push_list.induct) (auto split: prod.splits sum.splits)

lemma push_batch_txs:
  "\<forall>d \<in> set ds. detail_ok d \<Longrightarrow> push_batch dag h ds rs = push_txs dag h (batch_txs ds) rs"
proof (induction dag h ds rs rule: push_batch.induct)
  case (2 dag h a d rest rs)
  obtain l where l: "bdTxList d = Some l" "\<forall>n \<in> set (keys l). TxList_get l n \<noteq> None"
    using 2(2) by (auto simp: detail_ok_def)
  show ?case
    using 2 l push_list_txs [OF l(2), of dag h rs]
    by (auto simp: batch_txs_def detail_txs_def list_txs_def push_txs_append split: prod.splits sum.splits)
qed (simp add: batch_txs_def)

lemma push_tx_ok:
  assumes "store_ok dag" "plain tx" "tx_codec_at (dcodec dag) (set_Height tx h)"
  shows "\<exists>rs' dag'. push_tx dag h tx rs = (Inr rs', dag') \<and> dframe dag dag' \<and> store_ok dag'
     \<and> statedb dag' = ledger.transfer (statedb dag) (xfer tx) \<and> stored dag' (set_Height tx h)
     \<and> same_data (tx_keys tx) dag dag'"
proof -
  obtain dag1 where w: "Dag_WriteTransaction dag (set_Height tx h) = (None, dag1)"
    and d: "dframe dag dag1" "store_ok dag1" "statedb dag1 = statedb dag" "stored dag1 (set_Height tx h)"
      "same_data (tx_keys tx) dag dag1"
    using Dag_WriteTransaction_ok [OF assms(1,3)] by auto
  obtain r where p: "ProcessTransaction dag1 (set_Height tx h) =
      (Inr ([], r), dag1\<lparr>statedb := ledger.transfer (statedb dag1) (xfer tx)\<rparr>)"
    using ProcessTransaction_plain [of "set_Height tx h" dag1] assms(2) by auto
  let ?dag' = "dag1\<lparr>statedb := ledger.transfer (statedb dag1) (xfer tx)\<rparr>"
  have "push_tx dag h tx rs = (Inr (AList.update (Hash_Hex (GetTxHash (set_Height tx h))) r rs), ?dag')"
    using w p by (simp add: push_tx_def Let_def)
  moreover have "dframe dag ?dag'" "store_ok ?dag'" "stored ?dag' (set_Height tx h)" "same_data (tx_keys tx) dag ?dag'"
    using d by (simp_all add: dframe_def store_ok_def stored_def same_data_def)
  ultimately show ?thesis using d(3) by auto
qed

text \<open>Different hashes and different (sender, nonce) pairs.\<close>

definition tx_distinct :: "Txi list \<Rightarrow> bool" where
  "tx_distinct txs \<longleftrightarrow> distinct (map GetTxHash txs) \<and> distinct (map (\<lambda>t. (Sender t, GetNonce t)) txs)"

lemma tx_distinct_Cons:
  "tx_distinct (tx # txs) \<longleftrightarrow> tx_distinct txs \<and> (\<forall>u \<in> set txs. tx_keys tx \<inter> tx_keys u = {})"
proof -
  have "GetTxHash tx \<notin> GetTxHash ` set txs \<and> (Sender tx, GetNonce tx) \<notin> (\<lambda>t. (Sender t, GetNonce t)) ` set txs
      \<longleftrightarrow> (\<forall>u \<in> set txs. tx_keys tx \<inter> tx_keys u = {})"
    by (fastforce simp: tx_keys_def)
  then show ?thesis by (auto simp: tx_distinct_def)
qed

lemma push_txs_ok:
  assumes "store_ok dag" "\<forall>tx \<in> set txs. plain tx \<and> tx_codec_at (dcodec dag) (set_Height tx h)"
  shows "\<exists>rs' dag'. push_txs dag h txs rs = (Inr rs', dag') \<and> dframe dag dag' \<and> store_ok dag'
     \<and> statedb dag' = foldl ledger.transfer (statedb dag) (map xfer txs)
     \<and> same_data (\<Union> (tx_keys ` set txs)) dag dag'
     \<and> (tx_distinct txs \<longrightarrow> (\<forall>tx \<in> set txs. stored dag' (set_Height tx h)))"
  using assms
proof (induction txs arbitrary: dag rs)
  case (Cons tx txs)
  have hd: "plain tx" "tx_codec_at (dcodec dag) (set_Height tx h)" using Cons.prems(2) by simp_all
  obtain rs1 dag1 where p: "push_tx dag h tx rs = (Inr rs1, dag1)"
    and d: "dframe dag dag1" "store_ok dag1" "statedb dag1 = ledger.transfer (statedb dag) (xfer tx)"
      "stored dag1 (set_Height tx h)" "same_data (tx_keys tx) dag dag1"
    using push_tx_ok [OF Cons.prems(1) hd, of rs] by blast
  have c: "dcodec dag1 = dcodec dag" using d(1) by (simp add: dframe_def)
  have rest: "\<forall>u \<in> set txs. plain u \<and> tx_codec_at (dcodec dag1) (set_Height u h)"
    using Cons.prems(2) c by simp
  obtain rs2 dag2 where q: "push_txs dag1 h txs rs1 = (Inr rs2, dag2)"
    and e: "dframe dag1 dag2" "store_ok dag2"
      "statedb dag2 = foldl ledger.transfer (statedb dag1) (map xfer txs)"
      "same_data (\<Union> (tx_keys ` set txs)) dag1 dag2"
      "tx_distinct txs \<longrightarrow> (\<forall>tx \<in> set txs. stored dag2 (set_Height tx h))"
    using Cons.IH [OF d(2) rest, of rs1] by blast
  have st: "stored dag2 (set_Height tx h)" if "tx_distinct (tx # txs)"
    using that e(1) by (intro stored_same_data [OF d(4) e(4)]) (auto simp: tx_distinct_Cons dframe_def)
  show ?case
  proof (intro exI conjI impI)
    show "push_txs dag h (tx # txs) rs = (Inr rs2, dag2)" using p q by simp
    show "dframe dag dag2" using d(1) e(1) by (rule dframe_trans)
    show "store_ok dag2" by (rule e(2))
    show "statedb dag2 = foldl ledger.transfer (statedb dag) (map xfer (tx # txs))" using d(3) e(3) by simp
    show "same_data (\<Union> (tx_keys ` set (tx # txs))) dag dag2" using same_data_trans [OF d(5) e(4)] by simp
    assume "tx_distinct (tx # txs)"
    then show "\<forall>u \<in> set (tx # txs). stored dag2 (set_Height u h)"
      using st e(5) by (simp add: tx_distinct_Cons)
  qed
qed simp

section \<open>The range order does not matter\<close>

lemma mset_batch_txs:
  assumes "range_order ord"
  shows "mset (batch_txs (ord ds)) = mset (batch_txs ds)"
proof -
  have m: "mset (batch_txs xs) = sum_mset (image_mset (mset \<circ> detail_txs) (mset xs))" for xs
    by (induction xs) (simp_all add: batch_txs_def)
  show ?thesis using assms by (simp add: m range_order_def)
qed

lemma sum_list_mset_cong: "mset xs = mset ys \<Longrightarrow> sum_list xs = sum_list (ys :: int list)"
  by (metis sum_mset_sum_list)

lemma sent_mset: "mset xs = mset ys \<Longrightarrow> ledger.sent (map xfer xs) a = ledger.sent (map xfer ys) a"
  unfolding ledger.sent_def by (rule sum_list_mset_cong) (simp only: mset_map)

lemma received_mset: "mset xs = mset ys \<Longrightarrow> ledger.received (map xfer xs) a = ledger.received (map xfer ys) a"
  unfolding ledger.received_def by (rule sum_list_mset_cong) (simp only: mset_map)

section \<open>The push\<close>

definition dag_inv :: "Dag \<Rightarrow> bool" where
  "dag_inv dag \<longleftrightarrow> sd_inv (statedb dag) \<and> store_ok dag \<and> latestSequencer dag \<noteq> None"

text \<open>The services \<^verbatim>\<open>push\<close> relies on: receipts, hash lists and confirm times can be encoded, the
  flush of the trie database succeeds, and \<^verbatim>\<open>range\<close> visits every entry once.\<close>

definition services_ok :: "push_orders \<Rightarrow> Dag \<Rightarrow> bool" where
  "services_ok ords dag \<longleftrightarrow>
     (\<forall>rs. \<exists>d. marshalReceipts (dcodec dag) rs = Inr d)
     \<and> (\<forall>hs. codec_at (marshalHashes (dcodec dag)) (unmarshalHashes (dcodec dag)) hs)
     \<and> (\<forall>sd root. triedbCommit (denv dag) sd root = None)
     \<and> range_order (ordBatch ords) \<and> range_order (ordStates ords)"

definition batch_ok :: "Dag \<Rightarrow> ConfirmBatch \<Rightarrow> bool" where
  "batch_ok dag batch \<longleftrightarrow>
     (\<exists>latest. latestSequencer dag = Some latest \<and> Height (cbSeq batch) = Height latest + 1)
     \<and> TypeOf (cbSeq batch) = TxBaseTypeSequencer \<and> tx_codec_at (dcodec dag) (TxiSeq (cbSeq batch))
     \<and> (\<forall>d \<in> set (cbBatch batch). detail_ok d)
     \<and> (\<forall>tx \<in> set (batch_txs (cbBatch batch)). plain tx \<and> tx_codec_at (dcodec dag) (set_Height tx (Height (cbSeq batch))))"

lemma put_marshalled_ok:
  assumes "\<And>k. \<not> put_fails db k" "m = Inr d"
  shows "put_marshalled db k m = (None, db\<lparr>kv := (kv db)(k \<mapsto> d)\<rparr>)"
  using assms by (simp add: put_marshalled_def Put_def)

lemma same_data_put:
  assumes "put_marshalled (ddb dag) (key_bytes k) m = (r, db')"
  shows "same_data {k} dag (dag\<lparr>ddb := db'\<rparr>)"
  using put_marshalled_other [OF assms] key_neq by (simp add: same_data_def)

lemma put_marshalled_frame: "put_marshalled db k m = (r, db') \<Longrightarrow> put_fails db' = put_fails db"
  by (auto simp: put_marshalled_def Put_def split: sum.splits if_splits)

lemma get_data_put_ok:
  assumes "\<And>k. \<not> put_fails db k" "m = Inr d"
  obtains db' where "put_marshalled db (key_bytes k) m = (None, db')" "\<And>k. \<not> put_fails db' k"
    "\<And>j. get_data db' (key_bytes j) = (if j = k then d else get_data db (key_bytes j))"
proof -
  let ?db' = "db\<lparr>kv := (kv db)(key_bytes k \<mapsto> d)\<rparr>"
  have "put_marshalled db (key_bytes k) m = (None, ?db')" using assms by (rule put_marshalled_ok)
  moreover have "get_data ?db' (key_bytes j) = (if j = k then d else get_data db (key_bytes j))" for j
    by (simp add: get_data_kv key_bytes_eq)
  ultimately show thesis using that assms(1) by simp
qed

definition index_keys :: "uint64 \<Rightarrow> dbkey set" where
  "index_keys h = {KIndex h, KSeq h, KLatestSeq, KConfirm h}"

definition indexed :: "Dag \<Rightarrow> ConfirmBatch \<Rightarrow> bool" where
  "indexed dag batch \<longleftrightarrow>
     ReadLatestSequencer (dcodec dag) (ddb dag) = Some (cbSeq batch)
     \<and> ReadSequencerByHeight (dcodec dag) (ddb dag) (Height (cbSeq batch)) = Inr (cbSeq batch)
     \<and> (\<forall>hs. cbTxHashes batch = Some hs \<longrightarrow> hs \<noteq> []
          \<longrightarrow> ReadIndexedTxHashs (dcodec dag) (ddb dag) (Height (cbSeq batch)) = Inr hs)"

lemma push_indices_ok:
  assumes "store_ok dag" "codec_at (marshalSeq (dcodec dag)) (unmarshalSeq (dcodec dag)) (cbSeq batch)"
    and "\<And>hs. codec_at (marshalHashes (dcodec dag)) (unmarshalHashes (dcodec dag)) hs"
  shows "\<exists>dag'. push_indices dag batch = (None, dag') \<and> latestSequencer dag' = Some (cbSeq batch)
     \<and> dcodec dag' = dcodec dag \<and> denv dag' = denv dag \<and> genesis dag' = genesis dag \<and> store_ok dag'
     \<and> statedb dag' = statedb dag \<and> same_data (index_keys (Height (cbSeq batch))) dag dag' \<and> indexed dag' batch"
proof -
  let ?C = "dcodec dag" and ?seq = "cbSeq batch"
  let ?h = "Height ?seq"
  have ok: "\<not> put_fails (ddb dag) k" for k using assms(1) by (simp add: store_ok_def)
  obtain d where d: "marshalSeq ?C ?seq = Inr d" "d \<noteq> []" "unmarshalSeq ?C d = Inr ?seq"
    using assms(2) by (auto simp: codec_at_def)
  let ?n = "case cbTxHashes batch of None \<Rightarrow> 0 | Some hs \<Rightarrow> length hs"
  define db1 where "db1 = (if ?n > 0 then snd (WriteIndexedTxHashs ?C (ddb dag) ?h (the (cbTxHashes batch))) else ddb dag)"
  have db1: "\<not> put_fails db1 k"
    "j \<noteq> KIndex ?h \<Longrightarrow> get_data db1 (key_bytes j) = get_data (ddb dag) (key_bytes j)"
    "cbTxHashes batch = Some hs \<Longrightarrow> hs \<noteq> [] \<Longrightarrow>
       get_data db1 (key_bytes (KIndex ?h)) \<noteq> [] \<and> unmarshalHashes ?C (get_data db1 (key_bytes (KIndex ?h))) = Inr hs"
    for k j hs
  proof -
    obtain e where e: "marshalHashes ?C (the (cbTxHashes batch)) = Inr e" "e \<noteq> []"
      "unmarshalHashes ?C e = Inr (the (cbTxHashes batch))"
      using assms(3) [of "the (cbTxHashes batch)"] by (auto simp: codec_at_def)
    obtain db' where w: "put_marshalled (ddb dag) (key_bytes (KIndex ?h)) (Inr e) = (None, db')"
      and f: "\<And>k. \<not> put_fails db' k"
      and g: "\<And>j. get_data db' (key_bytes j) = (if j = KIndex ?h then e else get_data (ddb dag) (key_bytes j))"
      using get_data_put_ok [OF ok refl] by blast
    have eq: "db1 = (if ?n > 0 then db' else ddb dag)"
      using w e(1) by (simp add: db1_def WriteIndexedTxHashs_def)
    show "\<not> put_fails db1 k" using eq f ok by simp
    show "get_data db1 (key_bytes j) = get_data (ddb dag) (key_bytes j)" if "j \<noteq> KIndex ?h"
      using eq g that by simp
    show "get_data db1 (key_bytes (KIndex ?h)) \<noteq> [] \<and> unmarshalHashes ?C (get_data db1 (key_bytes (KIndex ?h))) = Inr hs"
      if "cbTxHashes batch = Some hs" "hs \<noteq> []"
      using that eq g [of "KIndex ?h"] e by simp
  qed
  obtain db2 where w2: "put_marshalled db1 (key_bytes (KSeq ?h)) (Inr d) = (None, db2)"
    and f2: "\<And>k. \<not> put_fails db2 k"
    and g2: "\<And>j. get_data db2 (key_bytes j) = (if j = KSeq ?h then d else get_data db1 (key_bytes j))"
    using get_data_put_ok [OF db1(1) refl] by blast
  obtain db3 where w3: "put_marshalled db2 (key_bytes KLatestSeq) (Inr d) = (None, db3)"
    and f3: "\<And>k. \<not> put_fails db3 k"
    and g3: "\<And>j. get_data db3 (key_bytes j) = (if j = KLatestSeq then d else get_data db2 (key_bytes j))"
    using get_data_put_ok [OF f2 refl] by blast
  define cf where "cf = \<lparr>ctSeqHeight = ?h, ctTxNum = word_of_nat ?n, ctConfirmTime = rfc3339Now (denv dag)\<rparr>"
  define db4 where "db4 = snd (writeConfirmTime ?C db3 cf)"
  obtain r4 where w4: "put_marshalled db3 (key_bytes (KConfirm ?h)) (marshalConfirmTime ?C cf) = (r4, db4)"
    by (metis db4_def writeConfirmTime_def cf_def ConfirmTime.select_convs(1) keys_as_bytes(5) prod.collapse)
  have g4: "get_data db4 (key_bytes j) = get_data db3 (key_bytes j)" if "j \<noteq> KConfirm ?h" for j
    using put_marshalled_other [OF w4] that key_neq by metis
  let ?dag' = "dag\<lparr>latestSequencer := Some ?seq, ddb := db4\<rparr>"
  have eq: "push_indices dag batch = (None, ?dag')"
    using w2 w3 d(1) unfolding push_indices_def Let_def db1_def [symmetric] cf_def [symmetric]
    by (simp add: WriteSequencerByHeight_def WriteLatestSequencer_def db4_def)
  have "put_fails db4 = put_fails db3" using put_marshalled_frame [OF w4] .
  then have "store_ok ?dag'" using f3 assms(1) by (simp add: store_ok_def)
  moreover have "same_data (index_keys ?h) dag ?dag'"
    using g4 g3 g2 db1(2) by (simp add: same_data_def index_keys_def)
  moreover have "indexed ?dag' batch"
    using g4 [of KLatestSeq] g4 [of "KSeq ?h"] g4 [of "KIndex ?h"] g3 [of KLatestSeq] g3 [of "KSeq ?h"]
      g3 [of "KIndex ?h"] g2 [of "KSeq ?h"] g2 [of "KIndex ?h"] db1(3) d
    by (simp add: indexed_def ReadLatestSequencer_def get_unmarshalled_def ReadSequencerByHeight_def
        ReadIndexedTxHashs_def Let_def)
  ultimately show ?thesis using eq by auto
qed

lemma push_commit_ok:
  assumes "sd_inv (statedb dag)" "store_ok dag" "services_ok ords dag"
    "codec_at (marshalSeq (dcodec dag)) (unmarshalSeq (dcodec dag)) (cbSeq batch)"
  shows "\<exists>dag'. push_commit ords dag batch = (None, dag') \<and> dag_inv dag'
     \<and> latestSequencer dag' = Some (cbSeq batch) \<and> dcodec dag' = dcodec dag \<and> denv dag' = denv dag
     \<and> bal (statedb dag') = bal (statedb dag) \<and> nonce_of (statedb dag') = nonce_of (statedb dag)
     \<and> same_data (index_keys (Height (cbSeq batch))) dag dag' \<and> indexed dag' batch"
proof -
  have ro: "range_order (ordStates ords)" using assms(3) by (simp add: services_ok_def)
  obtain root sd where c: "SD_commit (ordStates ords) (ordStorage ords) (statedb dag) = Some (root, sd)"
    and sd: "sd_inv sd" "\<forall>a. map_option core (obj sd a) = map_option core (obj (statedb dag) a)"
    using SD_commit_inv [OF assms(1) ro] by blast
  let ?dag1 = "dag\<lparr>statedb := sd\<rparr>"
  obtain dag' where p: "push_indices ?dag1 batch = (None, dag')"
    and d: "latestSequencer dag' = Some (cbSeq batch)" "dcodec dag' = dcodec dag" "denv dag' = denv dag"
      "store_ok dag'" "statedb dag' = sd" "same_data (index_keys (Height (cbSeq batch))) ?dag1 dag'"
      "indexed dag' batch"
    using push_indices_ok [of ?dag1 batch] assms(2-4) by (auto simp: store_ok_def services_ok_def)
  have "push_commit ords dag batch = (None, dag')"
    using c p assms(3) by (simp add: push_commit_def Let_def services_ok_def)
  moreover have "dag_inv dag'" using d sd by (simp add: dag_inv_def)
  moreover have "same_data (index_keys (Height (cbSeq batch))) dag dag'"
    using d(6) by (simp add: same_data_def)
  ultimately show ?thesis using d core_views [of sd "statedb dag"] sd(2) by auto
qed

lemma xfer_seq: "ledger.sent [xfer (TxiSeq s)] a = 0" "ledger.received [xfer (TxiSeq s)] a = 0"
  by (simp_all add: ledger.sent_def ledger.received_def xfer_def)

definition executed :: "push_orders \<Rightarrow> ConfirmBatch \<Rightarrow> Txi list" where
  "executed ords batch = batch_txs (ordBatch ords (cbBatch batch)) @ [TxiSeq (cbSeq batch)]"

text \<open>The part of \<^verbatim>\<open>push\<close> before the state is committed: the batch, then the sequencer, then the receipts.\<close>

lemma push_seq_ok:
  assumes "store_ok dag" "tx_codec_at (dcodec dag) (TxiSeq seq)" "TypeOf seq = TxBaseTypeSequencer"
  obtains dag1 r where "Dag_WriteTransaction dag (TxiSeq seq) = (None, dag1)"
    "ProcessTransaction dag1 (TxiSeq seq) =
       (Inr ([], r), dag1\<lparr>statedb := ledger.transfer (statedb dag) (xfer (TxiSeq seq))\<rparr>)"
    "dframe dag dag1" "store_ok dag1" "stored dag1 (TxiSeq seq)" "same_data (tx_keys (TxiSeq seq)) dag dag1"
proof -
  obtain dag1 where w: "Dag_WriteTransaction dag (TxiSeq seq) = (None, dag1)" "statedb dag1 = statedb dag"
      "dframe dag dag1" "store_ok dag1" "stored dag1 (TxiSeq seq)" "same_data (tx_keys (TxiSeq seq)) dag dag1"
    using Dag_WriteTransaction_ok [OF assms(1,2)] by blast
  moreover obtain r where "ProcessTransaction dag1 (TxiSeq seq) =
      (Inr ([], r), dag1\<lparr>statedb := ledger.transfer (statedb dag1) (xfer (TxiSeq seq))\<rparr>)"
    using ProcessTransaction_seq [OF assms(3)] by blast
  ultimately show thesis using that by simp
qed

lemma stored_executed:
  assumes "tx_distinct (txs @ [TxiSeq seq])" "\<forall>tx \<in> set txs. stored dag1 (set_Height tx (Height seq))"
    and "dframe dag1 dag2" "stored dag2 (TxiSeq seq)" "same_data (tx_keys (TxiSeq seq)) dag1 dag2"
    and "tx \<in> set (txs @ [TxiSeq seq])"
  shows "stored dag2 (set_Height tx (Height seq))"
proof (cases "tx \<in> set txs")
  case True
  then have "tx_keys tx \<inter> tx_keys (TxiSeq seq) = {}"
    using assms(1) by (auto simp: tx_distinct_def tx_keys_def)
  then show ?thesis
    using assms(2,3) True by (intro stored_same_data [OF _ assms(5)]) (auto simp: dframe_def)
next
  case False
  then show ?thesis using assms(4,6) by auto
qed

lemma batch_executes:
  assumes "store_ok dag" "range_order (ordBatch ords)" "batch_ok dag batch"
  shows "\<exists>rs dag1. push_batch dag (Height (cbSeq batch)) (ordBatch ords (cbBatch batch)) [] = (Inr rs, dag1)
     \<and> dframe dag dag1 \<and> store_ok dag1
     \<and> statedb dag1 = foldl ledger.transfer (statedb dag) (map xfer (batch_txs (ordBatch ords (cbBatch batch))))
     \<and> (tx_distinct (batch_txs (ordBatch ords (cbBatch batch)))
          \<longrightarrow> (\<forall>tx \<in> set (batch_txs (ordBatch ords (cbBatch batch))). stored dag1 (set_Height tx (Height (cbSeq batch)))))"
proof -
  let ?ds = "ordBatch ords (cbBatch batch)"
  have "\<forall>d \<in> set ?ds. detail_ok d" using assms(2,3) by (simp add: batch_ok_def range_order_set)
  then have pb: "push_batch dag h ?ds [] = push_txs dag h (batch_txs ?ds) []" for h by (rule push_batch_txs)
  have "set (batch_txs ?ds) = set (batch_txs (cbBatch batch))"
    using mset_batch_txs [OF assms(2)] by (rule mset_eq_setD)
  then have "\<forall>tx \<in> set (batch_txs ?ds). plain tx \<and> tx_codec_at (dcodec dag) (set_Height tx (Height (cbSeq batch)))"
    using assms(3) by (simp add: batch_ok_def)
  from push_txs_ok [OF assms(1) this, of "[]"] pb show ?thesis by auto
qed

lemma Dag_push_executes:
  assumes "store_ok dag" "services_ok ords dag" "batch_ok dag batch"
  shows "\<exists>dag1. Dag_push ords dag batch = push_commit ords dag1 batch \<and> store_ok dag1
     \<and> dcodec dag1 = dcodec dag \<and> denv dag1 = denv dag
     \<and> statedb dag1 = foldl ledger.transfer (statedb dag) (map xfer (executed ords batch))
     \<and> (tx_distinct (executed ords batch)
          \<longrightarrow> (\<forall>tx \<in> set (executed ords batch). stored dag1 (set_Height tx (Height (cbSeq batch)))))"
proof -
  let ?seq = "cbSeq batch" and ?txs = "batch_txs (ordBatch ords (cbBatch batch))"
  have ro: "range_order (ordBatch ords)" using assms(2) by (simp add: services_ok_def)
  obtain latest where l: "latestSequencer dag = Some latest" "Height latest + 1 = Height ?seq"
    using assms(3) by (auto simp: batch_ok_def)
  obtain rs dag1 where p: "push_batch dag (Height ?seq) (ordBatch ords (cbBatch batch)) [] = (Inr rs, dag1)"
    and d1: "dframe dag dag1" "store_ok dag1" "statedb dag1 = foldl ledger.transfer (statedb dag) (map xfer ?txs)"
      "tx_distinct ?txs \<longrightarrow> (\<forall>tx \<in> set ?txs. stored dag1 (set_Height tx (Height ?seq)))"
    using batch_executes [OF assms(1) ro assms(3)] by blast
  have tc: "tx_codec_at (dcodec dag1) (TxiSeq ?seq)" "TypeOf ?seq = TxBaseTypeSequencer"
    using assms(3) d1(1) by (simp_all add: batch_ok_def dframe_def)
  obtain dag2 r where w: "Dag_WriteTransaction dag1 (TxiSeq ?seq) = (None, dag2)"
    "ProcessTransaction dag2 (TxiSeq ?seq) =
       (Inr ([], r), dag2\<lparr>statedb := ledger.transfer (statedb dag1) (xfer (TxiSeq ?seq))\<rparr>)"
    and d2: "dframe dag1 dag2" "store_ok dag2" "stored dag2 (TxiSeq ?seq)" "same_data (tx_keys (TxiSeq ?seq)) dag1 dag2"
    using push_seq_ok [OF d1(2) tc] by blast
  let ?sd = "ledger.transfer (statedb dag1) (xfer (TxiSeq ?seq))"
  obtain e where e: "marshalReceipts (dcodec dag) (AList.update (Hash_Hex (HashOf ?seq)) r rs) = Inr e"
    using assms(2) unfolding services_ok_def by blast
  have "\<not> put_fails (ddb dag2) k" for k using d2(2) by (simp add: store_ok_def)
  then obtain db where wr: "put_marshalled (ddb dag2) (key_bytes (KReceipt (Height ?seq))) (Inr e) = (None, db)"
    and f: "\<And>k. \<not> put_fails db k"
    and g: "\<And>j. get_data db (key_bytes j) = (if j = KReceipt (Height ?seq) then e else get_data (ddb dag2) (key_bytes j))"
    using get_data_put_ok [OF _ refl] by blast
  let ?dag3 = "dag2\<lparr>statedb := ?sd, ddb := db\<rparr>"
  have "Dag_push ords dag batch = push_commit ords ?dag3 batch"
    using l p w wr e by (simp add: Dag_push_def Let_def WriteReceipts_def)
  moreover have "stored ?dag3 (set_Height tx (Height ?seq))"
    if "tx_distinct (executed ords batch)" "tx \<in> set (executed ords batch)" for tx
  proof (rule stored_same_data)
    have "tx_distinct ?txs" using that(1) by (simp add: executed_def tx_distinct_def)
    then show "stored dag2 (set_Height tx (Height ?seq))"
      using that d1(4) stored_executed [OF _ _ d2(1,3,4)] by (simp add: executed_def)
    show "same_data {KReceipt (Height ?seq)} dag2 ?dag3" using g by (simp add: same_data_def)
  qed (simp_all add: tx_keys_def)
  ultimately show ?thesis
    using d1 d2 f by (intro exI [of _ ?dag3]) (simp add: executed_def dframe_def store_ok_def)
qed

lemma Dag_push_run:
  assumes "dag_inv dag" "services_ok ords dag" "batch_ok dag batch"
  shows "\<exists>dag'. Dag_push ords dag batch = (None, dag') \<and> dag_inv dag'
     \<and> latestSequencer dag' = Some (cbSeq batch) \<and> dcodec dag' = dcodec dag \<and> denv dag' = denv dag
     \<and> bal (statedb dag') = bal (foldl ledger.transfer (statedb dag) (map xfer (executed ords batch)))
     \<and> nonce_of (statedb dag') = nonce_of (foldl ledger.transfer (statedb dag) (map xfer (executed ords batch)))
     \<and> (tx_distinct (executed ords batch)
          \<longrightarrow> (\<forall>tx \<in> set (executed ords batch). stored dag' (set_Height tx (Height (cbSeq batch)))))
     \<and> indexed dag' batch"
proof -
  have inv: "sd_inv (statedb dag)" "store_ok dag" using assms(1) by (simp_all add: dag_inv_def)
  obtain dag1 where eq: "Dag_push ords dag batch = push_commit ords dag1 batch"
    and d1: "store_ok dag1" "dcodec dag1 = dcodec dag" "denv dag1 = denv dag"
      "statedb dag1 = foldl ledger.transfer (statedb dag) (map xfer (executed ords batch))"
      "tx_distinct (executed ords batch)
        \<longrightarrow> (\<forall>tx \<in> set (executed ords batch). stored dag1 (set_Height tx (Height (cbSeq batch))))"
    using Dag_push_executes [OF inv(2) assms(2,3)] by blast
  have "sd_inv (statedb dag1)" unfolding d1(4) using inv(1) by (rule sd_inv_transfers)
  moreover have "services_ok ords dag1" using assms(2) d1 by (simp add: services_ok_def)
  moreover have "codec_at (marshalSeq (dcodec dag1)) (unmarshalSeq (dcodec dag1)) (cbSeq batch)"
    using assms(3) d1 by (simp add: batch_ok_def tx_codec_at_def)
  ultimately obtain dag' where pc: "push_commit ords dag1 batch = (None, dag')"
    and d': "dag_inv dag'" "latestSequencer dag' = Some (cbSeq batch)" "dcodec dag' = dcodec dag1"
      "denv dag' = denv dag1" "bal (statedb dag') = bal (statedb dag1)"
      "nonce_of (statedb dag') = nonce_of (statedb dag1)"
      "same_data (index_keys (Height (cbSeq batch))) dag1 dag'" "indexed dag' batch"
    using push_commit_ok [of dag1 ords batch] d1(1) by blast
  have "tx_keys u \<inter> index_keys (Height (cbSeq batch)) = {}" for u
    by (auto simp: tx_keys_def index_keys_def)
  then have "stored dag' u" if "stored dag1 u" for u
    using stored_same_data [OF that d'(7,3)] by blast
  then show ?thesis using eq pc d' d1 by auto
qed

section \<open>Conservation\<close>

lemma sent_append: "ledger.sent (xs @ ys) a = ledger.sent xs a + ledger.sent ys a"
  by (simp add: ledger.sent_def)

lemma received_append: "ledger.received (xs @ ys) a = ledger.received xs a + ledger.received ys a"
  by (simp add: ledger.received_def)

lemma executed_sums:
  assumes "range_order (ordBatch ords)"
  shows "ledger.sent (map xfer (executed ords batch)) a = ledger.sent (map xfer (batch_txs (cbBatch batch))) a"
    "ledger.received (map xfer (executed ords batch)) a = ledger.received (map xfer (batch_txs (cbBatch batch))) a"
  using sent_mset [OF mset_batch_txs [OF assms]] received_mset [OF mset_batch_txs [OF assms]] xfer_seq
  by (simp_all add: executed_def sent_append received_append)

lemma set_executed:
  "range_order (ordBatch ords) \<Longrightarrow>
   set (executed ords batch) = insert (TxiSeq (cbSeq batch)) (set (batch_txs (cbBatch batch)))"
  using mset_eq_setD [OF mset_batch_txs [of "ordBatch ords" "cbBatch batch"]] by (simp add: executed_def)

text \<open>Every sender of the batch can pay the sum of what it sends, and no value is negative.\<close>

definition covered :: "Dag \<Rightarrow> ConfirmBatch \<Rightarrow> bool" where
  "covered dag batch \<longleftrightarrow>
     (\<forall>tx \<in> set (batch_txs (cbBatch batch)). 0 \<le> GetValue tx)
     \<and> (\<forall>a. ledger.sent (map xfer (batch_txs (cbBatch batch))) a \<le> Dag_getBalance dag a)"

lemma Dag_getBalance_eq: "Dag_getBalance dag a = bal (statedb dag) a"
  by (simp add: Dag_getBalance_def GetBalance_value)

lemma executed_balances:
  assumes "dag_inv dag" "range_order (ordBatch ords)" "covered dag batch"
  shows "bal (foldl ledger.transfer (statedb dag) (map xfer (executed ords batch))) a =
     bal (statedb dag) a - ledger.sent (map xfer (batch_txs (cbBatch batch))) a
       + ledger.received (map xfer (batch_txs (cbBatch batch))) a"
proof -
  have v: "\<forall>(f, t, v, n) \<in> set (map xfer (executed ords batch)). 0 \<le> v"
  proof -
    have "case xfer tx of (f, t, v, n) \<Rightarrow> 0 \<le> v" if "tx \<in> set (executed ords batch)" for tx
      using that assms(3) by (cases tx rule: Txi.exhaust) (auto simp: set_executed [OF assms(2)] covered_def xfer_def)
    then show ?thesis by auto
  qed
  have nn: "0 \<le> bal (statedb dag) b" for b
    using assms(1) acct_ok_bal by (simp add: dag_inv_def sd_inv_def)
  have "ledger.sent (map xfer (executed ords batch)) b \<le> bal (statedb dag) b" for b
    using assms(3) executed_sums(1) [OF assms(2)] by (simp add: covered_def Dag_getBalance_eq)
  then show ?thesis
    using ledger.balance_transfers [OF v nn] by (simp add: executed_sums [OF assms(2)])
qed

lemma sum_sent_received:
  "(\<Sum>a \<in> UNIV. ledger.sent xs a) = (\<Sum>a \<in> (UNIV :: Address set). ledger.received xs a)"
proof (induction xs)
  case (Cons x xs)
  obtain f t v n where "x = (f, t, v, n)" by (cases x)
  then have "ledger.sent (x # xs) a = (if f = a then v else 0) + ledger.sent xs a"
    "ledger.received (x # xs) a = (if t = a then v else 0) + ledger.received xs a" for a
    by (simp_all add: ledger.sent_def ledger.received_def)
  then show ?case using Cons by (simp add: sum.distrib)
qed (simp add: ledger.sent_def ledger.received_def)

lemma tx_distinct_mset: "mset xs = mset ys \<Longrightarrow> tx_distinct ys \<Longrightarrow> tx_distinct xs"
  using mset_eq_imp_distinct_iff [of "map GetTxHash xs" "map GetTxHash ys"]
    mset_eq_imp_distinct_iff [of "map (\<lambda>t. (Sender t, GetNonce t)) xs" "map (\<lambda>t. (Sender t, GetNonce t)) ys"]
  by (simp add: tx_distinct_def)

lemma set_Height_ids:
  "GetTxHash (set_Height tx h) = GetTxHash tx" "Sender (set_Height tx h) = Sender tx"
  "GetNonce (set_Height tx h) = GetNonce tx"
  by (cases tx; simp)+

section \<open>Properties\<close>

text \<open>C2: pushing a batch of plain transactions whose senders can pay succeeds. Every balance
  changes by exactly what the account received minus what it sent, whatever order Go ranges over the
  batch in; every nonce becomes the largest one the account used; the sequencer becomes
  the latest one; and the invariant holds again.\<close>

theorem push_balances:
  assumes "dag_inv dag" "services_ok ords dag" "batch_ok dag batch" "covered dag batch"
  shows "\<exists>dag'. Dag_push ords dag batch = (None, dag') \<and> dag_inv dag'
     \<and> latestSequencer dag' = Some (cbSeq batch)
     \<and> (\<forall>a. Dag_getBalance dag' a = Dag_getBalance dag a
          - ledger.sent (map xfer (batch_txs (cbBatch batch))) a
          + ledger.received (map xfer (batch_txs (cbBatch batch))) a)
     \<and> (\<forall>a. nonce_of (statedb dag') a = Max (insert (nonce_of (statedb dag) a)
          (ledger.used_nonces (xfer ` insert (TxiSeq (cbSeq batch)) (set (batch_txs (cbBatch batch)))) a)))"
proof -
  have ro: "range_order (ordBatch ords)" using assms(2) by (simp add: services_ok_def)
  obtain dag' where d: "Dag_push ords dag batch = (None, dag')" "dag_inv dag'" "latestSequencer dag' = Some (cbSeq batch)"
    "bal (statedb dag') = bal (foldl ledger.transfer (statedb dag) (map xfer (executed ords batch)))"
    "nonce_of (statedb dag') = nonce_of (foldl ledger.transfer (statedb dag) (map xfer (executed ords batch)))"
    using Dag_push_run [OF assms(1-3)] by blast
  have "nonce_of (statedb dag') a = Max (insert (nonce_of (statedb dag) a)
      (ledger.used_nonces (xfer ` insert (TxiSeq (cbSeq batch)) (set (batch_txs (cbBatch batch)))) a))" for a
    using d(5) ledger.nonce_transfers [of "statedb dag" "map xfer (executed ords batch)" a]
    by (simp only: set_map set_executed [OF ro])
  moreover have "Dag_getBalance dag' a = Dag_getBalance dag a
      - ledger.sent (map xfer (batch_txs (cbBatch batch))) a
      + ledger.received (map xfer (batch_txs (cbBatch batch))) a" for a
    using d(4) executed_balances [OF assms(1) ro assms(4)] by (simp add: Dag_getBalance_eq)
  ultimately show ?thesis using d(1-3) by blast
qed


text \<open>C4: after a push every transaction of the batch and the sequencer can be read back by hash
  and by sender and nonce, with the height of the sequencer; the latest sequencer, the sequencer of
  that height and the hash list of that height are the ones pushed.\<close>

theorem push_retrievable:
  assumes "dag_inv dag" "services_ok ords dag" "batch_ok dag batch"
    and "tx_distinct (batch_txs (cbBatch batch) @ [TxiSeq (cbSeq batch)])"
  shows "\<exists>dag'. Dag_push ords dag batch = (None, dag')
     \<and> (\<forall>tx \<in> set (batch_txs (cbBatch batch) @ [TxiSeq (cbSeq batch)]).
          ReadTransaction (dcodec dag') (ddb dag') (GetTxHash tx) = Some (Some (set_Height tx (Height (cbSeq batch))))
          \<and> Dag_getTxByNonce dag' (Sender tx) (GetNonce tx) = Some (Some (set_Height tx (Height (cbSeq batch)))))
     \<and> getSequencerHashByHeight dag' (Height (cbSeq batch)) = Some (HashOf (cbSeq batch))
     \<and> ReadLatestSequencer (dcodec dag') (ddb dag') = Some (cbSeq batch)"
proof -
  have ro: "range_order (ordBatch ords)" using assms(2) by (simp add: services_ok_def)
  have m: "mset (executed ords batch) = mset (batch_txs (cbBatch batch) @ [TxiSeq (cbSeq batch)])"
    using mset_batch_txs [OF ro] by (simp add: executed_def)
  then have dis: "tx_distinct (executed ords batch)" using assms(4) tx_distinct_mset by blast
  obtain dag' where p: "Dag_push ords dag batch = (None, dag')" and i: "indexed dag' batch"
    and st: "\<forall>tx \<in> set (executed ords batch). stored dag' (set_Height tx (Height (cbSeq batch)))"
    using Dag_push_run [OF assms(1-3)] dis by blast
  have "ReadTransaction (dcodec dag') (ddb dag') (GetTxHash tx) = Some (Some (set_Height tx (Height (cbSeq batch))))
      \<and> Dag_getTxByNonce dag' (Sender tx) (GetNonce tx) = Some (Some (set_Height tx (Height (cbSeq batch))))"
    if "tx \<in> set (batch_txs (cbBatch batch) @ [TxiSeq (cbSeq batch)])" for tx
  proof -
    have "stored dag' (set_Height tx (Height (cbSeq batch)))" using that st mset_eq_setD [OF m] by blast
    then show ?thesis using stored_by_nonce [of dag' "set_Height tx (Height (cbSeq batch))"]
      by (simp add: stored_def set_Height_ids)
  qed
  moreover have "getSequencerHashByHeight dag' (Height (cbSeq batch)) = Some (HashOf (cbSeq batch))"
    "ReadLatestSequencer (dcodec dag') (ddb dag') = Some (cbSeq batch)"
    using i by (simp_all add: indexed_def getSequencerHashByHeight_def)
  ultimately show ?thesis using p by blast
qed

text \<open>C16: a batch whose sequencer does not carry the next height is refused and nothing changes.\<close>

theorem push_wrong_height:
  assumes "latestSequencer dag = Some latest" "Height (cbSeq batch) \<noteq> Height latest + 1"
  shows "Dag_push ords dag batch = (Some (ErrHeightMismatch (Height latest) (Height (cbSeq batch))), dag)"
  using assms by (simp add: Dag_push_def Let_def)

section \<open>A concrete push\<close>

definition sample_tx :: Tx where
  "sample_tx = \<lparr>TypeOf = 0, HashOf = 7, ParentsHash = [1], AccountNonce = 1, Height = 1, PublicKey = [],
     Signature = [], MineNonce = 0, Weight = 1, From = 5, To = 6, Value = 30, Data = []\<rparr>"

definition sample_genesis :: Sequencer where
  "sample_genesis = \<lparr>TypeOf = 1, HashOf = 1, ParentsHash = [], AccountNonce = 0, Height = 0, PublicKey = [],
     Signature = [], MineNonce = 0, Weight = 0, Issuer = 9\<rparr>"

definition sample_seq :: Sequencer where
  "sample_seq = \<lparr>TypeOf = 1, HashOf = 8, ParentsHash = [7], AccountNonce = 1, Height = 1, PublicKey = [],
     Signature = [], MineNonce = 0, Weight = 2, Issuer = 9\<rparr>"

fun chunks32 :: "byte list \<Rightarrow> nat \<Rightarrow> Hash list" where
  "chunks32 bs 0 = []"
| "chunks32 bs (Suc n) = word_of_nat (bytes_val (take 32 bs)) # chunks32 (drop 32 bs) n"

lemma chunks32_concat: "chunks32 (concat (map Hash_ToBytes hs)) (length hs) = hs"
  by (induction hs) (simp_all add: Hash_ToBytes_def bytes_val_word_full)

definition sample_codec :: codec where
  "sample_codec = codec0\<lparr>marshalSeq := (\<lambda>_. Inr [2]), unmarshalSeq := (\<lambda>_. Inr sample_seq),
     marshalTx := (\<lambda>t. Inr (word_bytes 8 (Height t))),
     unmarshalTx := (\<lambda>d. Inr (sample_tx\<lparr>Height := word_of_nat (bytes_val d)\<rparr>)),
     marshalHashes := (\<lambda>hs. Inr (1 # concat (map Hash_ToBytes hs))),
     unmarshalHashes := (\<lambda>d. Inr (chunks32 (tl d) (length (tl d) div 32)))\<rparr>"

definition sample_dag_env :: dag_env where
  "sample_dag_env = \<lparr>vmCreate = (\<lambda>sd _ _ _ _ _. (Inl [], sd)), vmCall = (\<lambda>sd _ _ _ _ _ _. (Inl [], sd)),
     vmStaticCall = (\<lambda>sd _ _ _ _ _. (Inl [], sd)), triedbCommit = (\<lambda>_ _. None), rfc3339Now = []\<rparr>"

definition sample_dag :: Dag where
  "sample_dag = \<lparr>dcodec = sample_codec, denv = sample_dag_env, ddb = NewMemDatabase, statedb = sample_sd,
     genesis = Some sample_genesis, latestSequencer = Some sample_genesis,
     dtxcached = \<lparr>tcMaxsize = 10, tcOrder = [1], tcTxs = [1 \<mapsto> TxiSeq sample_genesis]\<rparr>\<rparr>"

definition sample_batch :: ConfirmBatch where
  "sample_batch = \<lparr>cbSeq = sample_seq,
     cbBatch = [(5, \<lparr>bdTxList = Some \<lparr>keys = [1], txflow = [1 \<mapsto> TxiTx sample_tx]\<rparr>, bdNeg = 30, bdPos = 0\<rparr>)],
     cbTxHashes = Some [7]\<rparr>"

definition sample_orders :: push_orders where
  "sample_orders = \<lparr>ordBatch = rev, ordStates = rev, ordStorage = rev\<rparr>"

lemma length_concat_hashes: "length (concat (map Hash_ToBytes hs)) = 32 * length hs"
  by (induction hs) simp_all

lemma sample_hashes_codec: "codec_at (marshalHashes sample_codec) (unmarshalHashes sample_codec) hs"
  by (simp add: codec_at_def sample_codec_def length_concat_hashes chunks32_concat)

lemma sample_batch_txs: "batch_txs (cbBatch sample_batch) = [TxiTx sample_tx]"
  by (simp add: batch_txs_def detail_txs_def list_txs_def sample_batch_def TxList_get_def)

lemma sample_dag_inv: "dag_inv sample_dag"
proof -
  have "sd_inv sample_sd" using sample_sd_facts sample_env1_codec by (simp add: sd_inv_def)
  then show ?thesis
    by (simp add: dag_inv_def sample_dag_def store_ok_def NewMemDatabase_def tc_ok_def sample_genesis_def)
qed

lemma sample_services: "services_ok sample_orders sample_dag"
  using sample_hashes_codec
  by (simp add: services_ok_def sample_orders_def sample_dag_def sample_dag_env_def)
     (simp add: sample_codec_def codec0_def)

lemma word_bytes_Nil [simp]: "word_bytes n w = [] \<longleftrightarrow> n = 0"
  by (cases n) simp_all

lemma sample_tx_codec: "tx_codec_at sample_codec (TxiTx (sample_tx\<lparr>Height := h\<rparr>))"
  by (simp add: tx_codec_at_def codec_at_def sample_codec_def bytes_val_word_full)

lemma sample_batch_ok: "batch_ok sample_dag sample_batch"
  unfolding batch_ok_def sample_batch_txs
  by (simp add: sample_batch_def sample_dag_def sample_genesis_def sample_seq_def detail_ok_def TxList_get_def
      plain_def sample_tx_def tx_codec_at_def codec_at_def sample_codec_def bytes_val_word_full)

lemma sample_balance: "Dag_getBalance sample_dag a = (if a = 5 then 100 else 0)"
proof -
  have "bal (fresh_sd\<lparr>env := sample_env1\<rparr>) a = 0"
    by (simp add: bal_def cur_def obj_def fresh_sd_def trie_load_def empty_trie_def NewStateObject_def)
  then show ?thesis by (simp add: Dag_getBalance_eq sample_dag_def sample_sd_def)
qed

lemma sample_sums:
  "ledger.sent (map xfer (batch_txs (cbBatch sample_batch))) a = (if a = 5 then 30 else 0)"
  "ledger.received (map xfer (batch_txs (cbBatch sample_batch))) a = (if a = 6 then 30 else 0)"
  by (simp_all add: sample_batch_txs ledger.sent_def ledger.received_def xfer_def sample_tx_def)

lemma sample_covered: "covered sample_dag sample_batch"
  by (simp add: covered_def sample_sums sample_balance) (simp add: sample_batch_txs sample_tx_def)

lemmas sample_push = sample_dag_inv sample_services sample_batch_ok sample_covered

theorem push_balances_witness:
  "\<exists>dag'. Dag_push sample_orders sample_dag sample_batch = (None, dag')
     \<and> Dag_getBalance dag' 5 = 70 \<and> Dag_getBalance dag' 6 = 30 \<and> dag_inv dag'"
  using push_balances [OF sample_push] by (auto simp: sample_sums sample_balance)


theorem push_retrievable_witness:
  "\<exists>dag'. Dag_push sample_orders sample_dag sample_batch = (None, dag')
     \<and> Dag_getTxByNonce dag' 5 1 = Some (Some (TxiTx sample_tx))"
proof -
  have "tx_distinct (batch_txs (cbBatch sample_batch) @ [TxiSeq (cbSeq sample_batch)])"
    unfolding sample_batch_txs by (simp add: tx_distinct_def sample_batch_def sample_tx_def sample_seq_def)
  from push_retrievable [OF sample_push(1-3) this] show ?thesis
    by (auto simp: sample_batch_txs) (auto simp: sample_tx_def sample_batch_def sample_seq_def)
qed

theorem push_wrong_height_witness:
  "Dag_push sample_orders sample_dag (sample_batch\<lparr>cbSeq := sample_seq\<lparr>Height := 5\<rparr>\<rparr>)
     = (Some (ErrHeightMismatch 0 5), sample_dag)"
  using push_wrong_height [of sample_dag sample_genesis "sample_batch\<lparr>cbSeq := sample_seq\<lparr>Height := 5\<rparr>\<rparr>" sample_orders]
  by (simp add: sample_dag_def sample_genesis_def)

end
