(* ===== verification/PoolInv.thy ===== *)
theory PoolInv
  imports TxPool DagPush
begin

text \<open>
  The invariant of the transaction pool and its preservation by every event: the lookup
  table, the three maps and the account flows describe the same set of transactions, the flows never
  promise more than the confirmed balance, and no two accepted transactions share sender and nonce.
\<close>

section \<open>The contract of the lookup table\<close>

text \<open>An index of envelopes by hash that remembers the order of arrival.\<close>

locale tx_index =
  fixes find :: "'t \<Rightarrow> Hash \<rightharpoonup> txEnvelope"
    and arrivals :: "'t \<Rightarrow> Hash list"
    and ok :: "'t \<Rightarrow> bool"
    and put_env :: "'t \<Rightarrow> txEnvelope \<Rightarrow> 't"
    and drop_env :: "'t \<Rightarrow> Hash \<Rightarrow> 't"
    and mark_env :: "'t \<Rightarrow> Hash \<Rightarrow> TxStatus \<Rightarrow> 't"
  assumes find_put: "find t (GetTxHash (envTx e)) = None \<Longrightarrow> find (put_env t e) = (find t)(GetTxHash (envTx e) \<mapsto> e)"
    and find_drop: "find (drop_env t h) = (find t)(h := None)"
    and find_mark: "find (mark_env t h st) = (find t)(h := map_option (\<lambda>e. e\<lparr>envStatus := st\<rparr>) (find t h))"
    and arrivals_put: "find t (GetTxHash (envTx e)) = None \<Longrightarrow> arrivals (put_env t e) = arrivals t @ [GetTxHash (envTx e)]"
    and arrivals_drop: "ok t \<Longrightarrow> arrivals (drop_env t h) = remove1 h (arrivals t)"
    and arrivals_mark: "arrivals (mark_env t h st) = arrivals t"
    and ok_put: "ok t \<Longrightarrow> ok (put_env t e)"
    and ok_drop: "ok t \<Longrightarrow> ok (drop_env t h)"
    and ok_mark: "ok t \<Longrightarrow> ok (mark_env t h st)"
    and ok_hash: "ok t \<Longrightarrow> find t h = Some e \<Longrightarrow> GetTxHash (envTx e) = h"
    and ok_arrivals: "ok t \<Longrightarrow> distinct (arrivals t) \<and> set (arrivals t) = dom (find t)"
begin

text \<open>Dropping what was just put gives back the index, as the error path of an event does.\<close>

lemma drop_put:
  assumes "ok t" "find t (GetTxHash (envTx e)) = None"
  shows "find (drop_env (put_env t e) (GetTxHash (envTx e))) = find t"
    and "arrivals (drop_env (put_env t e) (GetTxHash (envTx e))) = arrivals t"
proof -
  have "(find t)(GetTxHash (envTx e) := None) = find t" using assms(2) by auto
  then show "find (drop_env (put_env t e) (GetTxHash (envTx e))) = find t"
    using assms(2) by (simp add: find_drop find_put)
  have "GetTxHash (envTx e) \<notin> set (arrivals t)" using ok_arrivals [OF assms(1)] assms(2) by blast
  then show "arrivals (drop_env (put_env t e) (GetTxHash (envTx e))) = arrivals t"
    using arrivals_drop [OF ok_put [OF assms(1)]] assms(2) by (simp add: arrivals_put remove1_append)
qed

lemma mark_keeps_tx:
  "map_option envTx (find (mark_env t h st) k) = map_option envTx (find t k)"
  by (simp add: find_mark option.map_comp comp_def)

lemma length_arrivals: "ok t \<Longrightarrow> length (arrivals t) = card (dom (find t))"
  using ok_arrivals [of t] distinct_card by metis

end

abbreviation env_of :: "txLookUp \<Rightarrow> Hash \<rightharpoonup> txEnvelope" where
  "env_of t \<equiv> map_of (lkTxs t)"

definition lookup_ok :: "txLookUp \<Rightarrow> bool" where
  "lookup_ok t \<longleftrightarrow> gomap_ok (lkTxs t) \<and> distinct (lkOrder t) \<and> set (lkOrder t) = dom (env_of t)
     \<and> (\<forall>h e. env_of t h = Some e \<longrightarrow> GetTxHash (envTx e) = h)"

lemma remove_front_eq: "remove_front h hs = remove1 h hs"
  by (induction hs) auto

lemma remove_end_eq: "distinct hs \<Longrightarrow> remove_end h hs = remove1 h hs"
  using remove_last1_distinct [of hs h] by (simp add: remove_end_def remove_front_eq remove_last1_def)

lemma env_of_add:
  "env_of (lookup_add t e) =
     (if env_of t (GetTxHash (envTx e)) = None then (env_of t)(GetTxHash (envTx e) \<mapsto> e) else env_of t)"
  by (simp add: lookup_add_def Let_def)

lemma env_of_remove [simp]: "env_of (lookup_remove t h ty) = (env_of t)(h := None)"
  by (cases ty) (simp_all add: lookup_remove_def)

lemma env_of_switch:
  "env_of (switchstatus t h st) = (env_of t)(h := map_option (\<lambda>e. e\<lparr>envStatus := st\<rparr>) (env_of t h))"
  by (auto simp: switchstatus_def fun_eq_iff split: option.splits)

lemma lookup_ok_add: "lookup_ok t \<Longrightarrow> lookup_ok (lookup_add t e)"
  by (auto simp: lookup_ok_def lookup_add_def Let_def split: if_splits)

lemma lkOrder_switch [simp]: "lkOrder (switchstatus t h st) = lkOrder t"
  by (simp add: switchstatus_def split: option.splits)

lemma lookup_ok_switch: "lookup_ok t \<Longrightarrow> lookup_ok (switchstatus t h st)"
  by (auto simp: lookup_ok_def env_of_switch gomap_ok_update switchstatus_def split: option.splits)

lemma lookup_ok_remove:
  assumes "lookup_ok t" "ty \<noteq> noRemove"
  shows "lookup_ok (lookup_remove t h ty)" and "lkOrder (lookup_remove t h ty) = remove1 h (lkOrder t)"
proof -
  have d: "distinct (lkOrder t)" using assms(1) by (simp add: lookup_ok_def)
  show o: "lkOrder (lookup_remove t h ty) = remove1 h (lkOrder t)"
    using assms(2) d by (cases ty) (simp_all add: lookup_remove_def remove_front_eq remove_end_eq)
  have "gomap_ok (lkTxs (lookup_remove t h ty))"
    using assms(1) by (cases ty) (simp_all add: lookup_remove_def lookup_ok_def)
  then show "lookup_ok (lookup_remove t h ty)"
    using assms(1) d by (auto simp: lookup_ok_def o set_remove1_eq split: if_splits)
qed

lemma tx_index_lookup:
  "ty \<noteq> noRemove \<Longrightarrow> tx_index env_of lkOrder lookup_ok lookup_add (\<lambda>t h. lookup_remove t h ty) switchstatus"
  by unfold_locales
    (simp_all add: env_of_add env_of_switch lookup_ok_remove lookup_ok_add lookup_ok_switch,
     simp_all add: lookup_ok_def lookup_add_def Let_def)

interpretation lkfront: tx_index env_of lkOrder lookup_ok lookup_add "\<lambda>t h. lookup_remove t h removeFromFront" switchstatus
  by (rule tx_index_lookup) simp

interpretation lkend: tx_index env_of lkOrder lookup_ok lookup_add "\<lambda>t h. lookup_remove t h removeFromEnd" switchstatus
  by (rule tx_index_lookup) simp

section \<open>The invariant\<close>

text \<open>The type field agrees with the Go type, and values come from unsigned bytes.\<close>

fun tx_wf :: "Txi \<Rightarrow> bool" where
  "tx_wf (TxiTx t) = (TypeOf t = TxBaseTypeNormal \<and> 0 \<le> Value t)"
| "tx_wf (TxiSeq s) = (TypeOf s = TxBaseTypeSequencer)"

abbreviation envs :: "TxPool \<Rightarrow> Hash \<rightharpoonup> txEnvelope" where
  "envs p \<equiv> env_of (txLookup p)"

abbreviation flow_tx :: "TxPool \<Rightarrow> Address \<Rightarrow> uint64 \<rightharpoonup> Txi" where
  "flow_tx p a n \<equiv> AccountFlows_GetTxByNonce (flows p) a n"

definition accepted_env :: "txEnvelope option \<Rightarrow> Txi \<Rightarrow> bool" where
  "accepted_env eo t \<longleftrightarrow>
     (\<exists>e. eo = Some e \<and> envTx e = t \<and> (envStatus e = TxStatusTip \<or> envStatus e = TxStatusPending))"

definition accepted :: "TxPool \<Rightarrow> Txi \<Rightarrow> bool" where
  "accepted p t \<longleftrightarrow> accepted_env (envs p (GetTxHash t)) t"

text \<open>A sequencer that confirmed is a tip without an envelope.\<close>

definition loose_tip :: "Hash \<Rightarrow> Txi option \<Rightarrow> bool" where
  "loose_tip h tip \<longleftrightarrow> tip = None \<or> (\<exists>s. tip = Some (TxiSeq s) \<and> HashOf s = h \<and> TypeOf s = TxBaseTypeSequencer)"

text \<open>What the envelope of one hash says about the three maps; \<open>judging\<close> holds of the hash whose event is
  being handled.\<close>

definition point_ok :: "bool \<Rightarrow> Hash \<Rightarrow> txEnvelope option \<Rightarrow> Txi option \<Rightarrow> Txi option \<Rightarrow> Txi option \<Rightarrow> bool" where
  "point_ok judging h eo tip bad pending \<longleftrightarrow>
     (case eo of
        None \<Rightarrow> loose_tip h tip \<and> bad = None \<and> pending = None
      | Some e \<Rightarrow> tx_wf (envTx e) \<and> GetTxHash (envTx e) = h \<and>
          (case envStatus e of
             TxStatusNotExist \<Rightarrow> False
           | TxStatusQueue \<Rightarrow> judging \<and> loose_tip h tip \<and> bad = None \<and> pending = None
           | TxStatusTip \<Rightarrow> \<not> judging \<and> tip = Some (envTx e) \<and> bad = None \<and> pending = None
           | TxStatusBadTx \<Rightarrow> \<not> judging \<and> (\<exists>t. envTx e = TxiTx t) \<and> tip = None \<and> bad = Some (envTx e) \<and> pending = None
           | TxStatusPending \<Rightarrow> \<not> judging \<and> (\<exists>t. envTx e = TxiTx t) \<and> tip = None \<and> bad = None \<and> pending = Some (envTx e)))"

definition at_point :: "Hash set \<Rightarrow> TxPool \<Rightarrow> Hash \<Rightarrow> bool" where
  "at_point Q p h = point_ok (h \<in> Q) h (envs p h) (TxMap_Get (tips p) h) (TxMap_Get (badtxs p) h) (TxMap_Get (pendings p) h)"

definition index_ok :: "Hash set \<Rightarrow> TxPool \<Rightarrow> bool" where
  "index_ok Q p \<longleftrightarrow> lookup_ok (txLookup p)
     \<and> gomap_ok (tmTxs (tips p)) \<and> gomap_ok (tmTxs (badtxs p)) \<and> gomap_ok (tmTxs (pendings p))
     \<and> (\<forall>h. at_point Q p h)"

definition flows_balanced :: "TxPool \<Rightarrow> bool" where
  "flows_balanced p \<longleftrightarrow>
     (\<forall>a f. afs (flows p) a = Some f \<longrightarrow> AccountFlow_ok f \<and> originBalance (balance f) = Dag_getBalance (pdag p) a)"

definition flows_ok :: "TxPool \<Rightarrow> bool" where
  "flows_ok p \<longleftrightarrow> flows_balanced p
     \<and> (\<forall>a n t. flow_tx p a n = Some t \<longrightarrow> Sender t = a \<and> ((\<exists>x. t = TxiTx x) \<longrightarrow> accepted p t))
     \<and> (\<forall>x. accepted p (TxiTx x) \<longrightarrow> flow_tx p (From x) (AccountNonce x) = Some (TxiTx x))"

definition pool_inv :: "Hash set \<Rightarrow> TxPool \<Rightarrow> bool" where
  "pool_inv Q p \<longleftrightarrow> index_ok Q p \<and> flows_ok p"

abbreviation pool_ok :: "TxPool \<Rightarrow> bool" where
  "pool_ok \<equiv> pool_inv {}"

lemma TxMap_Get_Remove [simp]: "TxMap_Get (TxMap_Remove tm h) = (TxMap_Get tm)(h := None)"
  by (simp add: TxMap_Get_def TxMap_Remove_def fun_eq_iff)

lemma TxMap_Get_Add: "TxMap_Get (TxMap_Add tm t) =
    (if TxMap_Get tm (GetTxHash t) = None then (TxMap_Get tm)(GetTxHash t \<mapsto> t) else TxMap_Get tm)"
  by (simp add: TxMap_Get_def TxMap_Add_def fun_eq_iff)

lemma TxMap_Get_New [simp]: "TxMap_Get NewTxMap = Map.empty"
  by (simp add: TxMap_Get_def NewTxMap_def fun_eq_iff)

lemma gomap_ok_TxMap [simp]:
  "gomap_ok (tmTxs tm) \<Longrightarrow> gomap_ok (tmTxs (TxMap_Remove tm h))"
  "gomap_ok (tmTxs tm) \<Longrightarrow> gomap_ok (tmTxs (TxMap_Add tm t))"
  "gomap_ok (tmTxs NewTxMap)"
  by (simp_all add: TxMap_Remove_def TxMap_Add_def NewTxMap_def)

lemma getStatus_eq: "getStatus p h = (case envs p h of None \<Rightarrow> TxStatusNotExist | Some e \<Rightarrow> envStatus e)"
  by (simp add: getStatus_def lookup_status_def)

lemma pool_get_eq: "pool_get p h = map_option envTx (envs p h)"
  by (simp add: pool_get_def lookup_get_def split: option.splits)

text \<open>The invariant depends only on the lookup table, the maps, the flows and the balances.\<close>

lemma pool_inv_cong:
  assumes "txLookup q = txLookup p" "tips q = tips p" "badtxs q = badtxs p" "pendings q = pendings p"
    "flows q = flows p" "Dag_getBalance (pdag q) = Dag_getBalance (pdag p)"
  shows "pool_inv Q q = pool_inv Q p"
  using assms by (simp add: pool_inv_def index_ok_def flows_ok_def flows_balanced_def at_point_def accepted_def)

text \<open>An operation that touches one hash is checked at that hash.\<close>

lemma pool_inv_point:
  assumes "pool_inv Q p" "lookup_ok (txLookup q)" "gomap_ok (tmTxs (tips q))" "gomap_ok (tmTxs (badtxs q))"
    "gomap_ok (tmTxs (pendings q))"
    and env: "envs q = (envs p)(h := eo)" and rest: "\<And>k. k \<noteq> h \<Longrightarrow> TxMap_Get (tips q) k = TxMap_Get (tips p) k
      \<and> TxMap_Get (badtxs q) k = TxMap_Get (badtxs p) k \<and> TxMap_Get (pendings q) k = TxMap_Get (pendings p) k"
    and at: "point_ok (h \<in> R) h eo (TxMap_Get (tips q) h) (TxMap_Get (badtxs q) h) (TxMap_Get (pendings q) h)"
    and Q: "Q - {h} = R - {h}" and fl: "flows_ok q"
  shows "pool_inv R q"
proof -
  have "at_point R q k" for k
  proof (cases "k = h")
    case True
    then show ?thesis using at by (simp add: at_point_def env)
  next
    case False
    then have "k \<in> R \<longleftrightarrow> k \<in> Q" using Q by blast
    moreover have "at_point Q p k" using assms(1) by (simp add: pool_inv_def index_ok_def)
    ultimately show ?thesis using rest [OF False] False by (simp add: at_point_def env)
  qed
  then show ?thesis using assms(2-5) fl by (simp add: pool_inv_def index_ok_def)
qed

text \<open>Flows stay right when the accepted transactions stay the same.\<close>

lemma flows_ok_cong:
  assumes "flows_ok p" "flows q = flows p" "pdag q = pdag p" "envs q = (envs p)(h := eo)"
    and acc: "\<And>x. accepted_env eo (TxiTx x) = accepted_env (envs p h) (TxiTx x)"
  shows "flows_ok q"
proof -
  have a: "accepted q (TxiTx x) = accepted p (TxiTx x)" for x
    using acc by (simp add: accepted_def assms(4))
  have "flows_balanced q" using assms(1-3) by (simp add: flows_ok_def flows_balanced_def)
  moreover have "Sender t = b \<and> ((\<exists>x. t = TxiTx x) \<longrightarrow> accepted q t)" if "flow_tx q b n = Some t" for b n t
    using that assms(1,2) a by (auto simp: flows_ok_def)
  moreover have "flow_tx q (From x) (AccountNonce x) = Some (TxiTx x)" if "accepted q (TxiTx x)" for x
    using that assms(1,2) a by (simp add: flows_ok_def)
  ultimately show ?thesis by (simp add: flows_ok_def)
qed

lemma pool_inv_at: "pool_inv Q p \<Longrightarrow> at_point Q p h"
  by (simp add: pool_inv_def index_ok_def)

lemmas pool_inv_parts = pool_inv_def index_ok_def

section \<open>Settling the parents\<close>

lemma tip_parent:
  assumes "pool_inv Q p" "getStatus p h = TxStatusTip" "TxMap_Get (tips p) h = Some t"
  shows "\<exists>e. envs p h = Some e \<and> envTx e = t \<and> envStatus e = TxStatusTip \<and> GetTxHash t = h \<and> tx_wf t \<and> h \<notin> Q
    \<and> TxMap_Get (badtxs p) h = None \<and> TxMap_Get (pendings p) h = None"
  using pool_inv_at [OF assms(1), of h] assms(2,3)
  by (auto simp: at_point_def point_ok_def getStatus_eq split: option.splits)

text \<open>What settling leaves alone.\<close>

definition settled :: "Hash set \<Rightarrow> TxPool \<Rightarrow> TxPool \<Rightarrow> bool" where
  "settled Q p q \<longleftrightarrow> flows q = flows p \<and> pdag q = pdag p \<and> badtxs q = badtxs p
     \<and> (\<forall>k \<in> Q. envs q k = envs p k)
     \<and> (\<forall>k. TxMap_Get (tips p) k = None \<longrightarrow> TxMap_Get (tips q) k = None)
     \<and> (\<forall>k. envs p k = None \<longrightarrow> envs q k = None)"

lemma settled_refl [simp]: "settled Q p p"
  by (simp add: settled_def)

lemma settled_trans: "settled Q p q \<Longrightarrow> settled Q q r \<Longrightarrow> settled Q p r"
  by (simp add: settled_def)

lemma settle_parent_inv:
  assumes "pool_inv Q p"
  shows "pool_inv Q (settle_parent h p) \<and> settled Q p (settle_parent h p)"
proof (cases "getStatus p h = TxStatusTip \<and> TxMap_Get (tips p) h \<noteq> None")
  case False
  then show ?thesis using assms by (auto simp: settle_parent_def split: option.splits)
next
  case True
  then obtain t where t: "getStatus p h = TxStatusTip" "TxMap_Get (tips p) h = Some t" by blast
  from tip_parent [OF assms t] obtain e where e: "envs p h = Some e" "envTx e = t" "envStatus e = TxStatusTip"
    "GetTxHash t = h" "tx_wf t" "h \<notin> Q" "TxMap_Get (badtxs p) h = None" "TxMap_Get (pendings p) h = None" by blast
  have ok: "lookup_ok (txLookup p)" "gomap_ok (tmTxs (tips p))" "gomap_ok (tmTxs (badtxs p))"
    "gomap_ok (tmTxs (pendings p))" "flows_ok p" using assms by (simp_all add: pool_inv_parts)
  show ?thesis
  proof (cases t)
    case (TxiTx x)
    let ?q = "p\<lparr>tips := TxMap_Remove (tips p) h, pendings := TxMap_Add (pendings p) t,
       txLookup := switchstatus (txLookup p) h TxStatusPending\<rparr>"
    have q: "settle_parent h p = ?q" using t e TxiTx by (simp add: settle_parent_def)
    have env: "envs ?q = (envs p)(h \<mapsto> e\<lparr>envStatus := TxStatusPending\<rparr>)" using e by (simp add: env_of_switch)
    have fl: "flows_ok ?q"
      by (rule flows_ok_cong [OF ok(5) _ _ env]) (use e in \<open>auto simp: accepted_env_def\<close>)
    have "pool_inv Q ?q"
      by (rule pool_inv_point [OF assms _ _ _ _ env, where R = Q])
        (use ok e TxiTx fl in \<open>simp_all add: lookup_ok_switch TxMap_Get_Add point_ok_def\<close>)
    then show ?thesis using e by (auto simp: q settled_def env_of_switch)
  next
    case (TxiSeq s)
    let ?q = "p\<lparr>tips := TxMap_Remove (tips p) h, txLookup := lookup_remove (txLookup p) h removeFromFront\<rparr>"
    have q: "settle_parent h p = ?q" using t e TxiSeq by (simp add: settle_parent_def)
    have env: "envs ?q = (envs p)(h := None)" by simp
    have fl: "flows_ok ?q"
      by (rule flows_ok_cong [OF ok(5) _ _ env]) (use e TxiSeq in \<open>auto simp: accepted_env_def\<close>)
    have "pool_inv Q ?q"
      by (rule pool_inv_point [OF assms _ _ _ _ env, where R = Q])
        (use ok e fl in \<open>simp_all add: lookup_ok_remove point_ok_def loose_tip_def\<close>)
    then show ?thesis using e by (auto simp: q settled_def)
  qed
qed

lemma settle_parents_inv:
  assumes "pool_inv Q p"
  shows "pool_inv Q (fold settle_parent hs p) \<and> settled Q p (fold settle_parent hs p)"
  using assms
proof (induction hs arbitrary: p)
  case (Cons h hs)
  then show ?case using settle_parent_inv [of Q p h] settled_trans by fastforce
qed simp

section \<open>Entering a flow\<close>

lemma open_flow_frame [simp]:
  "pdag (open_flow p a) = pdag p" "txLookup (open_flow p a) = txLookup p" "tips (open_flow p a) = tips p"
  "badtxs (open_flow p a) = badtxs p" "pendings (open_flow p a) = pendings p" "notices (open_flow p a) = notices p"
  "OnBatchConfirmed (open_flow p a) = OnBatchConfirmed p" "OnNewLatestSequencer (open_flow p a) = OnNewLatestSequencer p"
  by (simp_all add: open_flow_def)

lemma open_flow_some:
  assumes "flows_balanced p" "0 \<le> Dag_getBalance (pdag p) a"
  shows "flows_balanced (open_flow p a)"
    and "\<exists>f. afs (flows (open_flow p a)) a = Some f \<and> balance f = balance_state p a"
    and "flow_tx (open_flow p a) b n = flow_tx p b n"
  using assms AccountFlow_ok_new [OF assms(2)]
  by (auto simp: flows_balanced_def open_flow_def AccountFlows_Get_def AccountFlows_ResetFlow_def
      AccountFlows_GetTxByNonce_def AccountFlows_GetBalanceState_def balance_state_def AccountFlow_GetTx_def
      NewAccountFlow_def NewBalanceState_def NewTxList_def TxList_get_def split: option.splits)

lemma enter_flow:
  assumes "flows_balanced p" "0 \<le> Dag_getBalance (pdag p) (Sender t)" "0 \<le> GetValue t"
    "flow_tx p (Sender t) (GetNonce t) = None"
    "spent (balance_state p (Sender t)) + GetValue t \<le> originBalance (balance_state p (Sender t))"
    and q: "flows q = AccountFlows_Add (flows (open_flow p (Sender t))) t" "pdag q = pdag p"
  shows "flows_balanced q"
    and "flow_tx q a n = (if a = Sender t \<and> n = GetNonce t then Some t else flow_tx p a n)"
proof -
  let ?p = "open_flow p (Sender t)"
  obtain f where f: "afs (flows ?p) (Sender t) = Some f" "balance f = balance_state p (Sender t)"
    and bal: "flows_balanced ?p"
    using open_flow_some [OF assms(1,2)] by blast
  have fok: "AccountFlow_ok f" "originBalance (balance f) = Dag_getBalance (pdag p) (Sender t)"
    using bal f(1) by (simp_all add: flows_balanced_def)
  have none: "txflow (txlist f) (GetNonce t) = None"
    using open_flow_some(3) [OF assms(1,2), of "Sender t" "GetNonce t"] assms(4) f(1)
    by (simp add: AccountFlows_GetTxByNonce_def AccountFlow_GetTx_def TxList_get_def)
  then obtain f' where f': "AccountFlow_Add f t = Inr f'"
    using assms(5) f(2) by (simp add: AccountFlow_Add_cases)
  note af = AccountFlow_ok_Add [OF fok(1) assms(3) f']
  have fl: "afs (flows q) = (afs (flows ?p))(Sender t \<mapsto> f')"
    using f(1) f' by (simp add: q AccountFlows_Add_def)
  show "flows_balanced q"
    using bal af(1,3) fok(2) by (simp add: flows_balanced_def fl q(2))
  show "flow_tx q a n = (if a = Sender t \<and> n = GetNonce t then Some t else flow_tx p a n)"
    using open_flow_some(3) [OF assms(1,2), of a n] f(1) af(2)
    by (auto simp: AccountFlows_GetTxByNonce_def AccountFlow_GetTx_def TxList_get_def fl split: if_splits)
qed

section \<open>Committing a transaction\<close>

lemma check_parents_not_good: "check_parents p hs \<noteq> Some (Some TxQualityIsGood)"
  by (induction hs) (auto split: option.splits)

lemma isBadTx_good:
  assumes "isBadTx p t = Some TxQualityIsGood"
  shows "flow_tx p (From t) (AccountNonce t) = None"
    and "spent (balance_state p (From t)) + Value t \<le> originBalance (balance_state p (From t))"
    and "Value t \<le> originBalance (balance_state p (From t))"
    and "Dag_getTxByNonce (pdag p) (From t) (AccountNonce t) = Some None"
    and "check_parents p (ParentsHash t) = Some None"
  using assms check_parents_not_good [of p "ParentsHash t"]
  by (auto simp: isBadTx_def Let_def split: option.splits if_splits)

lemma balance_state_origin:
  "flows_balanced p \<Longrightarrow> originBalance (balance_state p a) = Dag_getBalance (pdag p) a"
  by (auto simp: flows_balanced_def balance_state_def AccountFlows_GetBalanceState_def AccountFlows_Get_def
      NewBalanceState_def split: option.splits)

text \<open>A pool in which the transaction \<open>t\<close> is being judged.\<close>

definition judging :: "TxPool \<Rightarrow> Tx \<Rightarrow> bool" where
  "judging p t \<longleftrightarrow> pool_inv {HashOf t} p \<and> TxMap_Get (tips p) (HashOf t) = None
     \<and> (\<exists>e. envs p (HashOf t) = Some e \<and> envTx e = TxiTx t)"

lemma judging_env:
  assumes "judging p t"
  shows "\<exists>e. envs p (HashOf t) = Some e \<and> envTx e = TxiTx t \<and> envStatus e = TxStatusQueue \<and> tx_wf (TxiTx t)
    \<and> TxMap_Get (badtxs p) (HashOf t) = None \<and> TxMap_Get (pendings p) (HashOf t) = None
    \<and> TxMap_Get (tips p) (HashOf t) = None"
proof -
  obtain e where e: "envs p (HashOf t) = Some e" "envTx e = TxiTx t" using assms by (auto simp: judging_def)
  have "at_point {HashOf t} p (HashOf t)" using assms pool_inv_at by (auto simp: judging_def)
  then show ?thesis
    using e assms by (auto simp: at_point_def point_ok_def judging_def split: TxStatus.splits)
qed

lemma commit_fatal:
  assumes "judging p t"
  shows "pool_ok (pool_remove p (TxiTx t) removeFromEnd)"
proof -
  obtain e where e: "envs p (HashOf t) = Some e" "envTx e = TxiTx t" "envStatus e = TxStatusQueue"
    "TxMap_Get (badtxs p) (HashOf t) = None" "TxMap_Get (pendings p) (HashOf t) = None"
    "TxMap_Get (tips p) (HashOf t) = None"
    using judging_env [OF assms] by blast
  have inv: "pool_inv {HashOf t} p" using assms by (simp add: judging_def)
  then have ok: "lookup_ok (txLookup p)" "gomap_ok (tmTxs (tips p))" "gomap_ok (tmTxs (badtxs p))"
    "gomap_ok (tmTxs (pendings p))" "flows_ok p" by (simp_all add: pool_inv_parts)
  let ?q = "p\<lparr>txLookup := lookup_remove (txLookup p) (HashOf t) removeFromEnd\<rparr>"
  have q: "pool_remove p (TxiTx t) removeFromEnd = ?q" using e by (simp add: pool_remove_def getStatus_eq)
  have env: "envs ?q = (envs p)(HashOf t := None)" by simp
  have fl: "flows_ok ?q"
    by (rule flows_ok_cong [OF ok(5) _ _ env]) (use e in \<open>auto simp: accepted_env_def\<close>)
  show ?thesis
    unfolding q by (rule pool_inv_point [OF inv _ _ _ _ env, where R = "{}"])
      (use ok e fl in \<open>simp_all add: lookup_ok_remove point_ok_def loose_tip_def\<close>)
qed

lemma commit_bad:
  assumes "judging p t"
  shows "pool_ok (p\<lparr>badtxs := TxMap_Add (badtxs p) (TxiTx t),
     txLookup := switchstatus (txLookup p) (HashOf t) TxStatusBadTx\<rparr>)" (is "pool_ok ?q")
proof -
  obtain e where e: "envs p (HashOf t) = Some e" "envTx e = TxiTx t" "envStatus e = TxStatusQueue" "tx_wf (TxiTx t)"
    "TxMap_Get (badtxs p) (HashOf t) = None" "TxMap_Get (pendings p) (HashOf t) = None"
    "TxMap_Get (tips p) (HashOf t) = None"
    using judging_env [OF assms] by blast
  have inv: "pool_inv {HashOf t} p" using assms by (simp add: judging_def)
  then have ok: "lookup_ok (txLookup p)" "gomap_ok (tmTxs (tips p))" "gomap_ok (tmTxs (badtxs p))"
    "gomap_ok (tmTxs (pendings p))" "flows_ok p" by (simp_all add: pool_inv_parts)
  have env: "envs ?q = (envs p)(HashOf t \<mapsto> e\<lparr>envStatus := TxStatusBadTx\<rparr>)" using e by (simp add: env_of_switch)
  have fl: "flows_ok ?q"
    by (rule flows_ok_cong [OF ok(5) _ _ env]) (use e in \<open>auto simp: accepted_env_def\<close>)
  show ?thesis
    by (rule pool_inv_point [OF inv _ _ _ _ env, where R = "{}"])
      (use ok e fl in \<open>simp_all add: lookup_ok_switch TxMap_Get_Add point_ok_def\<close>)
qed

lemma balance_state_cong: "flows q = flows p \<Longrightarrow> pdag q = pdag p \<Longrightarrow> balance_state q a = balance_state p a"
  by (simp add: balance_state_def split: option.splits)

lemma commit_good:
  assumes "judging p t" "isBadTx p t = Some TxQualityIsGood"
  shows "pool_ok (snd (pool_commit p t))"
proof -
  let ?h = "HashOf t"
  let ?p1 = "fold settle_parent (ParentsHash t) p"
  obtain q where q: "q = snd (pool_commit p t)" by simp
  have inv: "pool_inv {?h} p" using assms(1) by (simp add: judging_def)
  have inv1: "pool_inv {?h} ?p1" and st: "settled {?h} p ?p1" using settle_parents_inv [OF inv] by simp_all
  then have j1: "judging ?p1 t" using assms(1) by (auto simp: judging_def settled_def)
  obtain e where e: "envs ?p1 ?h = Some e" "envTx e = TxiTx t" "envStatus e = TxStatusQueue" "tx_wf (TxiTx t)"
    "TxMap_Get (badtxs ?p1) ?h = None" "TxMap_Get (pendings ?p1) ?h = None" "TxMap_Get (tips ?p1) ?h = None"
    using judging_env [OF j1] by blast
  have ok: "lookup_ok (txLookup ?p1)" "gomap_ok (tmTxs (tips ?p1))" "gomap_ok (tmTxs (badtxs ?p1))"
    "gomap_ok (tmTxs (pendings ?p1))" "flows_ok ?p1" using inv1 by (simp_all add: pool_inv_parts)
  have q_fields: "flows q = AccountFlows_Add (flows (open_flow ?p1 (From t))) (TxiTx t)" "pdag q = pdag ?p1"
    "tips q = TxMap_Add (tips ?p1) (TxiTx t)" "badtxs q = badtxs ?p1" "pendings q = pendings ?p1"
    "txLookup q = switchstatus (txLookup ?p1) ?h TxStatusTip"
    using assms(2) by (simp_all add: q pool_commit_def Let_def)
  have same: "flows ?p1 = flows p" "pdag ?p1 = pdag p" using st by (simp_all add: settled_def)
  note good = isBadTx_good [OF assms(2)]
  have bal1: "flows_balanced ?p1" using ok(5) by (simp add: flows_ok_def)
  have spent: "spent (balance_state ?p1 (From t)) + Value t \<le> originBalance (balance_state ?p1 (From t))"
    and orig: "Value t \<le> originBalance (balance_state ?p1 (From t))"
    using good(2,3) balance_state_cong [OF same] by simp_all
  have nn: "0 \<le> Dag_getBalance (pdag ?p1) (From t)"
    using orig e(4) balance_state_origin [OF bal1, of "From t"] by simp
  have new: "flow_tx ?p1 (From t) (AccountNonce t) = None" using good(1) same by simp
  have fb: "flows_balanced q"
    and fq: "flow_tx q a n = (if a = From t \<and> n = AccountNonce t then Some (TxiTx t) else flow_tx ?p1 a n)" for a n
    using enter_flow [OF bal1, of "TxiTx t" q] nn new spent q_fields(1,2) e(4) by simp_all
  have env: "envs q = (envs ?p1)(?h \<mapsto> e\<lparr>envStatus := TxStatusTip\<rparr>)" using e by (simp add: q_fields env_of_switch)
  have acc: "accepted q (TxiTx x) \<longleftrightarrow> x = t \<or> accepted ?p1 (TxiTx x)" for x
    using e by (auto simp: accepted_def env accepted_env_def)
  have "Sender u = a \<and> ((\<exists>x. u = TxiTx x) \<longrightarrow> accepted q u)" if "flow_tx q a n = Some u" for a n u
    using that ok(5) acc by (fastforce simp: fq flows_ok_def split: if_splits)
  moreover have "flow_tx q (From x) (AccountNonce x) = Some (TxiTx x)" if "accepted q (TxiTx x)" for x
    using that ok(5) acc new by (auto simp: fq flows_ok_def)
  ultimately have "flows_ok q" using fb by (simp add: flows_ok_def)
  then show ?thesis
    unfolding q [symmetric]
    by (intro pool_inv_point [OF inv1 _ _ _ _ env, where R = "{}"])
      (use ok e in \<open>simp_all add: q_fields lookup_ok_switch TxMap_Get_Add point_ok_def\<close>)
qed

text \<open>Every branch of \<^verbatim>\<open>commit\<close> that returns restores the invariant.\<close>

lemma pool_commit_inv:
  assumes "judging p t" "isBadTx p t \<noteq> None"
  shows "pool_ok (snd (pool_commit p t))"
proof -
  obtain ql where ql: "isBadTx p t = Some ql" using assms(2) by blast
  show ?thesis
  proof (cases ql)
    case TxQualityIsGood
    then show ?thesis using commit_good [OF assms(1)] ql by simp
  next
    case TxQualityIsBad
    then show ?thesis using commit_bad [OF assms(1)] ql by (simp add: pool_commit_def)
  next
    case TxQualityIsFatal
    then show ?thesis using commit_fatal [OF assms(1)] ql by (simp add: pool_commit_def)
  qed
qed

lemma pool_commit_pdag [simp]: "pdag (snd (pool_commit p t)) = pdag p"
proof -
  have "pdag (settle_parent h p) = pdag p" for h p by (simp add: settle_parent_def split: option.splits)
  then have "pdag (fold settle_parent hs p) = pdag p" for hs p by (induction hs arbitrary: p) simp_all
  then show ?thesis
    by (auto simp: pool_commit_def pool_remove_def Let_def split: option.splits TxQuality.splits)
qed

lemma judging_add:
  assumes "pool_ok p" "envs p (HashOf t) = None" "TxMap_Get (tips p) (HashOf t) = None" "tx_wf (TxiTx t)"
  shows "judging (p\<lparr>txLookup := lookup_add (txLookup p) \<lparr>envTx = TxiTx t, envTxType = ty, envStatus = TxStatusQueue\<rparr>\<rparr>) t"
    (is "judging ?q t")
proof -
  let ?e = "\<lparr>envTx = TxiTx t, envTxType = ty, envStatus = TxStatusQueue\<rparr>"
  have env: "envs ?q = (envs p)(HashOf t \<mapsto> ?e)" using assms(2) by (simp add: env_of_add)
  have ok: "lookup_ok (txLookup p)" "gomap_ok (tmTxs (tips p))" "gomap_ok (tmTxs (badtxs p))"
    "gomap_ok (tmTxs (pendings p))" "flows_ok p" using assms(1) by (simp_all add: pool_inv_parts)
  have at: "TxMap_Get (badtxs p) (HashOf t) = None" "TxMap_Get (pendings p) (HashOf t) = None"
    using pool_inv_at [OF assms(1), of "HashOf t"] assms(2) by (simp_all add: at_point_def point_ok_def)
  have fl: "flows_ok ?q"
    by (rule flows_ok_cong [OF ok(5) _ _ env]) (use assms(2) in \<open>simp_all add: accepted_env_def\<close>)
  have "pool_inv {HashOf t} ?q"
    by (rule pool_inv_point [OF assms(1) _ _ _ _ env])
      (use ok assms at fl in \<open>simp_all add: lookup_ok_add point_ok_def loose_tip_def\<close>)
  then show ?thesis using assms(3) env by (simp add: judging_def)
qed

section \<open>Reassigning a height\<close>

lemma with_height_simps [simp]:
  "GetTxHash (with_height hash v t) = GetTxHash t" "GetNonce (with_height hash v t) = GetNonce t"
  "Sender (with_height hash v t) = Sender t" "GetValue (with_height hash v t) = GetValue t"
  "tx_wf (with_height hash v t) = tx_wf t"
  by (cases t; simp add: with_height_def)+

lemma with_height_kind:
  "(\<exists>s. with_height hash v t = TxiSeq s) = (\<exists>s. t = TxiSeq s)"
  "(\<exists>x. with_height hash v t = TxiTx x) = (\<exists>x. t = TxiTx x)"
  by (cases t; simp add: with_height_def)+

lemma map_of_map_val: "map_of (map (\<lambda>(k, x). (k, f x)) m) k = map_option f (map_of m k)"
  by (induction m) auto

lemma gomap_ok_map_val [simp]: "gomap_ok (map (\<lambda>(k, x). (k, f x)) m) = gomap_ok m"
  by (simp add: gomap_ok_def comp_def split_def)

lemma TxMap_Get_map: "TxMap_Get (map_TxMap f tm) h = map_option f (TxMap_Get tm h)"
  by (simp add: TxMap_Get_def map_TxMap_def map_of_map_val)

lemma assign_height_envs:
  "envs (assign_height p hash v) h = map_option (\<lambda>e. e\<lparr>envTx := with_height hash v (envTx e)\<rparr>) (envs p h)"
  by (simp add: assign_height_def Let_def map_of_map_val)

lemma assign_height_flow:
  "flow_tx (assign_height p hash v) a n = map_option (with_height hash v) (flow_tx p a n)"
  by (simp add: assign_height_def Let_def AccountFlows_GetTxByNonce_def AccountFlow_GetTx_def TxList_get_def
      split: option.splits)

lemma assign_height_frame [simp]:
  "pdag (assign_height p hash v) = pdag p" "lkOrder (txLookup (assign_height p hash v)) = lkOrder (txLookup p)"
  "notices (assign_height p hash v) = notices p" "queue (assign_height p hash v) = queue p"
  by (simp_all add: assign_height_def Let_def)

lemma AccountFlow_ok_map:
  assumes "AccountFlow_ok f" "\<And>t. GetNonce (g t) = GetNonce t" "\<And>t. GetValue (g t) = GetValue t"
  shows "AccountFlow_ok (f\<lparr>txlist := (txlist f)\<lparr>txflow := map_option g \<circ> txflow (txlist f)\<rparr>\<rparr>)"
proof -
  have d: "dom (map_option g \<circ> txflow (txlist f)) = dom (txflow (txlist f))" by (auto simp: dom_def)
  have "flow_total (map_option g \<circ> txflow (txlist f)) = flow_total (txflow (txlist f))"
    unfolding flow_total_def d by (intro sum.cong) (auto simp: assms(3))
  then show ?thesis using assms d by (auto simp: AccountFlow_ok_def TxList_ok_def)
qed

lemma loose_tip_height: "loose_tip h tip \<Longrightarrow> loose_tip h (map_option (with_height hash v) tip)"
  by (cases tip) (auto simp: loose_tip_def with_height_def)

lemma assign_height_point:
  assumes "at_point Q p h"
  shows "at_point Q (assign_height p hash v) h"
proof -
  have m: "TxMap_Get (tips (assign_height p hash v)) h = map_option (with_height hash v) (TxMap_Get (tips p) h)"
    "TxMap_Get (badtxs (assign_height p hash v)) h = map_option (with_height hash v) (TxMap_Get (badtxs p) h)"
    "TxMap_Get (pendings (assign_height p hash v)) h = map_option (with_height hash v) (TxMap_Get (pendings p) h)"
    by (simp_all add: assign_height_def Let_def TxMap_Get_map)
  show ?thesis
    using assms unfolding at_point_def m assign_height_envs point_ok_def
    by (cases "envs p h") (auto simp: loose_tip_height with_height_kind split: TxStatus.splits)
qed

lemma assign_height_flows:
  assumes "flows_ok p" "lookup_ok (txLookup p)"
  shows "flows_ok (assign_height p hash v)"
proof -
  let ?f = "with_height hash v" and ?q = "assign_height p hash v"
  have b: "flows_balanced ?q"
    using assms(1) AccountFlow_ok_map [of _ ?f]
    by (auto simp: flows_ok_def flows_balanced_def assign_height_def Let_def)
  have fwd: "accepted ?q (?f t)" if "accepted p t" for t
    using that by (auto simp: accepted_def accepted_env_def assign_height_envs)
  have 1: "Sender t = a \<and> ((\<exists>x. t = TxiTx x) \<longrightarrow> accepted ?q t)" if t: "flow_tx ?q a n = Some t" for a n t
  proof -
    obtain u where u: "flow_tx p a n = Some u" "t = ?f u" using t by (auto simp: assign_height_flow)
    then have "Sender u = a \<and> ((\<exists>x. u = TxiTx x) \<longrightarrow> accepted p u)" using assms(1) by (simp add: flows_ok_def)
    then show ?thesis using u(2) fwd with_height_kind(2) [of hash v u] by auto
  qed
  have 2: "flow_tx ?q (From x) (AccountNonce x) = Some (TxiTx x)" if x: "accepted ?q (TxiTx x)" for x
  proof -
    obtain e where e: "envs p (HashOf x) = Some e" "?f (envTx e) = TxiTx x"
      "envStatus e = TxStatusTip \<or> envStatus e = TxStatusPending"
      using x by (auto simp: accepted_def accepted_env_def assign_height_envs)
    obtain y where y: "envTx e = TxiTx y" using e(2) with_height_kind(2) by metis
    have ids: "HashOf y = HashOf x" "From y = From x" "AccountNonce y = AccountNonce x"
      using e(2) y with_height_simps [of hash v "TxiTx y"] by simp_all
    then have "accepted p (TxiTx y)" using e y by (auto simp: accepted_def accepted_env_def)
    then have "flow_tx p (From x) (AccountNonce x) = Some (TxiTx y)"
      using assms(1) ids by (auto simp: flows_ok_def)
    then show ?thesis using e(2) y by (simp add: assign_height_flow)
  qed
  show ?thesis unfolding flows_ok_def using b 1 2 by blast
qed

lemma assign_height_inv:
  assumes "pool_inv Q p"
  shows "pool_inv Q (assign_height p hash v)"
proof -
  have lk: "lookup_ok (txLookup (assign_height p hash v))"
    using assms unfolding pool_inv_parts lookup_ok_def assign_height_envs
    by (auto simp: assign_height_def Let_def map_of_map_val dom_def)
  moreover have "gomap_ok (tmTxs (tips (assign_height p hash v)))" "gomap_ok (tmTxs (badtxs (assign_height p hash v)))"
    "gomap_ok (tmTxs (pendings (assign_height p hash v)))"
    using assms by (simp_all add: pool_inv_parts assign_height_def Let_def map_TxMap_def)
  ultimately show ?thesis
    using assms assign_height_point assign_height_flows by (simp add: pool_inv_parts)
qed

section \<open>Rejudging what a confirmation leaves\<close>

text \<open>The DAG answers every query without a panic.\<close>

definition dag_readable :: "Dag \<Rightarrow> bool" where
  "dag_readable dag \<longleftrightarrow> (\<forall>h. Dag_getTx dag h \<noteq> None) \<and> (\<forall>a n. Dag_getTxByNonce dag a n \<noteq> None)"

lemma readable:
  "dag_readable dag \<Longrightarrow> \<exists>r. Dag_getTx dag h = Some r" "dag_readable dag \<Longrightarrow> \<exists>r. Dag_getTxByNonce dag a n = Some r"
  by (auto simp: dag_readable_def)

lemma check_parents_total: "dag_readable (pdag p) \<Longrightarrow> check_parents p hs \<noteq> None"
proof (induction hs)
  case (Cons h hs)
  then show ?case using readable(1) [of "pdag p" h] by (auto split: option.splits)
qed simp

lemma isBadTx_total: "dag_readable (pdag p) \<Longrightarrow> isBadTx p t \<noteq> None"
  using check_parents_total [of p "ParentsHash t"] readable(2) [of "pdag p" "From t" "AccountNonce t"]
  by (auto simp: isBadTx_def Let_def split: option.splits)

lemma pool_commit_no_panic: "dag_readable (pdag p) \<Longrightarrow> \<not> is_panic (fst (pool_commit p t))"
  using isBadTx_total [of p t] by (auto simp: pool_commit_def is_panic_def Let_def split: TxQuality.splits)

definition no_seq_tips :: "TxPool \<Rightarrow> bool" where
  "no_seq_tips p \<longleftrightarrow> (\<forall>h s. TxMap_Get (tips p) h \<noteq> Some (TxiSeq s))"

text \<open>Committing one transaction does not put another one into the lookup table.\<close>

definition envs_from :: "TxPool \<Rightarrow> TxPool \<Rightarrow> bool" where
  "envs_from p q \<longleftrightarrow> (\<forall>h e. envs q h = Some e \<longrightarrow> (\<exists>e0. envs p h = Some e0 \<and> envTx e0 = envTx e))"

lemma envs_from_refl [simp]: "envs_from p p"
  by (simp add: envs_from_def)

lemma envs_from_trans: "envs_from p q \<Longrightarrow> envs_from q r \<Longrightarrow> envs_from p r"
  unfolding envs_from_def by metis

lemma envs_from_None: "envs_from p q \<Longrightarrow> envs p k = None \<Longrightarrow> envs q k = None"
  unfolding envs_from_def by (metis not_None_eq)

definition pool_frame :: "TxPool \<Rightarrow> TxPool \<Rightarrow> bool" where
  "pool_frame p q \<longleftrightarrow> pdag q = pdag p \<and> notices q = notices p \<and> queue q = queue p \<and> txNum q = txNum p
     \<and> maxWeight q = maxWeight p \<and> OnBatchConfirmed q = OnBatchConfirmed p
     \<and> OnNewLatestSequencer q = OnNewLatestSequencer p \<and> onNewTxReceived q = onNewTxReceived p \<and> pconf q = pconf p"

lemma pool_frame_refl [simp]: "pool_frame p p"
  by (simp add: pool_frame_def)

lemma pool_frame_trans: "pool_frame p q \<Longrightarrow> pool_frame q r \<Longrightarrow> pool_frame p r"
  by (simp add: pool_frame_def)

lemma settle_parent_effect:
  shows "pool_frame p (settle_parent h p)" and "envs_from p (settle_parent h p)"
    and "no_seq_tips p \<Longrightarrow> no_seq_tips (settle_parent h p)"
proof -
  show "pool_frame p (settle_parent h p)" by (simp add: settle_parent_def pool_frame_def split: option.splits)
  show "envs_from p (settle_parent h p)"
    by (auto simp: settle_parent_def envs_from_def env_of_switch split: option.splits)
  show "no_seq_tips p \<Longrightarrow> no_seq_tips (settle_parent h p)"
    by (simp add: settle_parent_def no_seq_tips_def split: option.splits)
qed

lemma settle_parents_effect:
  shows "pool_frame p (fold settle_parent hs p)" and "envs_from p (fold settle_parent hs p)"
    and "no_seq_tips p \<Longrightarrow> no_seq_tips (fold settle_parent hs p)"
proof (induction hs arbitrary: p)
  case (Cons h hs)
  { case 1 show ?case using pool_frame_trans [OF settle_parent_effect(1) Cons(1)] by simp }
  { case 2 show ?case using envs_from_trans [OF settle_parent_effect(2) Cons(2)] by simp }
  { case 3 then show ?case using Cons(3) settle_parent_effect(3) by simp }
qed simp_all

lemma open_flow_effect: "pool_frame p (open_flow p a)" "envs (open_flow p a) = envs p"
  by (simp_all add: open_flow_def pool_frame_def)

lemma pool_remove_effect: "pool_frame p (pool_remove p t ty)" "envs_from p (pool_remove p t ty)"
  "no_seq_tips p \<Longrightarrow> no_seq_tips (pool_remove p t ty)"
  by (auto simp: pool_remove_def pool_frame_def envs_from_def no_seq_tips_def Let_def)

lemma pool_commit_effect:
  "pool_frame p (snd (pool_commit p t)) \<and> envs_from p (snd (pool_commit p t))
   \<and> (no_seq_tips p \<longrightarrow> no_seq_tips (snd (pool_commit p t)))"
proof (cases "isBadTx p t = Some TxQualityIsGood")
  case True
  let ?p1 = "fold settle_parent (ParentsHash t) p"
  have q: "snd (pool_commit p t) = (open_flow ?p1 (From t))\<lparr>flows := AccountFlows_Add (flows (open_flow ?p1 (From t))) (TxiTx t),
     tips := TxMap_Add (tips ?p1) (TxiTx t), txLookup := switchstatus (txLookup ?p1) (HashOf t) TxStatusTip\<rparr>"
    using True by (simp add: pool_commit_def Let_def)
  have "pool_frame ?p1 (snd (pool_commit p t))" using open_flow_effect(1) [of ?p1 "From t"] by (simp add: q pool_frame_def)
  moreover have "envs_from ?p1 (snd (pool_commit p t))" by (auto simp: q envs_from_def env_of_switch)
  moreover have "no_seq_tips ?p1 \<longrightarrow> no_seq_tips (snd (pool_commit p t))"
    by (auto simp: q no_seq_tips_def TxMap_Get_Add)
  ultimately show ?thesis
    using settle_parents_effect [of p "ParentsHash t"] pool_frame_trans envs_from_trans by blast
next
  case False
  then show ?thesis
    using pool_remove_effect [of p "TxiTx t" removeFromEnd]
    by (auto simp: pool_commit_def pool_frame_def envs_from_def no_seq_tips_def env_of_switch split: option.splits TxQuality.splits)
qed

lemma rejudge_inv:
  assumes "pool_ok p" "no_seq_tips p" "dag_readable (pdag p)" "distinct (map GetTxHash txs)"
    and "\<forall>tx \<in> set txs. tx_wf tx \<and> (\<exists>t. tx = TxiTx t) \<and> envs p (GetTxHash tx) = None"
  shows "\<exists>q. rejudge p txs = Some q \<and> pool_ok q \<and> no_seq_tips q \<and> pool_frame p q
    \<and> (\<forall>h e. envs q h = Some e \<longrightarrow> (\<exists>e0. envs p h = Some e0 \<and> envTx e0 = envTx e) \<or> envTx e \<in> set txs)"
  using assms
proof (induction txs arbitrary: p)
  case Nil
  then show ?case by auto
next
  case (Cons tx txs)
  obtain t where t: "tx = TxiTx t" using Cons.prems(5) by auto
  let ?env = "\<lparr>envTx = TxiTx t, envTxType = TxTypeRejudge, envStatus = TxStatusQueue\<rparr>"
  let ?p1 = "p\<lparr>txLookup := lookup_add (txLookup p) ?env\<rparr>"
  let ?p2 = "snd (pool_commit ?p1 t)"
  have h: "envs p (HashOf t) = None" "tx_wf (TxiTx t)" using Cons.prems(5) t by auto
  have "loose_tip (HashOf t) (TxMap_Get (tips p) (HashOf t))"
    using pool_inv_at [OF Cons.prems(1), of "HashOf t"] h(1) by (simp add: at_point_def point_ok_def)
  then have tip: "TxMap_Get (tips p) (HashOf t) = None"
    using Cons.prems(2) by (auto simp: loose_tip_def no_seq_tips_def)
  have ok2: "pool_ok ?p2"
    using pool_commit_inv [OF judging_add [OF Cons.prems(1) h(1) tip h(2)]] isBadTx_total Cons.prems(3) by simp
  have env1: "envs ?p1 = (envs p)(HashOf t \<mapsto> ?env)" using h(1) by (simp add: env_of_add)
  have eff: "pool_frame ?p1 ?p2" "envs_from ?p1 ?p2" "no_seq_tips ?p2"
    using pool_commit_effect [of ?p1 t] Cons.prems(2) by (simp_all add: no_seq_tips_def)
  have fr: "pool_frame p ?p2" using eff(1) by (simp add: pool_frame_def)
  have from1: "(\<exists>e0. envs p k = Some e0 \<and> envTx e0 = envTx e) \<or> envTx e = tx" if e: "envs ?p2 k = Some e" for k e
    using eff(2) e unfolding envs_from_def env1 by (fastforce simp: t split: if_splits)
  have none: "envs ?p2 (GetTxHash u) = None" if u: "u \<in> set txs" for u
  proof -
    have "GetTxHash u \<noteq> HashOf t" using u Cons.prems(4) t by (metis GetTxHash.simps(1) distinct.simps(2) image_eqI list.set_map list.simps(9))
    then have "envs ?p1 (GetTxHash u) = None" unfolding env1 using u Cons.prems(5) by simp
    then show ?thesis by (rule envs_from_None [OF eff(2)])
  qed
  obtain q where q: "rejudge ?p2 txs = Some q" "pool_ok q" "no_seq_tips q" "pool_frame ?p2 q"
    "\<forall>h e. envs q h = Some e \<longrightarrow> (\<exists>e0. envs ?p2 h = Some e0 \<and> envTx e0 = envTx e) \<or> envTx e \<in> set txs"
    using Cons.IH [OF ok2 eff(3)] none Cons.prems(3,4,5) fr by (auto simp: pool_frame_def)
  have "rejudge p (tx # txs) = Some q"
    using q(1) pool_commit_no_panic [of ?p1 t] Cons.prems(3) by (simp add: t Let_def split_beta)
  moreover have "(\<exists>e0. envs p k = Some e0 \<and> envTx e0 = envTx e) \<or> envTx e \<in> set (tx # txs)"
    if e: "envs q k = Some e" for k e
    using q(5) e from1 by (metis list.set_intros(1) list.set_intros(2))
  ultimately show ?case using q(2-4) pool_frame_trans [OF fr] by blast
qed

lemma envs_removed:
  "env_of (fold (\<lambda>(h, _) t. lookup_remove t h noRemove) es t) = (\<lambda>h. if h \<in> fst ` set es then None else env_of t h)"
  "lkOrder (fold (\<lambda>(h, _) t. lookup_remove t h noRemove) es t) = lkOrder t"
proof (induction es arbitrary: t)
  case (Cons x es)
  { case 1 show ?case using Cons(1) [of "lookup_remove t (fst x) noRemove"] by (auto simp: split_def fun_eq_iff) }
  { case 2 show ?case using Cons(2) [of "lookup_remove t (fst x) noRemove"] by (simp add: split_def lookup_remove_def) }
qed simp_all

lemma set_map_filter: "set (List.map_filter f xs) = {y. \<exists>x \<in> set xs. f x = Some y}"
  by (force simp: List.map_filter_def image_iff)

lemma distinct_left:
  assumes "distinct hs" "\<And>h t. f h = Some t \<Longrightarrow> GetTxHash t = h"
  shows "distinct (map GetTxHash (List.map_filter f hs))"
  using assms(1)
proof (induction hs)
  case (Cons h hs)
  have "h \<notin> GetTxHash ` set (List.map_filter f hs)" using Cons.prems assms(2) by (auto simp: set_map_filter)
  then show ?case using Cons assms(2) by (auto simp: map_filter_simps split: option.splits)
qed (simp add: map_filter_simps)

lemma clearAll_ok: "pool_ok (clearAll p)" "no_seq_tips (clearAll p)" "pool_frame p (clearAll p)" "envs (clearAll p) = Map.empty"
proof -
  show e: "envs (clearAll p) = Map.empty" by (simp add: clearAll_def newTxLookUp_def)
  show "no_seq_tips (clearAll p)" by (simp add: no_seq_tips_def clearAll_def)
  show "pool_frame p (clearAll p)" by (simp add: clearAll_def pool_frame_def)
  have "flows_ok (clearAll p)"
    unfolding flows_ok_def flows_balanced_def accepted_def accepted_env_def e
    by (simp add: clearAll_def NewAccountFlows_def AccountFlows_GetTxByNonce_def)
  moreover have "at_point {} (clearAll p) h" for h
    unfolding at_point_def e by (simp add: clearAll_def point_ok_def loose_tip_def)
  ultimately show "pool_ok (clearAll p)"
    by (simp add: pool_inv_parts clearAll_def lookup_ok_def newTxLookUp_def)
qed

lemma solveConflicts_inv:
  assumes "lookup_ok (txLookup p)" "\<forall>h e. envs p h = Some e \<longrightarrow> tx_wf (envTx e)" "dag_readable (pdag p)"
    "range_order (ordElders ords)"
  shows "\<exists>q. solveConflicts ords p elders = Some q \<and> pool_ok q \<and> no_seq_tips q \<and> pool_frame p q
    \<and> (\<forall>h e. envs q h = Some e \<longrightarrow> h \<notin> fst ` set elders \<and> (\<exists>e0. envs p h = Some e0 \<and> envTx e0 = envTx e)
         \<and> (\<exists>t. envTx e = TxiTx t))"
proof -
  let ?t = "fold (\<lambda>(h, _) t. lookup_remove t h noRemove) (ordElders ords elders) (txLookup p)"
  let ?p1 = "p\<lparr>txLookup := ?t\<rparr>"
  have es: "fst ` set (ordElders ords elders) = fst ` set elders" using range_order_set [OF assms(4)] by simp
  have get: "pool_get ?p1 h = (if h \<in> fst ` set elders then None else map_option envTx (envs p h))" for h
    by (simp add: pool_get_eq envs_removed(1) es)
  have hash: "GetTxHash t = h" if "pool_get ?p1 h = Some t" for h t
    using that assms(1) by (auto simp: get lookup_ok_def split: if_splits)
  let ?left = "left_in_pool ?p1"
  have left: "t \<in> set ?left \<longleftrightarrow> GetType t \<noteq> TxBaseTypeSequencer \<and> (\<exists>h \<in> set (lkOrder (txLookup p)). pool_get ?p1 h = Some t)" for t
    by (auto simp: left_in_pool_def getorder_def set_map_filter envs_removed(2))
  have "distinct (lkOrder (txLookup p))" using assms(1) by (simp add: lookup_ok_def)
  then have dist: "distinct (map GetTxHash ?left)"
    using distinct_left [OF _ hash, of "lkOrder (txLookup p)"]
    by (simp add: left_in_pool_def getorder_def envs_removed(2) distinct_map_filter)
  have wf: "tx_wf t \<and> (\<exists>x. t = TxiTx x)" if t: "t \<in> set ?left" for t
  proof -
    obtain h e where "envs p h = Some e" "t = envTx e" using t by (auto simp: left get split: if_splits)
    then have "tx_wf t" using assms(2) by blast
    then show ?thesis using t by (cases t) (auto simp: left)
  qed
  obtain q where q: "rejudge (clearAll ?p1) ?left = Some q" "pool_ok q" "no_seq_tips q" "pool_frame (clearAll ?p1) q"
    "\<forall>h e. envs q h = Some e \<longrightarrow> (\<exists>e0. envs (clearAll ?p1) h = Some e0 \<and> envTx e0 = envTx e) \<or> envTx e \<in> set ?left"
  proof -
    have r: "dag_readable (pdag (clearAll ?p1))" using assms(3) by (simp add: clearAll_def)
    have "\<forall>tx \<in> set ?left. tx_wf tx \<and> (\<exists>t. tx = TxiTx t) \<and> envs (clearAll ?p1) (GetTxHash tx) = None"
      using wf by (simp only: clearAll_ok(4)) blast
    then show ?thesis using rejudge_inv [OF clearAll_ok(1,2) r dist] that by blast
  qed
  have "solveConflicts ords p elders = Some q" using q(1) by (simp add: solveConflicts_def Let_def)
  moreover have "pool_frame p q" using q(4) clearAll_ok(3) [of ?p1] by (simp add: pool_frame_def)
  moreover have "h \<notin> fst ` set elders \<and> (\<exists>e0. envs p h = Some e0 \<and> envTx e0 = envTx e) \<and> (\<exists>t. envTx e = TxiTx t)"
    if e: "envs q h = Some e" for h e
  proof -
    have mem: "envTx e \<in> set ?left" using q(5) e by (simp add: clearAll_ok(4))
    have "GetTxHash (envTx e) = h" using q(2) e by (auto simp: pool_inv_parts lookup_ok_def)
    then have "pool_get ?p1 h = Some (envTx e)" using mem left hash by force
    then show ?thesis using wf [OF mem] by (auto simp: get split: if_splits)
  qed
  ultimately show ?thesis using q(2,3) by blast
qed

end
