(* ===== verification/Elders.thy ===== *)
theory Elders
  imports PoolInv
begin

text \<open>
  The two passes of \<^verbatim>\<open>confirm\<close> in \<^verbatim>\<open>src/core/tx_pool.go\<close> before the push. \<open>seekElders\<close> returns exactly the pooled
  ancestors of the sequencer; \<open>verifyConfirmBatch\<close> accounts for all of them and lets only batches
  through that every sender can pay and whose nonces continue the confirmed ones.
\<close>

section \<open>Seeking the elders\<close>

text \<open>The hashes the search has to look at: the parents of the base transaction, and the parents of
  every pooled transaction among them.\<close>

inductive sought :: "TxPool \<Rightarrow> Txi \<Rightarrow> Hash \<Rightarrow> bool" for p base where
  sought_base: "h \<in> set (Parents base) \<Longrightarrow> sought p base h"
| sought_step: "sought p base h \<Longrightarrow> pool_get p h = Some t \<Longrightarrow> k \<in> set (Parents t) \<Longrightarrow> sought p base k"

definition in_dag :: "TxPool \<Rightarrow> Hash \<Rightarrow> bool" where
  "in_dag p h \<longleftrightarrow> (\<exists>t. Dag_getTx (pdag p) h = Some (Some t))"

definition seek_inv :: "TxPool \<Rightarrow> Txi \<Rightarrow> Hash list \<Rightarrow> Hash set \<Rightarrow> (Hash, Txi) gomap \<Rightarrow> bool" where
  "seek_inv p base sp ins batch \<longleftrightarrow> gomap_ok batch
     \<and> (\<forall>h \<in> set sp \<union> ins. sought p base h)
     \<and> (\<forall>h t. map_of batch h = Some t \<longrightarrow> sought p base h \<and> pool_get p h = Some t \<and> set (Parents t) \<subseteq> ins)
     \<and> (\<forall>h \<in> ins \<union> set (Parents base). h \<in> set sp \<or> map_of batch h \<noteq> None \<or> pool_get p h = None \<and> in_dag p h)"

lemma pool_get_hash: "lookup_ok (txLookup p) \<Longrightarrow> pool_get p h = Some t \<Longrightarrow> GetTxHash t = h"
  by (auto simp: pool_get_eq lookup_ok_def)

lemma seek_inv_found:
  assumes "lookup_ok (txLookup p)" "seek_inv p base (h # sp) ins batch" "pool_get p h = Some t"
    "enqueue_parents (Parents t) sp ins = (sp', ins')"
  shows "seek_inv p base sp' ins'
    (if map_of batch (GetTxHash t) = None then AList.update (GetTxHash t) t batch else batch)"
proof -
  note e = enqueue_parents_eq [OF assms(4)]
  have th: "GetTxHash t = h" using pool_get_hash [OF assms(1,3)] .
  have sh: "sought p base h" using assms(2) by (simp add: seek_inv_def)
  have par: "\<forall>k \<in> set (Parents t). sought p base k" using sought_step [OF sh assms(3)] by blast
  have s1: "\<forall>k \<in> set sp' \<union> ins'. sought p base k"
    using assms(2) par e(1,2) by (auto simp: seek_inv_def)
  let ?b = "if map_of batch h = None then AList.update h t batch else batch"
  have mb: "map_of ?b = (map_of batch)(h \<mapsto> t)"
  proof (cases "map_of batch h")
    case (Some u)
    then have "u = t" using assms(2,3) by (auto simp: seek_inv_def)
    then show ?thesis using Some by auto
  qed simp
  have s2: "sought p base k \<and> pool_get p k = Some u \<and> set (Parents u) \<subseteq> ins'" if "map_of ?b k = Some u" for k u
    using that assms(2,3) sh e(1) unfolding mb by (auto simp: seek_inv_def split: if_splits)
  have s3: "k \<in> set sp' \<or> map_of ?b k \<noteq> None \<or> pool_get p k = None \<and> in_dag p k"
    if k: "k \<in> ins' \<union> set (Parents base)" for k
    unfolding mb using assms(2) k e by (auto simp: seek_inv_def)
  have "gomap_ok ?b" using assms(2) by (simp add: seek_inv_def)
  then show ?thesis using s1 s2 s3 unfolding th seek_inv_def by blast
qed

lemma seek_inv_skip:
  assumes "seek_inv p base (h # sp) ins batch" "pool_get p h = None" "in_dag p h"
  shows "seek_inv p base sp ins batch"
  using assms by (auto simp: seek_inv_def)

lemma seek_loop_inv:
  assumes "lookup_ok (txLookup p)" "seek_inv p base sp ins batch"
  shows "case seek_loop p sp ins batch of
      Inr res \<Rightarrow> \<exists>ins'. seek_inv p base [] ins' res
    | Inl err \<Rightarrow> \<exists>h. sought p base h \<and> pool_get p h = None \<and> \<not> in_dag p h"
  using assms
proof (induction p sp ins batch rule: seek_loop.induct)
  case (1 p ins batch)
  then show ?case by auto
next
  case (2 p h sp ins batch)
  have sh: "sought p base h" using 2(4) by (simp add: seek_inv_def)
  show ?case
  proof (cases "pool_get p h")
    case None
    show ?thesis
    proof (cases "in_dag p h")
      case True
      then obtain t where d: "Dag_getTx (pdag p) h = Some (Some t)" by (auto simp: in_dag_def)
      then show ?thesis
        using "2.IH"(1) [OF None d] seek_inv_skip [OF 2(4) None True] 2(3) None by simp
    next
      case False
      then have "\<exists>err. seek_loop p (h # sp) ins batch = Inl err"
        using None by (auto simp: in_dag_def split: option.splits)
      then show ?thesis using sh None False by auto
    qed
  next
    case (Some t)
    obtain sp' ins' where e: "enqueue_parents (Parents t) sp ins = (sp', ins')" by fastforce
    show ?thesis
      using "2.IH"(2) [OF Some e [symmetric] 2(3) seek_inv_found [OF 2(3,4) Some e]] Some e by simp
  qed
qed

lemma seek_start: "seek_inv p base (Parents base) {} []"
  by (auto simp: seek_inv_def intro: sought_base)

lemma sought_closed:
  assumes "seek_inv p base [] ins res" "sought p base h"
  shows "h \<in> ins \<union> set (Parents base)"
  using assms(2)
proof induction
  case (sought_step h t k)
  then have "map_of res h \<noteq> None" using assms(1) by (auto simp: seek_inv_def)
  then obtain u where "map_of res h = Some u" by blast
  then show ?case using sought_step(2,3) assms(1) by (auto simp: seek_inv_def)
qed simp

lemma seekElders_ok:
  assumes "lookup_ok (txLookup p)" "seekElders p base = Inr elders"
  shows "gomap_ok elders" and "map_of elders h = (if sought p base h then pool_get p h else None)"
    and "sought p base h \<Longrightarrow> pool_get p h = None \<Longrightarrow> in_dag p h"
proof -
  obtain ins where i: "seek_inv p base [] ins elders"
    using seek_loop_inv [OF assms(1) seek_start [of p base]] assms(2) by (auto simp: seekElders_def)
  then show "gomap_ok elders" by (simp add: seek_inv_def)
  have found: "map_of elders h = pool_get p h \<and> (pool_get p h = None \<longrightarrow> in_dag p h)" if "sought p base h"
  proof -
    have "map_of elders h \<noteq> None \<or> pool_get p h = None \<and> in_dag p h"
      using sought_closed [OF i that] i unfolding seek_inv_def by simp
    then show ?thesis using i by (cases "map_of elders h") (auto simp: seek_inv_def)
  qed
  then show "map_of elders h = (if sought p base h then pool_get p h else None)"
    using i by (cases "map_of elders h") (auto simp: seek_inv_def)
  show "sought p base h \<Longrightarrow> pool_get p h = None \<Longrightarrow> in_dag p h" using found by blast
qed

lemma seekElders_total:
  assumes "lookup_ok (txLookup p)" "\<And>h. sought p base h \<Longrightarrow> pool_get p h = None \<Longrightarrow> in_dag p h"
  shows "\<exists>elders. seekElders p base = Inr elders"
  using seek_loop_inv [OF assms(1) seek_start [of p base]] assms(2)
  by (cases "seekElders p base") (auto simp: seekElders_def)

section \<open>Accounting for the elders\<close>

fun is_tx :: "Txi \<Rightarrow> bool" where
  "is_tx (TxiTx _) = True"
| "is_tx (TxiSeq _) = False"

definition elder_txs :: "(Hash \<times> Txi) list \<Rightarrow> Txi list" where
  "elder_txs es = filter is_tx (map snd es)"

lemma detail_of_add:
  "detail_of (add_to_batch batch x) a =
     (let d = detail_of batch a in
      d\<lparr>bdTxList := (if a = From x then map_option (\<lambda>l. TxList_put l (TxiTx x)) (bdTxList d) else bdTxList d),
        bdNeg := bdNeg d + (if a = From x then Value x else 0),
        bdPos := bdPos d + (if a = To x then Value x else 0)\<rparr>)"
  by (auto simp: add_to_batch_def detail_of_def Let_def)

lemma add_to_batch_ok [simp]:
  "gomap_ok batch \<Longrightarrow> gomap_ok (add_to_batch batch x)"
  by (simp add: add_to_batch_def Let_def)

text \<open>The list of an entry holds transactions of its address, and their sum is at most the outgoing sum
  recorded for it.\<close>

definition sum_ok :: "Txi set \<Rightarrow> Address \<Rightarrow> BatchDetail \<Rightarrow> bool" where
  "sum_ok T a d \<longleftrightarrow> (\<exists>l. bdTxList d = Some l \<and> TxList_ok l
     \<and> (\<forall>n t. txflow l n = Some t \<longrightarrow> t \<in> T \<and> is_tx t \<and> Sender t = a)
     \<and> flow_total (txflow l) \<le> bdNeg d)"

definition accounted :: "Txi list \<Rightarrow> (Address, BatchDetail) gomap \<Rightarrow> bool" where
  "accounted txs batch \<longleftrightarrow> gomap_ok batch \<and> (\<forall>a. sum_ok (set txs) a (detail_of batch a)
     \<and> bdNeg (detail_of batch a) = ledger.sent (map xfer txs) a
     \<and> bdPos (detail_of batch a) = ledger.received (map xfer txs) a)"

lemma accounted_start: "accounted [] []"
  by (simp add: accounted_def detail_of_def new_detail_def sum_ok_def NewTxList_def TxList_ok_def flow_total_def
      ledger.sent_def ledger.received_def)

lemma sum_ok_put:
  assumes "sum_ok T a d" "0 \<le> Value x" "From x = a"
  shows "sum_ok (insert (TxiTx x) T) a (d\<lparr>bdTxList := map_option (\<lambda>l. TxList_put l (TxiTx x)) (bdTxList d),
     bdNeg := bdNeg d + Value x, bdPos := v\<rparr>)"
proof -
  obtain l where l: "bdTxList d = Some l" "TxList_ok l" "flow_total (txflow l) \<le> bdNeg d"
    "\<And>n t. txflow l n = Some t \<Longrightarrow> t \<in> T \<and> is_tx t \<and> Sender t = a"
    using assms(1) by (auto simp: sum_ok_def)
  let ?l = "TxList_put l (TxiTx x)"
  have g: "txflow ?l = (if txflow l (AccountNonce x) = None then (txflow l)(AccountNonce x \<mapsto> TxiTx x) else txflow l)"
    using txl_facts(1) [OF l(2), of "TxiTx x"] by simp
  have "flow_total (txflow ?l) \<le> bdNeg d + Value x"
  proof (cases "txflow l (AccountNonce x) = None")
    case True
    then show ?thesis using txl_facts(3) [OF l(2), of "TxiTx x"] l(3) by simp
  next
    case False
    then have "txflow ?l = txflow l" by (simp only: g if_False)
    then show ?thesis using l(3) assms(2) by simp
  qed
  moreover have "TxList_ok ?l" using txl.ok_put [OF l(2)] .
  moreover have "t \<in> insert (TxiTx x) T \<and> is_tx t \<and> Sender t = a" if "txflow ?l n = Some t" for n t
    using that l(4) assms(3) by (auto simp: g split: if_splits)
  ultimately show ?thesis using l(1) by (auto simp: sum_ok_def)
qed

lemma sum_ok_mono: "sum_ok T a d \<Longrightarrow> T \<subseteq> U \<Longrightarrow> sum_ok U a (d\<lparr>bdPos := v\<rparr>)"
  unfolding sum_ok_def by auto

lemma sent_snoc: "ledger.sent (map xfer (txs @ [TxiTx x])) a = ledger.sent (map xfer txs) a + (if a = From x then Value x else 0)"
  by (simp add: sent_append) (simp add: ledger.sent_def xfer_def)

lemma received_snoc: "ledger.received (map xfer (txs @ [TxiTx x])) a = ledger.received (map xfer txs) a + (if a = To x then Value x else 0)"
  by (simp add: received_append) (simp add: ledger.received_def xfer_def)

lemma accounted_add:
  assumes "accounted txs batch" "0 \<le> Value x"
  shows "accounted (txs @ [TxiTx x]) (add_to_batch batch x)"
proof -
  have "sum_ok (set (txs @ [TxiTx x])) a (detail_of (add_to_batch batch x) a)" for a
  proof -
    have e: "sum_ok (set txs) a (detail_of batch a)" using assms(1) by (simp add: accounted_def)
    show ?thesis
    proof (cases "a = From x")
      case True
      then show ?thesis using sum_ok_put [OF e assms(2) True [symmetric]] by (simp add: detail_of_add Let_def)
    next
      case False
      then show ?thesis 
        using sum_ok_mono [OF e subset_insertI, of "TxiTx x"
            "bdPos (detail_of batch a) + (if a = To x then Value x else 0)"]
        by (auto simp: detail_of_add Let_def)
    qed
  qed
  moreover have "bdNeg (detail_of (add_to_batch batch x) a) = ledger.sent (map xfer (txs @ [TxiTx x])) a"
    "bdPos (detail_of (add_to_batch batch x) a) = ledger.received (map xfer (txs @ [TxiTx x])) a" for a
    using assms(1) unfolding sent_snoc received_snoc by (simp_all add: detail_of_add Let_def accounted_def)
  ultimately show ?thesis using assms(1) by (simp add: accounted_def)
qed

lemma collect_batch_accounted:
  assumes "collect_batch seq es batch = Inr batch'" "accounted txs batch" "\<forall>(h, t) \<in> set es. tx_wf t"
  shows "accounted (txs @ elder_txs es) batch'"
  using assms
proof (induction seq es batch arbitrary: txs rule: collect_batch.induct)
  case (2 seq h t rest batch)
  show ?case
  proof (cases t)
    case (TxiTx x)
    then have c: "collect_batch seq rest (add_to_batch batch x) = Inr batch'"
      and ne: "\<not> (Sender t = Issuer seq \<and> GetNonce t = AccountNonce seq)"
      using 2(3) by (auto split: if_splits)
    have "accounted (txs @ [TxiTx x]) (add_to_batch batch x)"
      using accounted_add [OF 2(4)] 2(5) TxiTx by simp
    then show ?thesis using 2(1) [OF ne TxiTx c, of "txs @ [TxiTx x]"] 2(5) TxiTx by (simp add: elder_txs_def)
  next
    case (TxiSeq s)
    then have c: "collect_batch seq rest batch = Inr batch'"
      and ne: "\<not> (Sender t = Issuer seq \<and> GetNonce t = AccountNonce seq)"
      using 2(3) by (auto split: if_splits)
    then show ?thesis using 2(2) [OF ne TxiSeq c 2(4)] 2(5) TxiSeq by (simp add: elder_txs_def)
  qed
qed (simp add: elder_txs_def)

section \<open>Verifying the batch\<close>

text \<open>A passed check leaves every list sorted and otherwise as it was.\<close>

definition sorted_detail :: "BatchDetail \<Rightarrow> BatchDetail" where
  "sorted_detail d = d\<lparr>bdTxList := map_option (\<lambda>l. l\<lparr>keys := sort (keys l)\<rparr>) (bdTxList d)\<rparr>"

definition detail_passes :: "TxPool \<Rightarrow> Sequencer \<Rightarrow> Address \<Rightarrow> BatchDetail \<Rightarrow> bool" where
  "detail_passes p seq a d \<longleftrightarrow> bdNeg d \<le> Dag_getBalance (pdag p) a
     \<and> (\<exists>l. bdTxList d = Some l \<and> (keys l = [] \<or> verifyNonce p a (keys l) seq = Inr (sort (keys l))))"

lemma verifyNonce_sorted: "verifyNonce p a ns seq = Inr ks \<Longrightarrow> ks = sort ns"
  by (auto simp: verifyNonce_def Let_def split: sum.splits option.splits if_splits)

lemma sorted_detail_Nil: "bdTxList d = Some l \<Longrightarrow> keys l = [] \<Longrightarrow> sorted_detail d = d"
  by (simp add: sorted_detail_def)

lemma verify_details_ok:
  assumes "verify_details p seq ds batch = Inr batch'" "distinct (map fst ds)" "gomap_ok batch"
    "\<forall>(a, d) \<in> set ds. map_of batch a = Some d"
  shows "gomap_ok batch' \<and> (\<forall>(a, d) \<in> set ds. detail_passes p seq a d)
    \<and> (\<forall>a. map_of batch' a = (if a \<in> fst ` set ds then map_option sorted_detail (map_of batch a) else map_of batch a))"
  using assms
proof (induction p seq ds batch rule: verify_details.induct)
  case (2 p seq a d rest batch)
  have bal: "bdNeg d \<le> Dag_getBalance (pdag p) a" using "2.prems"(1) by (auto split: if_splits)
  then obtain l where l: "bdTxList d = Some l" using "2.prems"(1) by (auto split: option.splits)
  have mem: "map_of batch a = Some d" using "2.prems"(4) by simp
  show ?case
  proof (cases "keys l = []")
    case True
    then have r: "verify_details p seq rest batch = Inr batch'" using "2.prems"(1) bal l by simp
    have "detail_passes p seq a d" using bal l True by (simp add: detail_passes_def)
    moreover have "gomap_ok batch' \<and> (\<forall>(a, d) \<in> set rest. detail_passes p seq a d)
      \<and> (\<forall>a. map_of batch' a = (if a \<in> fst ` set rest then map_option sorted_detail (map_of batch a) else map_of batch a))"
      using "2.IH"(1) [OF _ l _ r] bal True "2.prems" by auto
    ultimately show ?thesis using mem sorted_detail_Nil [OF l True] by auto
  next
    case False
    then obtain ks where ks: "verifyNonce p a (keys l) seq = Inr ks"
      using "2.prems"(1) bal l by (auto split: sum.splits)
    have sd: "d\<lparr>bdTxList := Some (l\<lparr>keys := ks\<rparr>)\<rparr> = sorted_detail d"
      using verifyNonce_sorted [OF ks] l by (simp add: sorted_detail_def)
    let ?b = "AList.update a (sorted_detail d) batch"
    have r: "verify_details p seq rest ?b = Inr batch'" using "2.prems"(1) bal l False ks sd by simp
    have pre: "\<forall>(a', d') \<in> set rest. map_of ?b a' = Some d'"
      using "2.prems"(2,4) by (force simp: image_iff)
    have "detail_passes p seq a d" using bal l ks verifyNonce_sorted [OF ks] by (simp add: detail_passes_def)
    moreover have "gomap_ok batch' \<and> (\<forall>(a, d) \<in> set rest. detail_passes p seq a d)
      \<and> (\<forall>a. map_of batch' a = (if a \<in> fst ` set rest then map_option sorted_detail (map_of ?b a) else map_of ?b a))"
      using "2.IH"(2) [OF _ l _ ks] sd r pre bal False "2.prems"(2,3) by simp
    ultimately show ?thesis using mem "2.prems"(2) by auto
  qed
qed simp

lemma verifyConfirmBatch_ok:
  assumes "verifyConfirmBatch ords p seq elders = Inr cb" "range_order (ordElders ords)" "range_order (ordDetails ords)"
    "\<forall>(h, t) \<in> set elders. tx_wf t"
  shows "cbSeq cb = seq" and "cbTxHashes cb = Some (confirm_hashes p elders)"
    and "\<exists>batch. collect_batch seq (ordElders ords elders) [] = Inr batch
      \<and> accounted (elder_txs (ordElders ords elders)) batch \<and> gomap_ok (cbBatch cb)
      \<and> map_of (cbBatch cb) = map_option sorted_detail \<circ> map_of batch
      \<and> (\<forall>a d. map_of batch a = Some d \<longrightarrow> detail_passes p seq a d)"
proof -
  obtain batch batch' where c: "collect_batch seq (ordElders ords elders) [] = Inr batch"
    and v: "verify_details p seq (ordDetails ords batch) batch = Inr batch'"
    and cb: "cb = \<lparr>cbSeq = seq, cbBatch = batch', cbTxHashes = Some (confirm_hashes p elders)\<rparr>"
    using assms(1) by (auto simp: verifyConfirmBatch_def split: sum.splits)
  have "\<forall>(h, t) \<in> set (ordElders ords elders). tx_wf t" using assms(4) range_order_set [OF assms(2)] by metis
  then have acc: "accounted (elder_txs (ordElders ords elders)) batch"
    using collect_batch_accounted [OF c accounted_start] by simp
  then have ok: "gomap_ok batch" by (simp add: accounted_def)
  have so: "set (ordDetails ords batch) = set batch" using range_order_set [OF assms(3)] .
  have "distinct (map fst (ordDetails ords batch))"
    using ok range_order_distinct_map [OF assms(3), of fst batch] by (simp add: gomap_ok_def)
  moreover have "\<forall>(a, d) \<in> set (ordDetails ords batch). map_of batch a = Some d" using ok so gomap_mem by fastforce
  ultimately have r: "gomap_ok batch' \<and> (\<forall>(a, d) \<in> set batch. detail_passes p seq a d)
    \<and> (\<forall>a. map_of batch' a = (if a \<in> fst ` set batch then map_option sorted_detail (map_of batch a) else map_of batch a))"
    using verify_details_ok [OF v _ ok] by (simp add: so)
  have "map_of batch' a = map_option sorted_detail (map_of batch a)" for a
  proof (cases "a \<in> fst ` set batch")
    case False
    then have "map_of batch a = None" by (simp add: map_of_eq_None_iff)
    then show ?thesis using r False by simp
  qed (use r in simp)
  then have "map_of batch' = map_option sorted_detail \<circ> map_of batch" by auto
  moreover have "\<forall>a d. map_of batch a = Some d \<longrightarrow> detail_passes p seq a d" using r map_of_SomeD by fast
  ultimately show "\<exists>batch. collect_batch seq (ordElders ords elders) [] = Inr batch
      \<and> accounted (elder_txs (ordElders ords elders)) batch \<and> gomap_ok (cbBatch cb)
      \<and> map_of (cbBatch cb) = map_option sorted_detail \<circ> map_of batch
      \<and> (\<forall>a d. map_of batch a = Some d \<longrightarrow> detail_passes p seq a d)"
    using acc r cb c by auto
  show "cbSeq cb = seq" "cbTxHashes cb = Some (confirm_hashes p elders)" using cb by simp_all
qed

section \<open>A verified batch can be pushed\<close>

lemma list_txs_sent:
  assumes "TxList_ok l" "\<And>n t. txflow l n = Some t \<Longrightarrow> is_tx t \<and> Sender t = a"
  shows "ledger.sent (map xfer (list_txs l)) b = (if b = a then flow_total (txflow l) else 0)"
proof -
  have ks: "distinct (keys l)" "set (keys l) = dom (txflow l)" using assms(1) by (simp_all add: TxList_ok_def)
  have x: "(case xfer (the (txflow l n)) of (f, t, v, m) \<Rightarrow> if f = b then v else 0)
      = (if b = a then GetValue (the (txflow l n)) else 0)" if n: "n \<in> set (keys l)" for n
  proof -
    obtain t where t: "txflow l n = Some t" using n ks(2) by auto
    then show ?thesis using assms(2) [OF t] by (cases t) (auto simp: xfer_def)
  qed
  have "ledger.sent (map xfer (list_txs l)) b
      = sum_list (map (\<lambda>n. case xfer (the (txflow l n)) of (f, t, v, m) \<Rightarrow> if f = b then v else 0) (keys l))"
    by (simp add: ledger.sent_def list_txs_def comp_def TxList_get_def)
  also have "\<dots> = sum_list (map (\<lambda>n. if b = a then GetValue (the (txflow l n)) else 0) (keys l))"
    by (intro arg_cong [where f = sum_list] map_cong refl x)
  also have "\<dots> = (if b = a then flow_total (txflow l) else 0)"
    using sum.distinct_set_conv_list [OF ks(1), of "\<lambda>n. GetValue (the (txflow l n))"] ks(2)
    by (simp add: flow_total_def)
  finally show ?thesis .
qed

definition entries_ok :: "Txi set \<Rightarrow> (Address \<times> BatchDetail) list \<Rightarrow> bool" where
  "entries_ok T ds \<longleftrightarrow> (\<forall>(a, d) \<in> set ds. \<exists>l. bdTxList d = Some l \<and> TxList_ok l
     \<and> (\<forall>n t. txflow l n = Some t \<longrightarrow> t \<in> T \<and> is_tx t \<and> Sender t = a))"

lemma batch_sent:
  assumes "entries_ok T ds" "distinct (map fst ds)"
  shows "ledger.sent (map xfer (batch_txs ds)) b =
    (case map_of ds b of None \<Rightarrow> 0 | Some d \<Rightarrow> flow_total (txflow (the (bdTxList d))))"
  using assms
proof (induction ds)
  case Nil
  then show ?case by (simp add: batch_txs_def ledger.sent_def)
next
  case (Cons x ds)
  obtain a d where x: "x = (a, d)" by fastforce
  obtain l where l: "bdTxList d = Some l" "TxList_ok l" "\<And>n t. txflow l n = Some t \<Longrightarrow> is_tx t \<and> Sender t = a"
    using Cons.prems(1) x by (auto simp: entries_ok_def)
  have "ledger.sent (map xfer (detail_txs (a, d))) b = (if b = a then flow_total (txflow l) else 0)"
    using list_txs_sent [OF l(2,3)] l(1) by (simp add: detail_txs_def)
  moreover have "b = a \<Longrightarrow> map_of ds b = None" using Cons.prems(2) x by (simp add: map_of_eq_None_iff)
  ultimately show ?case
    using Cons x l(1) by (auto simp: batch_txs_def sent_append entries_ok_def)
qed

lemma set_list_txs: "TxList_ok l \<Longrightarrow> set (list_txs l) = ran (txflow l)"
  by (force simp: list_txs_def TxList_ok_def TxList_get_def ran_def image_iff dom_def)

lemma batch_txs_mem:
  assumes "entries_ok T ds" "t \<in> set (batch_txs ds)"
  shows "t \<in> T \<and> is_tx t"
proof -
  obtain a d l where "(a, d) \<in> set ds" "bdTxList d = Some l" "TxList_ok l" "t \<in> set (list_txs l)"
    "\<forall>n t. txflow l n = Some t \<longrightarrow> t \<in> T \<and> is_tx t \<and> Sender t = a"
    using assms by (fastforce simp: batch_txs_def detail_txs_def entries_ok_def split: option.splits)
  then show ?thesis using set_list_txs by (force simp: ran_def)
qed

lemma sorted_detail_list:
  assumes "sum_ok T a d"
  shows "\<exists>l. bdTxList (sorted_detail d) = Some l \<and> TxList_ok l
    \<and> (\<forall>n t. txflow l n = Some t \<longrightarrow> t \<in> T \<and> is_tx t \<and> Sender t = a) \<and> flow_total (txflow l) \<le> bdNeg d"
proof -
  obtain l where "bdTxList d = Some l" "TxList_ok l" "flow_total (txflow l) \<le> bdNeg d"
    "\<forall>n t. txflow l n = Some t \<longrightarrow> t \<in> T \<and> is_tx t \<and> Sender t = a"
    using assms by (auto simp: sum_ok_def)
  then show ?thesis by (intro exI [of _ "l\<lparr>keys := sort (keys l)\<rparr>"]) (simp add: sorted_detail_def TxList_ok_def)
qed

text \<open>What the push needs of the elders: plain transactions that the codec can store.\<close>

definition storable :: "Dag \<Rightarrow> uint64 \<Rightarrow> Txi \<Rightarrow> bool" where
  "storable dag height t \<longleftrightarrow> plain t \<and> tx_codec_at (dcodec dag) (set_Height t height)"

lemma verified_batch:
  assumes "verifyConfirmBatch ords p seq elders = Inr cb" "range_order (ordElders ords)" "range_order (ordDetails ords)"
    "\<forall>(h, t) \<in> set elders. tx_wf t"
  shows "entries_ok (set (map snd elders)) (cbBatch cb)" "gomap_ok (cbBatch cb)"
    and "ledger.sent (map xfer (batch_txs (cbBatch cb))) a \<le> ledger.sent (map xfer (elder_txs elders)) a"
    and "map_of (cbBatch cb) a = Some d \<Longrightarrow> ledger.sent (map xfer (elder_txs elders)) a \<le> Dag_getBalance (pdag p) a"
    and "map_of (cbBatch cb) a = None \<Longrightarrow> ledger.sent (map xfer (batch_txs (cbBatch cb))) a = 0"
proof -
  obtain batch where acc: "accounted (elder_txs (ordElders ords elders)) batch" and ok: "gomap_ok (cbBatch cb)"
    and m: "map_of (cbBatch cb) = map_option sorted_detail \<circ> map_of batch"
    and pass: "\<forall>a d. map_of batch a = Some d \<longrightarrow> detail_passes p seq a d"
    using verifyConfirmBatch_ok(3) [OF assms] by blast
  have "mset (ordElders ords elders) = mset elders" using assms(2) by (simp add: range_order_def)
  then have "mset (elder_txs (ordElders ords elders)) = mset (elder_txs elders)" by (simp add: elder_txs_def)
  then have sent: "ledger.sent (map xfer (elder_txs (ordElders ords elders))) b = ledger.sent (map xfer (elder_txs elders)) b" for b
    by (rule sent_mset)
  have T: "set (elder_txs (ordElders ords elders)) \<subseteq> set (map snd elders)"
    using range_order_set [OF assms(2), of elders] by (auto simp: elder_txs_def)
  have entry: "\<exists>d0. map_of batch b = Some d0 \<and> d = sorted_detail d0 \<and> sum_ok (set (elder_txs (ordElders ords elders))) b d0
      \<and> bdNeg d0 = ledger.sent (map xfer (elder_txs elders)) b"
    if "map_of (cbBatch cb) b = Some d" for b d
  proof -
    obtain d0 where d0: "map_of batch b = Some d0" "d = sorted_detail d0" using \<open>map_of (cbBatch cb) b = Some d\<close> m by auto
    moreover have "detail_of batch b = d0" using d0 by (simp add: detail_of_def)
    ultimately show ?thesis using acc sent by (auto simp: accounted_def)
  qed
  show e: "entries_ok (set (map snd elders)) (cbBatch cb)"
    unfolding entries_ok_def
  proof (clarify)
    fix b d assume "(b, d) \<in> set (cbBatch cb)"
    then have "map_of (cbBatch cb) b = Some d" using ok gomap_mem by fast
    then obtain d0 where d0: "d = sorted_detail d0" "sum_ok (set (elder_txs (ordElders ords elders))) b d0" using entry by blast
    obtain l where l: "bdTxList d = Some l" "TxList_ok l"
      "\<forall>n t. txflow l n = Some t \<longrightarrow> t \<in> set (elder_txs (ordElders ords elders)) \<and> is_tx t \<and> Sender t = b"
      using sorted_detail_list [OF d0(2)] d0(1) by (elim exE conjE) simp
    then show "\<exists>l. bdTxList d = Some l \<and> TxList_ok l
        \<and> (\<forall>n t. txflow l n = Some t \<longrightarrow> t \<in> set (map snd elders) \<and> is_tx t \<and> Sender t = b)"
      using T by (intro exI [of _ l]) auto
  qed
  show "gomap_ok (cbBatch cb)" by (rule ok)
  have bs: "ledger.sent (map xfer (batch_txs (cbBatch cb))) b =
      (case map_of (cbBatch cb) b of None \<Rightarrow> 0 | Some d \<Rightarrow> flow_total (txflow (the (bdTxList d))))" for b
    using batch_sent [OF e] ok by (simp add: gomap_ok_def)
  have v: "0 \<le> Value t" if "TxiTx t \<in> set (elder_txs elders)" for t
    using that assms(4) by (fastforce simp: elder_txs_def)
  have "0 \<le> ledger.sent (map xfer (elder_txs elders)) a"
    unfolding ledger.sent_def map_map by (rule sum_list_nonneg) (use v in \<open>auto simp: xfer_def split: Txi.splits\<close>)
  then show "ledger.sent (map xfer (batch_txs (cbBatch cb))) a \<le> ledger.sent (map xfer (elder_txs elders)) a"
  proof (cases "map_of (cbBatch cb) a")
    case (Some d)
    then obtain d0 where d0: "d = sorted_detail d0" "sum_ok (set (elder_txs (ordElders ords elders))) a d0"
      "bdNeg d0 = ledger.sent (map xfer (elder_txs elders)) a" using entry by blast
    obtain l where "bdTxList d = Some l" "flow_total (txflow l) \<le> bdNeg d0"
      using sorted_detail_list [OF d0(2)] d0(1) by blast
    then show ?thesis using bs [of a] Some d0(3) by simp
  qed (use bs [of a] in simp)
  show "map_of (cbBatch cb) a = Some d \<Longrightarrow> ledger.sent (map xfer (elder_txs elders)) a \<le> Dag_getBalance (pdag p) a"
  proof -
    assume "map_of (cbBatch cb) a = Some d"
    then obtain d0 where "map_of batch a = Some d0" "bdNeg d0 = ledger.sent (map xfer (elder_txs elders)) a"
      using entry by blast
    moreover from this have "detail_passes p seq a d0" using pass by blast
    ultimately show ?thesis by (simp add: detail_passes_def)
  qed
  show "map_of (cbBatch cb) a = None \<Longrightarrow> ledger.sent (map xfer (batch_txs (cbBatch cb))) a = 0" using bs [of a] by simp
qed

lemma verified_push:
  assumes v: "verifyConfirmBatch ords p seq elders = Inr cb" "range_order (ordElders ords)" "range_order (ordDetails ords)"
    and e: "\<forall>(h, t) \<in> set elders. tx_wf t \<and> (is_tx t \<longrightarrow> storable (pdag p) (Height seq) t)"
    and d: "dag_inv (pdag p)" "latestSequencer (pdag p) = Some latest" "Height seq = Height latest + 1"
    and s: "TypeOf seq = TxBaseTypeSequencer" "tx_codec_at (dcodec (pdag p)) (TxiSeq seq)"
  shows "batch_ok (pdag p) cb" and "covered (pdag p) cb"
proof -
  have wf: "\<forall>(h, t) \<in> set elders. tx_wf t" using e by auto
  note vb = verified_batch [OF v wf]
  have mem: "\<exists>h. (h, t) \<in> set elders" "is_tx t" if "t \<in> set (batch_txs (cbBatch cb))" for t
    using batch_txs_mem [OF vb(1) that] by auto
  have st: "storable (pdag p) (Height seq) t" "tx_wf t" if "t \<in> set (batch_txs (cbBatch cb))" for t
    using mem [OF that] e by auto
  have "detail_ok x" if "x \<in> set (cbBatch cb)" for x
    using vb(1) that by (force simp: entries_ok_def detail_ok_def TxList_ok_def TxList_get_def)
  then show "batch_ok (pdag p) cb"
    using st(1) d(2,3) s verifyConfirmBatch_ok(1) [OF v wf] by (auto simp: batch_ok_def storable_def)
  have "0 \<le> GetValue t" if "t \<in> set (batch_txs (cbBatch cb))" for t
    using st(2) [OF that] mem(2) [OF that] by (cases t) simp_all
  moreover have "ledger.sent (map xfer (batch_txs (cbBatch cb))) a \<le> Dag_getBalance (pdag p) a" for a
  proof (cases "map_of (cbBatch cb) a")
    case None
    have "0 \<le> Dag_getBalance (pdag p) a" using d(1) acct_ok_bal by (simp add: Dag_getBalance_eq dag_inv_def sd_inv_def)
    then show ?thesis using vb(5) [OF None] by simp
  next
    case (Some x)
    then show ?thesis using vb(3) [of a] vb(4) [OF Some] by simp
  qed
  ultimately show "covered (pdag p) cb" by (simp add: covered_def)
qed

section \<open>Elders with different nonces are all in the batch\<close>

abbreviation tx_pair :: "Txi \<Rightarrow> Address \<times> uint64" where
  "tx_pair t \<equiv> (Sender t, GetNonce t)"

definition listed :: "(Address, BatchDetail) gomap \<Rightarrow> Txi \<Rightarrow> bool" where
  "listed batch t \<longleftrightarrow> (\<exists>d l u. map_of batch (Sender t) = Some d \<and> bdTxList d = Some l \<and> txflow l (GetNonce t) = Some u)"

lemma listed_add:
  assumes "accounted txs batch"
  shows "listed (add_to_batch batch x) (TxiTx x)" and "listed batch t \<Longrightarrow> listed (add_to_batch batch x) t"
proof -
  obtain l where l: "bdTxList (detail_of batch (From x)) = Some l" "TxList_ok l"
    using assms unfolding accounted_def sum_ok_def by blast
  have put: "txflow (TxList_put l (TxiTx x)) n = (if txflow l n \<noteq> None then txflow l n else if n = AccountNonce x then Some (TxiTx x) else None)" for n
    using txl_facts(1) [OF l(2), of "TxiTx x"] by (auto simp: fun_upd_apply)
  show "listed (add_to_batch batch x) (TxiTx x)"
    using l put by (auto simp: listed_def add_to_batch_def Let_def detail_of_def split: option.splits)
  show "listed batch t \<Longrightarrow> listed (add_to_batch batch x) t"
    using l put by (auto simp: listed_def add_to_batch_def Let_def detail_of_def split: option.splits if_splits)
qed

lemma collect_batch_listed:
  assumes "collect_batch seq es batch = Inr batch'" "accounted txs batch" "\<forall>(h, t) \<in> set es. tx_wf t"
    "\<forall>t \<in> set txs. listed batch t"
  shows "\<forall>t \<in> set (txs @ elder_txs es). listed batch' t"
  using assms
proof (induction seq es batch arbitrary: txs rule: collect_batch.induct)
  case (2 seq h t rest batch)
  show ?case
  proof (cases t)
    case (TxiTx x)
    then have c: "collect_batch seq rest (add_to_batch batch x) = Inr batch'"
      and ne: "\<not> (Sender t = Issuer seq \<and> GetNonce t = AccountNonce seq)"
      using 2(3) by (auto split: if_splits)
    have "accounted (txs @ [TxiTx x]) (add_to_batch batch x)" using accounted_add [OF 2(4)] 2(5) TxiTx by simp
    moreover have "\<forall>u \<in> set (txs @ [TxiTx x]). listed (add_to_batch batch x) u" using listed_add [OF 2(4)] 2(6) by auto
    ultimately show ?thesis using 2(1) [OF ne TxiTx c] 2(5) TxiTx by (simp add: elder_txs_def)
  next
    case (TxiSeq s)
    then have c: "collect_batch seq rest batch = Inr batch'"
      and ne: "\<not> (Sender t = Issuer seq \<and> GetNonce t = AccountNonce seq)"
      using 2(3) by (auto split: if_splits)
    then show ?thesis using 2(2) [OF ne TxiSeq c 2(4)] 2(5,6) TxiSeq by (simp add: elder_txs_def)
  qed
qed (simp add: elder_txs_def)

lemma list_pairs:
  assumes "TxList_ok l" "\<And>n t. txflow l n = Some t \<Longrightarrow> Sender t = a"
  shows "map tx_pair (list_txs l) = map (Pair a) (keys l)"
proof -
  have "tx_pair (the (txflow l n)) = (a, n)" if n: "n \<in> set (keys l)" for n
  proof -
    obtain t where t: "txflow l n = Some t" using n assms(1) by (auto simp: TxList_ok_def)
    then show ?thesis using assms by (simp add: TxList_ok_def)
  qed
  then show ?thesis by (simp add: list_txs_def TxList_get_def)
qed

lemma batch_pairs:
  assumes "entries_ok T ds" "distinct (map fst ds)"
  shows "distinct (map tx_pair (batch_txs ds)) \<and> fst ` set (map tx_pair (batch_txs ds)) \<subseteq> fst ` set ds"
  using assms
proof (induction ds)
  case (Cons x ds)
  obtain a d where x: "x = (a, d)" by fastforce
  obtain l where l: "bdTxList d = Some l" "TxList_ok l" "\<And>n t. txflow l n = Some t \<Longrightarrow> Sender t = a"
    using Cons.prems(1) x by (auto simp: entries_ok_def)
  have IH: "distinct (map tx_pair (batch_txs ds))" "fst ` set (map tx_pair (batch_txs ds)) \<subseteq> fst ` set ds"
    using Cons by (auto simp: entries_ok_def)
  have b: "batch_txs (x # ds) = list_txs l @ batch_txs ds" using l(1) x by (simp add: batch_txs_def detail_txs_def)
  have m: "map tx_pair (batch_txs (x # ds)) = map (Pair a) (keys l) @ map tx_pair (batch_txs ds)"
    using list_pairs [OF l(2,3)] by (simp add: b)
  have "distinct (map (Pair a) (keys l))" using l(2) by (simp add: TxList_ok_def distinct_map inj_on_def)
  moreover have "set (map (Pair a) (keys l)) \<inter> set (map tx_pair (batch_txs ds)) = {}"
    using IH(2) Cons.prems(2) x by force
  ultimately show ?case unfolding m using IH x by (simp add: image_Un) force
qed (simp add: batch_txs_def)

lemma verified_batch_all:
  assumes "verifyConfirmBatch ords p seq elders = Inr cb" "range_order (ordElders ords)" "range_order (ordDetails ords)"
    "\<forall>(h, t) \<in> set elders. tx_wf t" "distinct (map tx_pair (elder_txs elders))"
  shows "mset (batch_txs (cbBatch cb)) = mset (elder_txs elders)"
proof -
  have wf: "\<forall>(h, t) \<in> set (ordElders ords elders). tx_wf t" using assms(4) range_order_set [OF assms(2)] by metis
  obtain batch where c: "collect_batch seq (ordElders ords elders) [] = Inr batch"
    using assms(1) by (auto simp: verifyConfirmBatch_def split: sum.splits)
  have L: "\<forall>t \<in> set (elder_txs (ordElders ords elders)). listed batch t"
    using collect_batch_listed [OF c accounted_start wf] by simp
  have acc: "accounted (elder_txs (ordElders ords elders)) batch" using collect_batch_accounted [OF c accounted_start wf] by simp
  have m: "map_of (cbBatch cb) = map_option sorted_detail \<circ> map_of batch"
    using verifyConfirmBatch_ok(3) [OF assms(1-4)] c by auto
  note vb = verified_batch [OF assms(1-4)]
  have set_el: "set (elder_txs (ordElders ords elders)) = set (elder_txs elders)"
    using range_order_set [OF assms(2), of elders] by (simp add: elder_txs_def)
  have inj: "inj_on tx_pair (set (elder_txs elders))" using assms(5) by (simp add: distinct_map)
  have sub: "set (batch_txs (cbBatch cb)) \<subseteq> set (elder_txs elders)"
    using batch_txs_mem [OF vb(1)] by (auto simp: elder_txs_def)
  have sup: "t \<in> set (batch_txs (cbBatch cb))" if t: "t \<in> set (elder_txs elders)" for t
  proof -
    obtain d l u where d: "map_of batch (Sender t) = Some d" "bdTxList d = Some l" "txflow l (GetNonce t) = Some u"
      using L t set_el by (auto simp: listed_def)
    let ?l = "l\<lparr>keys := sort (keys l)\<rparr>"
    have e: "(Sender t, sorted_detail d) \<in> set (cbBatch cb)" using m d(1) by (auto intro: map_of_SomeD)
    have sd: "bdTxList (sorted_detail d) = Some ?l" using d(2) by (simp add: sorted_detail_def)
    have lo: "TxList_ok l" "Sender u = Sender t"
      using acc d by (auto simp: accounted_def sum_ok_def detail_of_def dest!: spec [of _ "Sender t"])
    then have "TxList_ok ?l" "u \<in> ran (txflow ?l)" using d(3) by (auto simp: TxList_ok_def ran_def)
    then have "u \<in> set (list_txs ?l)" using set_list_txs by blast
    then have u: "u \<in> set (batch_txs (cbBatch cb))" using e sd by (force simp: batch_txs_def detail_txs_def)
    have "GetNonce u = GetNonce t" using lo(1) d(3) by (simp add: TxList_ok_def)
    then have "u = t" using inj_onD [OF inj, of u t] lo(2) u sub t by auto
    then show ?thesis using u by simp
  qed
  have "distinct (map tx_pair (batch_txs (cbBatch cb)))" using batch_pairs [OF vb(1)] vb(2) by (simp add: gomap_ok_def)
  then have "distinct (batch_txs (cbBatch cb))" "distinct (elder_txs elders)" using assms(5) by (simp_all add: distinct_map)
  then show ?thesis using sub sup by (metis set_eq_iff_mset_eq_distinct subset_antisym subsetI)
qed

end
