(* ===== verification/PoolConfirm.thy ===== *)
theory PoolConfirm
  imports Elders
begin

text \<open>
  The pool and the DAG together: the store stays readable, a sequencer that passes the checks of
  \<^verbatim>\<open>confirm\<close> is pushed and moves exactly the value of its elders, the invariants of pool and DAG hold
  after every event, and no event runs into a panic.
\<close>

section \<open>The store stays readable\<close>

definition slot_ok :: "dbkey \<Rightarrow> byte list \<Rightarrow> bool" where
  "slot_ok k d = (case k of KTx _ \<Rightarrow> d = [] \<or> 4 \<le> length d | KFlow _ _ \<Rightarrow> length d \<le> 32 | _ \<Rightarrow> True)"

definition db_wf :: "KvDB \<Rightarrow> bool" where
  "db_wf db \<longleftrightarrow> (\<forall>k. slot_ok k (get_data db (key_bytes k)))"

lemma db_wf_Put:
  assumes "db_wf db" "slot_ok k v"
  shows "db_wf (snd (Put db (key_bytes k) v))"
  unfolding db_wf_def
proof
  fix k'
  obtain r db' where p: "Put db (key_bytes k) v = (r, db')" by fastforce
  show "slot_ok k' (get_data (snd (Put db (key_bytes k) v)) (key_bytes k'))"
  proof (cases "k' = k \<and> r = None")
    case True
    then show ?thesis using get_data_Put p assms(2) by simp
  next
    case False
    then have "get_data db' (key_bytes k') = get_data db (key_bytes k')"
      using get_data_Put_other [OF p, of "key_bytes k'"] p by (cases "k' = k") (auto simp: key_bytes_eq Put_def split: if_splits)
    then show ?thesis using assms(1) p by (simp add: db_wf_def)
  qed
qed

lemma db_wf_marshalled: "db_wf db \<Longrightarrow> (\<And>d. slot_ok k d) \<Longrightarrow> db_wf (snd (put_marshalled db (key_bytes k) m))"
  by (simp add: put_marshalled_def db_wf_Put split: sum.splits)

lemma db_wf_writes [simp]:
  assumes "db_wf db"
  shows "db_wf (snd (WriteIndexedTxHashs C db n hs))" "db_wf (snd (WriteSequencerByHeight C db s))"
    "db_wf (snd (WriteLatestSequencer C db s))" "db_wf (snd (writeConfirmTime C db ct))" "db_wf (snd (WriteReceipts C db n rs))"
  using db_wf_marshalled [OF assms, of "KIndex n"] db_wf_marshalled [OF assms, of "KSeq (Height s)"]
    db_wf_marshalled [OF assms, of KLatestSeq] db_wf_marshalled [OF assms, of "KConfirm (ctSeqHeight ct)"]
    db_wf_marshalled [OF assms, of "KReceipt n"]
  by (simp_all add: WriteIndexedTxHashs_def WriteSequencerByHeight_def WriteLatestSequencer_def writeConfirmTime_def
      WriteReceipts_def slot_ok_def Let_def)

lemma db_wf_tx:
  assumes "db_wf db"
  shows "db_wf (snd (WriteTxHashByNonce db a n h))" "db_wf (snd (WriteTransaction C db tx))"
proof -
  show "db_wf (snd (WriteTxHashByNonce db a n h))"
    using db_wf_Put [OF assms, of "KFlow a n" "Hash_ToBytes h"] by (simp add: WriteTxHashByNonce_def slot_ok_def)
  have "db_wf (snd (Put db (transactionKey g) (pre @ d)))" if "length pre = 4" for g pre d
    using db_wf_Put [OF assms, of "KTx g" "pre @ d"] that by (simp add: slot_ok_def)
  then show "db_wf (snd (WriteTransaction C db tx))"
    using assms prefix_simps by (cases tx) (auto simp: WriteTransaction_def split: sum.splits)
qed

lemma wf_WriteTransaction: "db_wf (ddb dag) \<Longrightarrow> db_wf (ddb (snd (Dag_WriteTransaction dag tx)))"
  using db_wf_tx(1) [of "ddb dag" "Sender tx" "GetNonce tx" "GetTxHash tx"]
    db_wf_tx(2) [of "snd (WriteTxHashByNonce (ddb dag) (Sender tx) (GetNonce tx) (GetTxHash tx))" "dcodec dag" tx]
  by (auto simp: Dag_WriteTransaction_def split: prod.splits option.splits)

lemma ddb_ProcessTransaction [simp]: "ddb (snd (ProcessTransaction dag tx)) = ddb dag"
  by (auto simp: ProcessTransaction_def Let_def split: Txi.splits option.splits prod.splits sum.splits)

lemma wf_push_tx: "db_wf (ddb dag) \<Longrightarrow> db_wf (ddb (snd (push_tx dag h tx rs)))"
proof -
  assume wf: "db_wf (ddb dag)"
  obtain r dag1 where w: "Dag_WriteTransaction dag (set_Height tx h) = (r, dag1)" by fastforce
  then have "db_wf (ddb dag1)" using wf_WriteTransaction [OF wf] by (metis snd_conv)
  moreover obtain q dag2 where "ProcessTransaction dag1 (set_Height tx h) = (q, dag2)" by fastforce
  moreover from this have "ddb dag2 = ddb dag1" using ddb_ProcessTransaction by (metis snd_conv)
  ultimately show ?thesis using w by (auto simp: push_tx_def Let_def split: option.splits sum.splits prod.splits)
qed

lemma wf_push_list: "db_wf (ddb dag) \<Longrightarrow> db_wf (ddb (snd (push_list dag h l ns rs)))"
proof (induction ns arbitrary: dag rs)
  case (Cons n ns)
  show ?case
  proof (cases "TxList_get l n")
    case (Some tx)
    obtain r dag1 where "push_tx dag h tx rs = (r, dag1)" by fastforce
    moreover from this have "db_wf (ddb dag1)" using wf_push_tx [OF Cons.prems] by (metis snd_conv)
    ultimately show ?thesis using Some Cons.IH by (cases r) simp_all
  qed (use Cons.prems in simp)
qed simp

lemma wf_push_batch: "db_wf (ddb dag) \<Longrightarrow> db_wf (ddb (snd (push_batch dag h ds rs)))"
proof (induction ds arbitrary: dag rs)
  case (Cons x ds)
  obtain a d where x: "x = (a, d)" by fastforce
  show ?case
  proof (cases "bdTxList d")
    case (Some l)
    obtain r dag1 where "push_list dag h l (keys l) rs = (r, dag1)" by fastforce
    moreover from this have "db_wf (ddb dag1)" using wf_push_list [OF Cons.prems] by (metis snd_conv)
    ultimately show ?thesis using Some Cons.IH x by (cases r) simp_all
  qed (use Cons.prems x in simp)
qed simp

lemma wf_push_indices: "db_wf (ddb dag) \<Longrightarrow> db_wf (ddb (snd (push_indices dag b)))"
proof -
  assume wf: "db_wf (ddb dag)"
  define db1 where "db1 = (if (case cbTxHashes b of None \<Rightarrow> 0 | Some hs \<Rightarrow> length hs) > 0
     then snd (WriteIndexedTxHashs (dcodec dag) (ddb dag) (Height (cbSeq b)) (the (cbTxHashes b))) else ddb dag)"
  have 1: "db_wf db1" using wf by (simp add: db1_def)
  obtain r2 db2 where 2: "WriteSequencerByHeight (dcodec dag) db1 (cbSeq b) = (r2, db2)" by fastforce
  then have w2: "db_wf db2" using db_wf_writes(2) [OF 1] by (metis snd_conv)
  obtain r3 db3 where 3: "WriteLatestSequencer (dcodec dag) db2 (cbSeq b) = (r3, db3)" by fastforce
  then have w3: "db_wf db3" using db_wf_writes(3) [OF w2] by (metis snd_conv)
  show ?thesis
    using 2 3 w2 w3 by (cases r2; cases r3) (simp_all add: push_indices_def Let_def db1_def [symmetric])
qed

lemma wf_push_commit: "db_wf (ddb dag) \<Longrightarrow> db_wf (ddb (snd (push_commit ords dag b)))"
  by (auto simp: push_commit_def Let_def wf_push_indices split: option.splits)

lemma wf_push:
  assumes "db_wf (ddb dag)"
  shows "db_wf (ddb (snd (Dag_push ords dag b)))"
proof -
  let ?h = "Height (cbSeq b)" and ?s = "TxiSeq (cbSeq b)"
  obtain r1 dag1 where 1: "push_batch dag ?h (ordBatch ords (cbBatch b)) [] = (r1, dag1)" by fastforce
  then have w1: "db_wf (ddb dag1)" using wf_push_batch [OF assms] by (metis snd_conv)
  obtain r2 dag2 where 2: "Dag_WriteTransaction dag1 ?s = (r2, dag2)" by fastforce
  then have w2: "db_wf (ddb dag2)" using wf_WriteTransaction [OF w1] by (metis snd_conv)
  obtain r3 dag3 where 3: "ProcessTransaction dag2 ?s = (r3, dag3)" by fastforce
  then have w3: "db_wf (ddb dag3)" using w2 ddb_ProcessTransaction by (metis snd_conv)
  have w4: "db_wf (snd (WriteReceipts (dcodec dag) (ddb dag3) ?h rs))" for rs using db_wf_writes(5) [OF w3] .
  have w5: "db_wf (ddb (snd (push_commit ords (dag3\<lparr>ddb := db\<rparr>) b)))"
    if "WriteReceipts (dcodec dag) (ddb dag3) ?h rs = (r, db)" for rs r db
    using wf_push_commit [of "dag3\<lparr>ddb := db\<rparr>"] w4 [of rs] that by simp
  have w6: "db_wf db" if "WriteReceipts (dcodec dag) (ddb dag3) ?h rs = (r, db)" for rs r db
    using w4 [of rs] that by simp
  show ?thesis
    using assms 1 2 3 w1 w2 w3 w5 w6
    by (auto simp: Dag_push_def Let_def split: option.splits sum.splits prod.splits)
qed

lemma db_wf_readable:
  assumes "db_wf (ddb dag)"
  shows "dag_readable dag"
proof -
  have tx: "ReadTransaction (dcodec dag) (ddb dag) h \<noteq> None" for h
  proof -
    have "slot_ok (KTx h) (get_data (ddb dag) (transactionKey h))"
      using assms unfolding db_wf_def by (metis key_bytes.simps(4))
    then show ?thesis
      using prefix_simps by (auto simp: ReadTransaction_def slot_ok_def Let_def split: sum.splits)
  qed
  moreover have "Dag_getTxByNonce dag a n \<noteq> None" for a n
  proof -
    have "slot_ok (KFlow a n) (get_data (ddb dag) (txHashFlowKey a n))"
      using assms unfolding db_wf_def by (metis key_bytes.simps(6))
    then have "BytesToHash (get_data (ddb dag) (txHashFlowKey a n)) \<noteq> None"
      by (simp add: slot_ok_def BytesToHash_def Hash_MustSetBytes_def HashLength_def)
    then show ?thesis
      using tx by (auto simp: Dag_getTxByNonce_def ReadTxByNonce_def Let_def split: option.splits)
  qed
  ultimately show ?thesis by (simp add: dag_readable_def Dag_getTx_def split: option.splits)
qed

section \<open>The sequencer enters the pool\<close>

lemma enter_seq_flow:
  assumes "flows_ok p" "0 \<le> Dag_getBalance (pdag p) (Issuer seq)"
    and q: "flows q = AccountFlows_Add (flows (open_flow p (Issuer seq))) (TxiSeq seq)" "pdag q = pdag p" "envs q = envs p"
  shows "flows_ok q"
proof -
  let ?p = "open_flow p (Issuer seq)"
  have fb: "flows_balanced p" using assms(1) by (simp add: flows_ok_def)
  obtain f where f: "afs (flows ?p) (Issuer seq) = Some f" "balance f = balance_state p (Issuer seq)"
    using open_flow_some(2) [OF fb assms(2)] by blast
  have acc: "accepted q t = accepted p t" for t by (simp add: accepted_def q(3))
  have fok: "AccountFlow_ok f" using open_flow_some(1) [OF fb assms(2)] f(1) by (simp add: flows_balanced_def)
  have cases: "flows_balanced q \<and> (\<forall>a n. flow_tx q a n = flow_tx p a n
      \<or> flow_tx p a n = None \<and> flow_tx q a n = Some (TxiSeq seq) \<and> a = Issuer seq)"
  proof (cases "flow_tx p (Issuer seq) (AccountNonce seq)")
    case None
    have "spent (balance_state p (Issuer seq)) \<le> originBalance (balance_state p (Issuer seq))"
      using fok f(2) by (simp add: AccountFlow_ok_def)
    then show ?thesis
      using enter_flow [OF fb, of "TxiSeq seq" q] assms(2) None q(1,2) by auto
  next
    case (Some t)
    then have "txflow (txlist f) (AccountNonce seq) \<noteq> None"
      using open_flow_some(3) [OF fb assms(2), of "Issuer seq" "AccountNonce seq"] f(1)
      by (auto simp: AccountFlows_GetTxByNonce_def AccountFlow_GetTx_def TxList_get_def)
    then have "flows q = flows ?p" using f(1) by (simp add: q(1) AccountFlows_Add_def AccountFlow_Add_cases)
    then show ?thesis
      using open_flow_some(1,3) [OF fb assms(2)] q(2) by (simp add: flows_balanced_def)
  qed
  have "Sender t = a \<and> ((\<exists>x. t = TxiTx x) \<longrightarrow> accepted q t)" if "flow_tx q a n = Some t" for a n t
    using cases that assms(1) acc unfolding flows_ok_def by (metis Sender.simps(2) Txi.distinct(1) option.inject)
  moreover have "flow_tx q (From x) (AccountNonce x) = Some (TxiTx x)" if "accepted q (TxiTx x)" for x
    using cases that assms(1) acc unfolding flows_ok_def by (metis option.distinct(1))
  ultimately show ?thesis using cases by (simp add: flows_ok_def)
qed

lemma seq_becomes_tip:
  assumes "pool_ok p" "no_seq_tips p" "envs p (HashOf seq) = None" "TypeOf seq = TxBaseTypeSequencer"
    "0 \<le> Dag_getBalance (pdag p) (Issuer seq)"
  shows "pool_ok ((open_flow p (Issuer seq))\<lparr>flows := AccountFlows_Add (flows (open_flow p (Issuer seq))) (TxiSeq seq),
     tips := TxMap_Add (tips p) (TxiSeq seq), txLookup := switchstatus (txLookup p) (HashOf seq) TxStatusTip, notices := ns\<rparr>)"
    (is "pool_ok ?q")
proof -
  have sw: "switchstatus (txLookup p) (HashOf seq) TxStatusTip = txLookup p" using assms(3) by (simp add: switchstatus_def)
  have env: "envs ?q = (envs p)(HashOf seq := None)" using assms(3) by (auto simp: sw)
  have ok: "lookup_ok (txLookup p)" "gomap_ok (tmTxs (tips p))" "gomap_ok (tmTxs (badtxs p))"
    "gomap_ok (tmTxs (pendings p))" "flows_ok p" using assms(1) by (simp_all add: pool_inv_parts)
  have fl: "flows_ok ?q" by (rule enter_seq_flow [OF ok(5) assms(5)]) (simp_all add: sw)
  have at: "loose_tip (HashOf seq) (TxMap_Get (tips p) (HashOf seq))" "TxMap_Get (badtxs p) (HashOf seq) = None"
    "TxMap_Get (pendings p) (HashOf seq) = None"
    using pool_inv_at [OF assms(1), of "HashOf seq"] assms(3) by (simp_all add: at_point_def point_ok_def)
  have "TxMap_Get (tips p) (HashOf seq) = None" using at(1) assms(2) by (auto simp: loose_tip_def no_seq_tips_def)
  then show ?thesis
    by (intro pool_inv_point [OF assms(1) _ _ _ _ env, where R = "{}"])
      (use ok fl at assms(4) in \<open>simp_all add: sw TxMap_Get_Add point_ok_def loose_tip_def\<close>)
qed

section \<open>Confirming\<close>

definition orders_ok :: "pool_orders \<Rightarrow> Dag \<Rightarrow> bool" where
  "orders_ok ords dag \<longleftrightarrow> services_ok (ordPush ords) dag \<and> range_order (ordElders ords) \<and> range_order (ordDetails ords)"

definition node_ok :: "TxPool \<Rightarrow> bool" where
  "node_ok p \<longleftrightarrow> pool_ok p \<and> dag_inv (pdag p) \<and> db_wf (ddb (pdag p))"

text \<open>A pool in which a sequencer is being handled; its other entries can be stored at that height.\<close>

definition confirming :: "pool_orders \<Rightarrow> TxPool \<Rightarrow> Sequencer \<Rightarrow> bool" where
  "confirming ords p seq \<longleftrightarrow> pool_inv {HashOf seq} p \<and> dag_inv (pdag p) \<and> db_wf (ddb (pdag p))
     \<and> map_option envTx (envs p (HashOf seq)) = Some (TxiSeq seq)
     \<and> orders_ok ords (pdag p) \<and> tx_codec_at (dcodec (pdag p)) (TxiSeq seq)
     \<and> (\<forall>t \<in> set (pool_txs p). is_tx t \<longrightarrow> storable (pdag p) (Height seq) t)"

lemma confirming_elders:
  assumes "confirming ords p seq" "seekElders p (TxiSeq seq) = Inr elders"
  shows "\<forall>(h, t) \<in> set elders. tx_wf t \<and> (is_tx t \<longrightarrow> storable (pdag p) (Height seq) t)"
proof (clarify)
  fix h t assume "(h, t) \<in> set elders"
  have lk: "lookup_ok (txLookup p)" using assms(1) by (simp add: confirming_def pool_inv_parts)
  then have "map_of elders h = Some t"
    using seekElders_ok(1) [OF _ assms(2)] gomap_mem \<open>(h, t) \<in> set elders\<close> by fast
  then have g: "pool_get p h = Some t" using seekElders_ok(2) [OF lk assms(2), of h] by (auto split: if_splits)
  then obtain e where "envs p h = Some e" "envTx e = t" by (auto simp: pool_get_eq)
  moreover have "at_point {HashOf seq} p h" using assms(1) pool_inv_at by (auto simp: confirming_def)
  ultimately have "tx_wf t" by (auto simp: at_point_def point_ok_def)
  then show "tx_wf t \<and> (is_tx t \<longrightarrow> storable (pdag p) (Height seq) t)"
    using pool_get_mem [OF g] assms(1) by (simp add: confirming_def)
qed

lemma seq_wf: "confirming ords p seq \<Longrightarrow> TypeOf seq = TxBaseTypeSequencer"
  using pool_inv_at [of "{HashOf seq}" p "HashOf seq"]
  by (auto simp: confirming_def at_point_def point_ok_def)

lemma dag_balance_nonneg: "dag_inv dag \<Longrightarrow> 0 \<le> Dag_getBalance dag a"
  using acct_ok_bal by (simp add: Dag_getBalance_eq dag_inv_def sd_inv_def)

text \<open>The checks of a confirmation fail with errors, not with panics.\<close>

lemma collect_batch_error: "collect_batch seq es batch = Inl err \<Longrightarrow> \<not> is_panic (Some err)"
  by (induction seq es batch rule: collect_batch.induct) (auto simp: is_panic_def split: if_splits Txi.splits)

lemma verifyNonce_error: "verifyNonce p a ns seq = Inl err \<Longrightarrow> \<not> is_panic (Some err)"
  by (auto simp: verifyNonce_def is_panic_def Let_def split: sum.splits option.splits if_splits)

lemma verify_details_error:
  "verify_details p seq ds batch = Inl err \<Longrightarrow> \<forall>(a, d) \<in> set ds. bdTxList d \<noteq> None \<Longrightarrow> \<not> is_panic (Some err)"
proof (induction p seq ds batch rule: verify_details.induct)
  case (2 p seq a d rest batch)
  obtain l where l: "bdTxList d = Some l" using 2(4) by auto
  show ?case
  proof (cases "Dag_getBalance (pdag p) a < bdNeg d")
    case True
    then show ?thesis using 2(3) by (auto simp: is_panic_def)
  next
    case False
    show ?thesis
    proof (cases "keys l = []")
      case True
      then show ?thesis using 2(1) [OF False l] 2(3,4) False l by simp
    next
      case ne: False
      show ?thesis
      proof (cases "verifyNonce p a (keys l) seq")
        case (Inl e)
        then show ?thesis using 2(3) False l ne verifyNonce_error by auto
      next
        case (Inr ks)
        then show ?thesis using 2(2) [OF False l _ Inr] 2(3,4) False l ne by simp
      qed
    qed
  qed
qed simp

lemma verifyConfirmBatch_error:
  assumes "verifyConfirmBatch ords p seq elders = Inl err" "range_order (ordElders ords)" "range_order (ordDetails ords)"
    "\<forall>(h, t) \<in> set elders. tx_wf t"
  shows "\<not> is_panic (Some err)"
proof (cases "collect_batch seq (ordElders ords elders) []")
  case (Inl e)
  then show ?thesis using assms(1) collect_batch_error [OF Inl] by (simp add: verifyConfirmBatch_def)
next
  case (Inr batch)
  have "\<forall>(h, t) \<in> set (ordElders ords elders). tx_wf t" using assms(4) range_order_set [OF assms(2)] by metis
  then have acc: "accounted (elder_txs (ordElders ords elders)) batch"
    using collect_batch_accounted [OF Inr accounted_start] by simp
  have some: "bdTxList d \<noteq> None" if "(a, d) \<in> set (ordDetails ords batch)" for a d
  proof -
    have "(a, d) \<in> set batch" using that range_order_set [OF assms(3)] by metis
    then have "map_of batch a = Some d" using acc gomap_mem unfolding accounted_def by fast
    moreover have "bdTxList (detail_of batch a) \<noteq> None" using acc by (auto simp: accounted_def sum_ok_def)
    ultimately show ?thesis by (simp add: detail_of_def)
  qed
  then show ?thesis
    using assms(1) Inr verify_details_error [of p seq "ordDetails ords batch" batch err]
    by (auto simp: verifyConfirmBatch_def split: sum.splits)
qed

lemma seekElders_error: "dag_readable (pdag p) \<Longrightarrow> seekElders p t = Inl err \<Longrightarrow> \<not> is_panic (Some err)"
proof -
  have "seek_loop p sp ins b = Inl err \<Longrightarrow> dag_readable (pdag p) \<Longrightarrow> \<not> is_panic (Some err)" for sp ins b
  proof (induction p sp ins b rule: seek_loop.induct)
    case (2 p h sp ins b)
    then show ?case
      using readable(1) [OF 2(4), of h] by (auto simp: is_panic_def split: option.splits prod.splits)
  qed simp
  then show "dag_readable (pdag p) \<Longrightarrow> seekElders p t = Inl err \<Longrightarrow> \<not> is_panic (Some err)"
    by (simp add: seekElders_def)
qed

lemma isBadSeq_error: "dag_readable (pdag p) \<Longrightarrow> isBadSeq p seq = Some err \<Longrightarrow> \<not> is_panic (Some err)"
  using readable(2) [of "pdag p" "Issuer seq" "AccountNonce seq"]
  by (auto simp: isBadSeq_def is_panic_def split: option.splits)

text \<open>A push of a verified batch either refuses the height and changes nothing, or succeeds.\<close>

lemma verified_push_cases:
  assumes "confirming ords p seq" "seekElders p (TxiSeq seq) = Inr elders" "verifyConfirmBatch ords p seq elders = Inr cb"
    "Dag_push (ordPush ords) (pdag p) cb = (r, dag')"
  shows "(\<exists>m n. r = Some (ErrHeightMismatch m n)) \<and> dag' = pdag p
    \<or> r = None \<and> batch_ok (pdag p) cb \<and> covered (pdag p) cb"
proof -
  have e: "\<forall>(h, t) \<in> set elders. tx_wf t \<and> (is_tx t \<longrightarrow> storable (pdag p) (Height seq) t)"
    using confirming_elders [OF assms(1,2)] .
  have ro: "range_order (ordElders ords)" "range_order (ordDetails ords)" "services_ok (ordPush ords) (pdag p)"
    using assms(1) by (simp_all add: confirming_def orders_ok_def)
  have d: "dag_inv (pdag p)" using assms(1) by (simp add: confirming_def)
  then obtain latest where l: "latestSequencer (pdag p) = Some latest" by (auto simp: dag_inv_def)
  have s: "TypeOf seq = TxBaseTypeSequencer" "tx_codec_at (dcodec (pdag p)) (TxiSeq seq)"
    using seq_wf [OF assms(1)] assms(1) by (simp_all add: confirming_def)
  have cb: "cbSeq cb = seq" using assms(3) by (auto simp: verifyConfirmBatch_def split: sum.splits)
  show ?thesis
  proof (cases "Height seq = Height latest + 1")
    case True
    note vp = verified_push [OF assms(3) ro(1,2) e d l True s]
    have "r = None" using Dag_push_run [OF d ro(3) vp(1)] assms(4) by auto
    then show ?thesis using vp by simp
  next
    case False
    then show ?thesis using assms(4) l cb by (auto simp: Dag_push_def Let_def)
  qed
qed

lemma confirming_solve:
  assumes "confirming ords p seq" "db_wf (ddb dag')"
  shows "\<exists>q. solveConflicts ords (p\<lparr>pdag := dag'\<rparr>) elders = Some q \<and> pool_ok q \<and> no_seq_tips q
    \<and> pool_frame (p\<lparr>pdag := dag'\<rparr>) q \<and> envs q (HashOf seq) = None
    \<and> (\<forall>h e. envs q h = Some e \<longrightarrow> h \<notin> fst ` set elders \<and> map_option envTx (envs p h) = Some (envTx e) \<and> is_tx (envTx e))"
proof -
  let ?p = "p\<lparr>pdag := dag'\<rparr>"
  have lk: "lookup_ok (txLookup ?p)" using assms(1) by (simp add: confirming_def pool_inv_parts)
  have wf: "\<forall>h e. envs ?p h = Some e \<longrightarrow> tx_wf (envTx e)"
    using assms(1) by (auto simp: confirming_def pool_inv_parts at_point_def point_ok_def split: option.splits)
  have ro: "range_order (ordElders ords)" using assms(1) by (simp add: confirming_def orders_ok_def)
  obtain q where q: "solveConflicts ords ?p elders = Some q" "pool_ok q" "no_seq_tips q" "pool_frame ?p q"
    and k: "\<forall>h e. envs q h = Some e \<longrightarrow> h \<notin> fst ` set elders \<and> (\<exists>e0. envs ?p h = Some e0 \<and> envTx e0 = envTx e)
         \<and> (\<exists>t. envTx e = TxiTx t)"
    using solveConflicts_inv [OF lk wf _ ro, of elders] db_wf_readable [OF assms(2)] by auto
  have keep: "h \<notin> fst ` set elders \<and> map_option envTx (envs p h) = Some (envTx e) \<and> is_tx (envTx e)"
    if "envs q h = Some e" for h e
    using k that by fastforce
  have "envs q (HashOf seq) = None"
  proof (rule ccontr)
    assume "envs q (HashOf seq) \<noteq> None"
    then obtain e where "envs q (HashOf seq) = Some e" by blast
    then have "map_option envTx (envs p (HashOf seq)) = Some (envTx e)" "is_tx (envTx e)" using keep by blast+
    then show False using assms(1) by (auto simp: confirming_def)
  qed
  then show ?thesis using q keep by blast
qed

lemma pool_confirm_cases:
  assumes "confirming ords p seq"
  shows "(\<exists>err. pool_confirm ords p seq = (Some err, p) \<and> \<not> is_panic (Some err))
    \<or> (\<exists>elders cb dag' p1. seekElders p (TxiSeq seq) = Inr elders \<and> verifyConfirmBatch ords p seq elders = Inr cb
         \<and> Dag_push (ordPush ords) (pdag p) cb = (None, dag') \<and> batch_ok (pdag p) cb \<and> covered (pdag p) cb
         \<and> solveConflicts ords (p\<lparr>pdag := dag'\<rparr>) elders = Some p1
         \<and> pool_confirm ords p seq = (None, (open_flow p1 (Issuer seq))
              \<lparr>flows := AccountFlows_Add (flows (open_flow p1 (Issuer seq))) (TxiSeq seq),
               tips := TxMap_Add (tips p1) (TxiSeq seq), txLookup := switchstatus (txLookup p1) (HashOf seq) TxStatusTip,
               notices := notices p1 @ confirm_notices p1 elders\<rparr>))"
proof -
  have rd: "dag_readable (pdag p)" using assms db_wf_readable by (simp add: confirming_def)
  have ro: "range_order (ordElders ords)" "range_order (ordDetails ords)" using assms by (simp_all add: confirming_def orders_ok_def)
  show ?thesis
  proof (cases "isBadSeq p seq")
    case (Some err)
    then show ?thesis using isBadSeq_error [OF rd Some] by (simp add: pool_confirm_def)
  next
    case n: None
    show ?thesis
    proof (cases "seekElders p (TxiSeq seq)")
      case (Inl err)
      then show ?thesis using n seekElders_error [OF rd Inl] by (simp add: pool_confirm_def)
    next
      case s: (Inr elders)
      have wf: "\<forall>(h, t) \<in> set elders. tx_wf t" using confirming_elders [OF assms s] by auto
      show ?thesis
      proof (cases "verifyConfirmBatch ords p seq elders")
        case (Inl err)
        then show ?thesis using n s verifyConfirmBatch_error [OF Inl ro wf] by (simp add: pool_confirm_def)
      next
        case v: (Inr cb)
        obtain r dag' where d: "Dag_push (ordPush ords) (pdag p) cb = (r, dag')" by fastforce
        have "db_wf (ddb dag')" using wf_push [of "pdag p" "ordPush ords" cb] assms d by (simp add: confirming_def)
        then obtain p1 where p1: "solveConflicts ords (p\<lparr>pdag := dag'\<rparr>) elders = Some p1"
          using confirming_solve [OF assms] by blast
        from verified_push_cases [OF assms s v d] show ?thesis
        proof (elim disjE conjE exE)
          fix m k assume "r = Some (ErrHeightMismatch m k)" "dag' = pdag p"
          then show ?thesis using n s v d by (simp add: pool_confirm_def is_panic_def)
        next
          assume "r = None" "batch_ok (pdag p) cb" "covered (pdag p) cb"
          then show ?thesis using n s v d p1 by (simp add: pool_confirm_def Let_def confirm_notices_def)
        qed
      qed
    qed
  qed
qed

lemma pool_confirm_success:
  assumes "confirming ords p seq" "pool_confirm ords p seq = (None, q)"
  shows "\<exists>elders cb. seekElders p (TxiSeq seq) = Inr elders \<and> verifyConfirmBatch ords p seq elders = Inr cb
    \<and> Dag_push (ordPush ords) (pdag p) cb = (None, pdag q) \<and> batch_ok (pdag p) cb \<and> covered (pdag p) cb
    \<and> node_ok q \<and> TxMap_Get (tips q) (HashOf seq) = Some (TxiSeq seq) \<and> envs q (HashOf seq) = None
    \<and> (\<forall>h e. envs q h = Some e \<longrightarrow> h \<notin> fst ` set elders \<and> map_option envTx (envs p h) = Some (envTx e) \<and> is_tx (envTx e))
    \<and> notices q = notices p @ confirm_notices p elders"
proof -
  obtain elders cb dag' p1 where s: "seekElders p (TxiSeq seq) = Inr elders" and v: "verifyConfirmBatch ords p seq elders = Inr cb"
    and d: "Dag_push (ordPush ords) (pdag p) cb = (None, dag')" and b: "batch_ok (pdag p) cb" "covered (pdag p) cb"
    and p1: "solveConflicts ords (p\<lparr>pdag := dag'\<rparr>) elders = Some p1"
    and q: "q = (open_flow p1 (Issuer seq))\<lparr>flows := AccountFlows_Add (flows (open_flow p1 (Issuer seq))) (TxiSeq seq),
               tips := TxMap_Add (tips p1) (TxiSeq seq), txLookup := switchstatus (txLookup p1) (HashOf seq) TxStatusTip,
               notices := notices p1 @ confirm_notices p1 elders\<rparr>"
    using pool_confirm_cases [OF assms(1), unfolded assms(2) prod.inject] by blast
  have wf: "db_wf (ddb dag')" using wf_push [of "pdag p" "ordPush ords" cb] assms(1) d by (simp add: confirming_def)
  have inv: "dag_inv (pdag p)" "services_ok (ordPush ords) (pdag p)" using assms(1) by (simp_all add: confirming_def orders_ok_def)
  have dinv: "dag_inv dag'" using Dag_push_run [OF inv b(1)] d by auto
  have k: "pool_ok p1" "no_seq_tips p1" "pool_frame (p\<lparr>pdag := dag'\<rparr>) p1" "envs p1 (HashOf seq) = None"
    "\<forall>h e. envs p1 h = Some e \<longrightarrow> h \<notin> fst ` set elders \<and> map_option envTx (envs p h) = Some (envTx e) \<and> is_tx (envTx e)"
    using confirming_solve [OF assms(1) wf, of elders] p1 by simp_all
  have dag1: "pdag p1 = dag'" using k(3) by (simp add: pool_frame_def)
  have nn: "0 \<le> Dag_getBalance (pdag p1) (Issuer seq)" using dinv dag1 dag_balance_nonneg by simp
  have "pool_ok q" unfolding q by (rule seq_becomes_tip [OF k(1,2,4) seq_wf [OF assms(1)] nn])
  then have "node_ok q" using dinv wf dag1 by (simp add: node_ok_def q)
  moreover have sw: "txLookup q = txLookup p1" using k(4) by (simp add: q switchstatus_def)
  moreover have "TxMap_Get (tips p1) (HashOf seq) = None"
    using pool_inv_at [OF k(1), of "HashOf seq"] k(2,4) by (auto simp: at_point_def point_ok_def loose_tip_def no_seq_tips_def)
  then have "TxMap_Get (tips q) (HashOf seq) = Some (TxiSeq seq)" by (simp add: q TxMap_Get_Add)
  moreover have "notices q = notices p @ confirm_notices p elders" using k(3) by (simp add: q pool_frame_def confirm_notices_def)
  ultimately show ?thesis using s v d b k(4,5) dag1 by (intro exI conjI) (simp_all add: q)
qed

section \<open>The event loop keeps the node sound\<close>

text \<open>A transaction without contract data that the codec can store, whatever height it is given.\<close>

definition storable_any :: "codec \<Rightarrow> Txi \<Rightarrow> bool" where
  "storable_any C t \<longleftrightarrow> plain t \<and> (\<forall>h. tx_codec_at C (set_Height t h))"

definition pool_storable :: "TxPool \<Rightarrow> bool" where
  "pool_storable p \<longleftrightarrow> (\<forall>h e. envs p h = Some e \<longrightarrow> is_tx (envTx e) \<longrightarrow> storable_any (dcodec (pdag p)) (envTx e))"

definition node_inv :: "pool_orders \<Rightarrow> TxPool \<Rightarrow> bool" where
  "node_inv ords p \<longleftrightarrow> node_ok p \<and> orders_ok ords (pdag p) \<and> pool_storable p"

text \<open>The events the loop is given: freshly queued, well typed, storable; and no transaction carries the hash
  of a sequencer that is a tip.\<close>

definition good_event :: "TxPool \<Rightarrow> txEnvelope \<Rightarrow> bool" where
  "good_event p e \<longleftrightarrow> envStatus e = TxStatusQueue \<and> tx_wf (envTx e)
     \<and> (case envTx e of
          TxiTx t \<Rightarrow> storable_any (dcodec (pdag p)) (TxiTx t) \<and> (pool_get p (HashOf t) = None \<longrightarrow> TxMap_Get (tips p) (HashOf t) = None)
        | TxiSeq s \<Rightarrow> tx_codec_at (dcodec (pdag p)) (TxiSeq s))"

lemma set_Height_twice [simp]: "set_Height (set_Height t a) b = set_Height t b"
  by (cases t) simp_all

lemma storable_any_height [simp]: "storable_any C (with_height hash v t) = storable_any C t"
  by (cases t) (simp_all add: storable_any_def with_height_def plain_def)

lemma is_tx_height [simp]: "is_tx (with_height hash v t) = is_tx t"
  by (cases t) (simp_all add: with_height_def)

lemma pool_storable_from:
  assumes "pool_storable p" "dcodec (pdag q) = dcodec (pdag p)"
    "\<And>h e. envs q h = Some e \<Longrightarrow> is_tx (envTx e) \<Longrightarrow> \<exists>e0. envs p h = Some e0 \<and> envTx e0 = envTx e"
  shows "pool_storable q"
  unfolding pool_storable_def
proof (intro allI impI)
  fix h e assume e: "envs q h = Some e" "is_tx (envTx e)"
  then obtain e0 where "envs p h = Some e0" "envTx e0 = envTx e" using assms(3) by blast
  then show "storable_any (dcodec (pdag q)) (envTx e)"
    using assms(1,2) e(2) unfolding pool_storable_def by metis
qed

lemma pool_inv_extra:
  "pool_inv Q (p\<lparr>txNum := n\<rparr>) = pool_inv Q p" "pool_inv Q (raise_maxWeight p w) = pool_inv Q p"
  "pool_inv Q (p\<lparr>queue := es\<rparr>) = pool_inv Q p" "pool_inv Q (p\<lparr>notices := ns\<rparr>) = pool_inv Q p"
  by (rule pool_inv_cong; simp add: raise_maxWeight_def)+

lemma raise_maxWeight_frame [simp]:
  "pdag (raise_maxWeight p w) = pdag p" "txLookup (raise_maxWeight p w) = txLookup p" "tips (raise_maxWeight p w) = tips p"
  "flows (raise_maxWeight p w) = flows p" "badtxs (raise_maxWeight p w) = badtxs p" "pendings (raise_maxWeight p w) = pendings p"
  "queue (raise_maxWeight p w) = queue p" "notices (raise_maxWeight p w) = notices p"
  by (simp_all add: raise_maxWeight_def)

text \<open>A transaction event.\<close>

lemma loop_event_tx:
  assumes "node_inv ords p" "good_event p e" "envTx e = TxiTx t" "pool_get p (HashOf t) = None"
  shows "node_inv ords (snd (loop_event ords p e)) \<and> \<not> is_panic (fst (loop_event ords p e))
    \<and> pdag (snd (loop_event ords p e)) = pdag p"
proof -
  have ok: "pool_ok p" "dag_inv (pdag p)" "db_wf (ddb (pdag p))" "pool_storable p"
    using assms(1) by (simp_all add: node_inv_def node_ok_def)
  have e: "e = \<lparr>envTx = TxiTx t, envTxType = envTxType e, envStatus = TxStatusQueue\<rparr>"
    using assms(2,3) by (simp add: good_event_def)
  have none: "envs p (HashOf t) = None" using assms(4) by (simp add: pool_get_eq)
  let ?p1 = "p\<lparr>txLookup := lookup_add (txLookup p) e\<rparr>"
  have tip: "TxMap_Get (tips p) (HashOf t) = None" "tx_wf (TxiTx t)" "storable_any (dcodec (pdag p)) (TxiTx t)"
    using assms by (auto simp: good_event_def)
  have j: "judging ?p1 t" using judging_add [OF ok(1) none tip(1,2), of "envTxType e"] e by simp
  have rd: "dag_readable (pdag ?p1)" using db_wf_readable [OF ok(3)] by simp
  let ?p2 = "snd (pool_commit ?p1 t)"
  have ok2: "pool_ok ?p2" using pool_commit_inv [OF j isBadTx_total [OF rd]] .
  have np: "\<not> is_panic (fst (pool_commit ?p1 t))" using pool_commit_no_panic [OF rd] .
  have d2: "pdag ?p2 = pdag p" by simp
  have st1: "pool_storable ?p1" using ok(4) tip(3) none assms(3) by (auto simp: pool_storable_def env_of_add)
  have st2: "pool_storable ?p2"
    using pool_storable_from [OF st1, of ?p2] pool_commit_effect [of ?p1 t] by (auto simp: envs_from_def)
  obtain latest where l: "latestSequencer (pdag p) = Some latest" using ok(2) by (auto simp: dag_inv_def)
  show ?thesis
  proof (cases "fst (pool_commit ?p1 t)")
    case (Some err)
    then have "loop_event ords p e = (Some err, ?p2)"
      using assms(3,4) by (cases "pool_commit ?p1 t") (simp add: loop_event_def Let_def)
    then show ?thesis using ok2 st2 np Some assms(1) d2 by (simp add: node_inv_def node_ok_def)
  next
    case None
    let ?p3 = "raise_maxWeight (?p2\<lparr>txNum := txNum ?p2 + 1\<rparr>) (Weight t)"
    let ?q = "assign_height ?p3 (HashOf t) (Height latest + 1)"
    have q: "loop_event ords p e = (None, ?q)"
      using assms(3,4) None l d2 by (cases "pool_commit ?p1 t") (simp add: loop_event_def Let_def)
    have okq: "pool_ok ?q" using ok2 by (intro assign_height_inv) (simp add: pool_inv_extra)
    have stq: "pool_storable ?q"
      using st2 d2 by (auto simp: pool_storable_def assign_height_envs)
    show ?thesis using q okq stq assms(1) d2 by (simp add: node_inv_def node_ok_def is_panic_def)
  qed
qed

lemma confirming_start:
  assumes "node_inv ords p" "good_event p e" "envTx e = TxiSeq s" "pool_get p (HashOf s) = None"
  shows "confirming ords (p\<lparr>txLookup := lookup_add (txLookup p) e\<rparr>) s" (is "confirming ords ?p s")
proof -
  have ok: "pool_ok p" "dag_inv (pdag p)" "db_wf (ddb (pdag p))" "pool_storable p" "orders_ok ords (pdag p)"
    using assms(1) by (simp_all add: node_inv_def node_ok_def)
  have g: "envStatus e = TxStatusQueue" "tx_wf (TxiSeq s)" "tx_codec_at (dcodec (pdag p)) (TxiSeq s)"
    using assms(2,3) by (simp_all add: good_event_def)
  have none: "envs p (HashOf s) = None" using assms(4) by (simp add: pool_get_eq)
  have env: "envs ?p = (envs p)(HashOf s \<mapsto> e)" using none assms(3) by (simp add: env_of_add)
  have okp: "lookup_ok (txLookup p)" "gomap_ok (tmTxs (tips p))" "gomap_ok (tmTxs (badtxs p))"
    "gomap_ok (tmTxs (pendings p))" "flows_ok p" using ok(1) by (simp_all add: pool_inv_parts)
  have at: "loose_tip (HashOf s) (TxMap_Get (tips p) (HashOf s))" "TxMap_Get (badtxs p) (HashOf s) = None"
    "TxMap_Get (pendings p) (HashOf s) = None"
    using pool_inv_at [OF ok(1), of "HashOf s"] none by (simp_all add: at_point_def point_ok_def)
  have fl: "flows_ok ?p"
    by (rule flows_ok_cong [OF okp(5) _ _ env]) (use none assms(3) in \<open>auto simp: accepted_env_def\<close>)
  have inv: "pool_inv {HashOf s} ?p"
    by (rule pool_inv_point [OF ok(1) _ _ _ _ env])
      (use okp at fl g assms(3) in \<open>simp_all add: lookup_ok_add point_ok_def\<close>)
  have "storable (pdag p) (Height s) t" if t: "t \<in> set (pool_txs ?p)" "is_tx t" for t
  proof -
    have "gomap_ok (lkTxs (txLookup ?p))" using inv by (simp add: pool_inv_parts lookup_ok_def)
    then obtain h x where "envs ?p h = Some x" "envTx x = t"
      using t(1) gomap_mem by (fastforce simp: pool_txs_def)
    then have "storable_any (dcodec (pdag p)) t"
      using ok(4) t(2) assms(3) unfolding env by (auto simp: pool_storable_def split: if_splits)
    then show ?thesis by (simp add: storable_any_def storable_def)
  qed
  then show ?thesis using inv ok g env assms(3) by (simp add: confirming_def)
qed

text \<open>A sequencer event: refused without a trace, or confirmed.\<close>

lemma loop_event_seq:
  assumes "node_inv ords p" "good_event p e" "envTx e = TxiSeq s" "pool_get p (HashOf s) = None"
  shows "node_inv ords (snd (loop_event ords p e)) \<and> \<not> is_panic (fst (loop_event ords p e))"
proof -
  let ?p1 = "p\<lparr>txLookup := lookup_add (txLookup p) e\<rparr>"
  have c: "confirming ords ?p1 s" using confirming_start [OF assms] .
  have none: "envs p (HashOf s) = None" using assms(4) by (simp add: pool_get_eq)
  have lk: "lookup_ok (txLookup p)" using assms(1) by (simp add: node_inv_def node_ok_def pool_inv_parts)
  have ps: "pool_storable p" using assms(1) by (simp add: node_inv_def)
  show ?thesis
  proof (cases "pool_confirm ords ?p1 s")
    case (Pair r q)
    show ?thesis
    proof (cases r)
      case (Some err)
      have qp: "q = ?p1" "\<not> is_panic (Some err)" using pool_confirm_cases [OF c, unfolded Pair prod.inject Some] by auto
      let ?q = "?p1\<lparr>txLookup := lookup_remove (txLookup ?p1) (HashOf s) removeFromEnd\<rparr>"
      have l: "loop_event ords p e = (Some err, ?q)"
        using assms(3,4) Pair Some qp by (simp add: loop_event_def Let_def)
      have env: "envs ?q = envs p" using none assms(3) by (auto simp: env_of_add fun_eq_iff)
      have "lookup_ok (txLookup ?q)" using lk by (simp add: lookup_ok_remove lookup_ok_add)
      then have "pool_ok ?q"
        using assms(1) unfolding node_inv_def node_ok_def pool_inv_parts at_point_def flows_ok_def flows_balanced_def accepted_def env
        by simp
      moreover have "pool_storable ?q" using ps env by (simp add: pool_storable_def)
      ultimately show ?thesis using l qp(2) assms(1) by (simp add: node_inv_def node_ok_def)
    next
      case None
      have l: "loop_event ords p e = (None, raise_maxWeight (q\<lparr>txNum := 0\<rparr>) (Weight s))"
        using assms(3,4) Pair None by (simp add: loop_event_def Let_def)
      obtain elders cb where d: "Dag_push (ordPush ords) (pdag ?p1) cb = (None, pdag q)" "batch_ok (pdag ?p1) cb" "node_ok q"
        and k: "\<forall>h x. envs q h = Some x \<longrightarrow> map_option envTx (envs ?p1 h) = Some (envTx x) \<and> is_tx (envTx x)"
        using pool_confirm_success [OF c Pair [unfolded None]] by blast
      have so: "dag_inv (pdag ?p1)" "services_ok (ordPush ords) (pdag ?p1)" "orders_ok ords (pdag p)"
        using c assms(1) by (simp_all add: confirming_def orders_ok_def node_inv_def)
      have same: "dcodec (pdag q) = dcodec (pdag p)" "denv (pdag q) = denv (pdag p)"
        using Dag_push_run [OF so(1,2) d(2)] d(1) by auto
      have "pool_storable q"
      proof (rule pool_storable_from [OF ps same(1)])
        fix h x assume x: "envs q h = Some x"
        then have m: "map_option envTx (envs ?p1 h) = Some (envTx x)" "is_tx (envTx x)" using k by blast+
        then have "h \<noteq> HashOf s" using none assms(3) by (auto simp: env_of_add)
        then show "\<exists>e0. envs p h = Some e0 \<and> envTx e0 = envTx x" using m(1) none assms(3) by (simp add: env_of_add)
      qed
      moreover have "orders_ok ords (pdag q)" using so(3) same by (simp add: orders_ok_def services_ok_def)
      moreover have "node_ok (raise_maxWeight (q\<lparr>txNum := 0\<rparr>) (Weight s))"
        using d(3) by (simp add: node_ok_def pool_inv_extra)
      ultimately show ?thesis using l by (simp add: node_inv_def pool_storable_def is_panic_def)
    qed
  qed
qed

lemma loop_event_inv:
  assumes "node_inv ords p" "good_event p e"
  shows "node_inv ords (snd (loop_event ords p e)) \<and> \<not> is_panic (fst (loop_event ords p e))"
proof (cases "pool_get p (GetTxHash (envTx e))")
  case None
  then show ?thesis using loop_event_tx [OF assms] loop_event_seq [OF assms] by (cases "envTx e") auto
next
  case (Some t)
  then show ?thesis using assms(1) by (simp add: loop_event_def is_panic_def)
qed

end
