(* ===== verification/PoolSteps.thy ===== *)
theory PoolSteps
  imports PoolConfirm
begin

text \<open>
  Interleavings of the operations of the pool of \<^verbatim>\<open>src/core/tx_pool.go\<close> as steps: clients submit events
  to the bounded queue, the loop serves the oldest one, subscribers register and are notified, and
  readers ask for nonces. The properties below hold in every reachable state.
\<close>

section \<open>Steps\<close>

inductive pool_step :: "pool_orders \<Rightarrow> TxPool \<Rightarrow> TxPool \<Rightarrow> bool" for ords where
  submit: "int (length (queue p)) < QueueSize (pconf p) \<Longrightarrow>
     pool_step ords p (p\<lparr>queue := queue p @ [new_event tx ty]\<rparr>)"
| serve: "queue p = e # es \<Longrightarrow> good_event p e \<Longrightarrow> pool_step ords p (snd (loop_event ords (p\<lparr>queue := es\<rparr>) e))"
| notify: "pool_step ords p (notify_new_tx ord p tx)"
| subscribe: "pool_step ords p (RegisterOnNewTxReceived p name)"
| latest_nonce: "pool_GetLatestNonce p a = Inr (n, q) \<Longrightarrow> pool_step ords p q"
| clear: "pool_step ords p (clearAll p)"

inductive_cases pool_stepE: "pool_step ords p q"

lemma node_inv_cong:
  assumes "txLookup q = txLookup p" "tips q = tips p" "badtxs q = badtxs p" "pendings q = pendings p"
    "flows q = flows p" "pdag q = pdag p"
  shows "node_inv ords q = node_inv ords p"
  using assms pool_inv_cong [of q p "{}"] by (simp add: node_inv_def node_ok_def pool_storable_def)

lemma good_event_cong:
  "txLookup q = txLookup p \<Longrightarrow> tips q = tips p \<Longrightarrow> pdag q = pdag p \<Longrightarrow> good_event q e = good_event p e"
  by (simp add: good_event_def pool_get_def split: Txi.splits)

text \<open>Asking for the latest nonce sorts a key slice and nothing else.\<close>

lemma GetLatestNonce_inv:
  assumes "node_inv ords p" "pool_GetLatestNonce p a = Inr (n, q)"
  shows "node_inv ords q \<and> n = Max (dom (flow_tx p a)) \<and> flow_tx q = flow_tx p"
proof -
  have fo: "flows_ok p" using assms(1) by (simp add: node_inv_def node_ok_def pool_inv_parts)
  obtain f where f: "afs (flows p) a = Some f" "AccountFlow_Len f > 0"
    using assms(2) by (auto simp: pool_GetLatestNonce_def AccountFlows_GetLatestNonce_def split: option.splits sum.splits if_splits)
  have ok: "AccountFlow_ok f" "originBalance (balance f) = Dag_getBalance (pdag p) a"
    using fo f(1) by (simp_all add: flows_ok_def flows_balanced_def)
  have "dom (txflow (txlist f)) \<noteq> {}"
    using f(2) ok(1) by (auto simp: AccountFlow_Len_def TxList_Len_def AccountFlow_ok_def TxList_ok_def)
  then obtain f' where f': "AccountFlow_LatestNonce f = Inr (Max (dom (txflow (txlist f))), f')" "AccountFlow_ok f'"
    "txflow (txlist f') = txflow (txlist f)" "balance f' = balance f"
    using AccountFlow_LatestNonce_max [OF ok(1)] by blast
  have q: "q = p\<lparr>flows := (flows p)\<lparr>afs := (afs (flows p))(a \<mapsto> f')\<rparr>\<rparr>" "n = Max (dom (txflow (txlist f)))"
    using assms(2) f f'(1) by (auto simp: pool_GetLatestNonce_def AccountFlows_GetLatestNonce_def)
  have fl: "flow_tx q = flow_tx p"
    using f(1) f'(3) by (auto simp: q fun_eq_iff AccountFlows_GetTxByNonce_def AccountFlow_GetTx_def TxList_get_def)
  have fa: "flow_tx p a = txflow (txlist f)"
    using f(1) by (simp add: fun_eq_iff AccountFlows_GetTxByNonce_def AccountFlow_GetTx_def TxList_get_def)
  have "flows_balanced q" using fo ok f'(2,4) by (auto simp: q flows_ok_def flows_balanced_def)
  then have "flows_ok q" using fo fl by (simp add: flows_ok_def accepted_def fun_eq_iff) (simp add: q)
  then have "node_inv ords q"
    using assms(1) by (simp add: q node_inv_def node_ok_def pool_inv_parts at_point_def pool_storable_def)
  then show ?thesis using q(2) fl fa by simp
qed

lemma pool_step_inv:
  assumes "node_inv ords p" "pool_step ords p q"
  shows "node_inv ords q"
  using assms(2)
proof cases
  case (submit tx ty)
  then show ?thesis using assms(1) node_inv_cong [of q p] by simp
next
  case (serve e es)
  have "node_inv ords (p\<lparr>queue := es\<rparr>)" using assms(1) node_inv_cong [of "p\<lparr>queue := es\<rparr>" p] by simp
  moreover have "good_event (p\<lparr>queue := es\<rparr>) e" using serve(3) good_event_cong [of "p\<lparr>queue := es\<rparr>" p] by simp
  ultimately show ?thesis using loop_event_inv serve(1) by blast
next
  case (notify ord tx)
  then show ?thesis using assms(1) node_inv_cong [of q p] by (simp add: notify_new_tx_def)
next
  case (subscribe name)
  then show ?thesis using assms(1) node_inv_cong [of q p] by (simp add: RegisterOnNewTxReceived_def)
next
  case (latest_nonce a n)
  then show ?thesis using GetLatestNonce_inv [OF assms(1)] by blast
next
  case clear
  have "pdag (clearAll p) = pdag p" by (simp add: clearAll_def)
  then show ?thesis
    using assms(1) clearAll_ok [of p] by (simp only: clear node_inv_def node_ok_def pool_storable_def) simp
qed

lemma reachable_inv: "(pool_step ords)\<^sup>*\<^sup>* p q \<Longrightarrow> node_inv ords p \<Longrightarrow> node_inv ords q"
  by (induction rule: rtranclp_induct) (auto intro: pool_step_inv)

lemma pool_Init_inv:
  assumes "dag_inv dag" "db_wf (ddb dag)" "orders_ok ords dag" "TypeOf gen = TxBaseTypeSequencer"
  shows "node_inv ords (pool_Init (NewTxPool conf dag) gen)" (is "node_inv ords ?p")
proof -
  have env: "envs ?p = [HashOf gen \<mapsto> \<lparr>envTx = TxiSeq gen, envTxType = TxTypeGenesis, envStatus = TxStatusTip\<rparr>]"
    by (simp add: pool_Init_def NewTxPool_def env_of_add) (simp add: newTxLookUp_def)
  have maps: "TxMap_Get (tips ?p) = [HashOf gen \<mapsto> TxiSeq gen]" "TxMap_Get (badtxs ?p) = Map.empty" "TxMap_Get (pendings ?p) = Map.empty"
    by (simp_all add: pool_Init_def NewTxPool_def TxMap_Get_Add)
  have "at_point {} ?p h" for h
    unfolding at_point_def env maps using assms(4) by (simp add: point_ok_def loose_tip_def)
  moreover have "lookup_ok (txLookup ?p)"
  proof -
    have "lookup_ok newTxLookUp" by (simp add: lookup_ok_def newTxLookUp_def)
    then show ?thesis by (simp add: pool_Init_def NewTxPool_def lookup_ok_add)
  qed
  moreover have "flows_ok ?p"
    unfolding flows_ok_def flows_balanced_def accepted_def accepted_env_def env
    by (simp add: pool_Init_def NewTxPool_def NewAccountFlows_def AccountFlows_GetTxByNonce_def)
  ultimately have "pool_ok ?p"
    by (simp add: pool_inv_parts) (simp add: pool_Init_def NewTxPool_def)
  moreover have "pool_storable ?p" unfolding pool_storable_def env by simp
  moreover have "pdag ?p = dag" by (simp add: pool_Init_def NewTxPool_def)
  ultimately show ?thesis using assms(1-3) by (simp add: node_inv_def node_ok_def)
qed

section \<open>What the invariant gives\<close>

lemma accepted_in_flow: "flows_ok p \<Longrightarrow> accepted p (TxiTx x) \<Longrightarrow> flow_tx p (From x) (AccountNonce x) = Some (TxiTx x)"
  unfolding flows_ok_def by blast

lemma accepted_by_nonce:
  assumes "flows_ok p" "accepted p (TxiTx t)" "accepted p (TxiTx u)" "From t = From u" "AccountNonce t = AccountNonce u"
  shows "t = u"
  using accepted_in_flow [OF assms(1,2)] accepted_in_flow [OF assms(1,3)] assms(4,5) by (metis Txi.inject(1) option.inject)

lemma accepted_total:
  assumes "flows_ok p" "0 \<le> Dag_getBalance (pdag p) a"
  shows "(\<Sum>t | accepted p (TxiTx t) \<and> From t = a. Value t) \<le> Dag_getBalance (pdag p) a"
proof (cases "afs (flows p) a")
  case None
  have "\<not> (accepted p (TxiTx t) \<and> From t = a)" for t
  proof
    assume "accepted p (TxiTx t) \<and> From t = a"
    then have "flow_tx p a (AccountNonce t) = Some (TxiTx t)" using accepted_in_flow [OF assms(1)] by blast
    then show False using None by (simp add: AccountFlows_GetTxByNonce_def)
  qed
  then have "{t. accepted p (TxiTx t) \<and> From t = a} = {}" by blast
  then show ?thesis using assms(2) by (simp only: sum.empty)
next
  case (Some f)
  let ?S = "{t. accepted p (TxiTx t) \<and> From t = a}" and ?F = "txflow (txlist f)"
  have "flows_balanced p" using assms(1) unfolding flows_ok_def by blast
  then have ok: "AccountFlow_ok f" "originBalance (balance f) = Dag_getBalance (pdag p) a"
    using Some by (simp_all add: flows_balanced_def)
  have mem: "?F (AccountNonce t) = Some (TxiTx t)" if "t \<in> ?S" for t
  proof -
    have "flow_tx p a (AccountNonce t) = Some (TxiTx t)" using that accepted_in_flow [OF assms(1)] by blast
    then show ?thesis using Some by (simp add: AccountFlows_GetTxByNonce_def AccountFlow_GetTx_def TxList_get_def)
  qed
  have inj: "inj_on AccountNonce ?S"
  proof (rule inj_onI)
    fix t u assume t: "t \<in> ?S" and u: "u \<in> ?S" and n: "AccountNonce t = AccountNonce u"
    have "accepted p (TxiTx t)" "accepted p (TxiTx u)" using t u by blast+
    moreover have "From t = a" using t by blast
    moreover have "From u = a" using u by blast
    ultimately show "t = u" using accepted_by_nonce [OF assms(1) _ _ trans [OF _ sym] n] by metis
  qed
  have "dom ?F = set (keys (txlist f))" using ok(1) by (simp add: AccountFlow_ok_def TxList_ok_def)
  then have fin: "finite (dom ?F)" by simp
  have "(\<Sum>t \<in> ?S. Value t) = (\<Sum>n \<in> AccountNonce ` ?S. GetValue (the (?F n)))"
    unfolding sum.reindex [OF inj] comp_def by (intro sum.cong refl) (simp only: mem option.sel GetValue.simps)
  also have "\<dots> \<le> (\<Sum>n \<in> dom ?F. GetValue (the (?F n)))"
  proof (rule sum_mono2 [OF fin])
    show "AccountNonce ` ?S \<subseteq> dom ?F"
    proof
      fix n assume "n \<in> AccountNonce ` ?S"
      then obtain t where "t \<in> ?S" "n = AccountNonce t" by (rule imageE)
      then show "n \<in> dom ?F" using mem [of t] by (simp only: domI)
    qed
  qed (use ok(1) in \<open>auto simp: AccountFlow_ok_def\<close>)
  also have "\<dots> \<le> Dag_getBalance (pdag p) a"
    using ok by (simp add: AccountFlow_ok_def flow_total_def)
  finally show ?thesis .
qed

lemma elder_accepted:
  assumes "confirming ords p seq" "seekElders p (TxiSeq seq) = Inr elders"
    "\<forall>h. map_of elders h \<noteq> None \<longrightarrow> getStatus p h \<noteq> TxStatusBadTx" "t \<in> set (elder_txs elders)"
  shows "accepted p t"
proof -
  have lk: "lookup_ok (txLookup p)" using assms(1) by (simp add: confirming_def pool_inv_parts)
  obtain h where h: "(h, t) \<in> set elders" "is_tx t" using assms(4) by (auto simp: elder_txs_def)
  then have m: "map_of elders h = Some t" using seekElders_ok(1) [OF lk assms(2)] gomap_mem by fast
  then have "pool_get p h = Some t" using seekElders_ok(2) [OF lk assms(2), of h] by (auto split: if_splits)
  then obtain e where e: "envs p h = Some e" "envTx e = t" by (auto simp: pool_get_eq)
  have "envStatus e \<noteq> TxStatusBadTx" using assms(3) m e by (auto simp: getStatus_eq)
  moreover have "GetTxHash t = h" using lk e by (auto simp: lookup_ok_def)
  moreover have "at_point {HashOf seq} p h" using assms(1) pool_inv_at by (auto simp: confirming_def)
  moreover have "h \<noteq> HashOf seq" using assms(1) e h(2) by (auto simp: confirming_def)
  ultimately show ?thesis
    using e by (cases "envStatus e") (auto simp: accepted_def accepted_env_def at_point_def point_ok_def)
qed

lemma values_distinct:
  assumes "gomap_ok xs" "\<And>h t. (h, t) \<in> set xs \<Longrightarrow> GetTxHash t = h"
  shows "distinct (map snd xs)"
proof -
  have "map (GetTxHash \<circ> snd) xs = map fst xs" using assms(2) by (intro map_cong) auto
  then show ?thesis using assms(1) by (metis distinct_map gomap_ok_def map_map)
qed

lemma elder_pairs_distinct:
  assumes "confirming ords p seq" "seekElders p (TxiSeq seq) = Inr elders"
    "\<forall>h. map_of elders h \<noteq> None \<longrightarrow> getStatus p h \<noteq> TxStatusBadTx"
  shows "distinct (map tx_pair (elder_txs elders))"
proof -
  have lk: "lookup_ok (txLookup p)" and fo: "flows_ok p" using assms(1) by (simp_all add: confirming_def pool_inv_parts)
  have go: "gomap_ok elders" using seekElders_ok(1) [OF lk assms(2)] .
  have key: "GetTxHash t = h" if "(h, t) \<in> set elders" for h t
  proof -
    have "map_of elders h = Some t" using that go gomap_mem by fast
    then have "pool_get p h = Some t" using seekElders_ok(2) [OF lk assms(2), of h] by (auto simp: split: if_splits)
    then show ?thesis by (rule pool_get_hash [OF lk])
  qed
  then have "distinct (map snd elders)" using values_distinct [OF go] by blast
  then have d: "distinct (elder_txs elders)" by (simp add: elder_txs_def)
  have "t = u" if tu: "t \<in> set (elder_txs elders)" "u \<in> set (elder_txs elders)" "tx_pair t = tx_pair u" for t u
  proof -
    have "is_tx t" "is_tx u" using tu(1,2) by (auto simp: elder_txs_def)
    then obtain x y where "t = TxiTx x" "u = TxiTx y" by (cases t; cases u) auto
    then show ?thesis
      using accepted_by_nonce [OF fo, of x y] elder_accepted [OF assms tu(1)] elder_accepted [OF assms tu(2)] tu(3) by simp
  qed
  then show ?thesis using d by (simp add: distinct_map inj_on_def)
qed

lemma confirm_effects:
  assumes "confirming ords p seq" "pool_confirm ords p seq = (None, q)" "seekElders p (TxiSeq seq) = Inr elders"
  shows "latestSequencer (pdag q) = Some seq" and "map_of elders h \<noteq> None \<Longrightarrow> pool_get q h = None"
proof -
  obtain cb where v: "verifyConfirmBatch ords p seq elders = Inr cb"
    and d: "Dag_push (ordPush ords) (pdag p) cb = (None, pdag q)" and b: "batch_ok (pdag p) cb"
    and k: "\<forall>h e. envs q h = Some e \<longrightarrow> h \<notin> fst ` set elders"
    using pool_confirm_success [OF assms(1,2)] assms(3) by auto
  have inv: "dag_inv (pdag p)" "services_ok (ordPush ords) (pdag p)"
    using assms(1) by (simp_all add: confirming_def orders_ok_def)
  have "latestSequencer (pdag q) = Some (cbSeq cb)" using Dag_push_run [OF inv b] d by auto
  then show "latestSequencer (pdag q) = Some seq"
    using v by (auto simp: verifyConfirmBatch_def split: sum.splits)
  show "map_of elders h \<noteq> None \<Longrightarrow> pool_get q h = None"
    using k by (cases "envs q h") (force simp: pool_get_eq image_iff dest: map_of_SomeD)+
qed

lemma confirm_balances:
  assumes "confirming ords p seq" "pool_confirm ords p seq = (None, q)" "seekElders p (TxiSeq seq) = Inr elders"
    "\<forall>h. map_of elders h \<noteq> None \<longrightarrow> getStatus p h \<noteq> TxStatusBadTx"
  shows "Dag_getBalance (pdag q) a = Dag_getBalance (pdag p) a
      - ledger.sent (map xfer (elder_txs elders)) a + ledger.received (map xfer (elder_txs elders)) a"
    and "(\<Sum>b \<in> UNIV. Dag_getBalance (pdag q) b) = (\<Sum>b \<in> UNIV. Dag_getBalance (pdag p) b)"
proof -
  obtain cb where v: "verifyConfirmBatch ords p seq elders = Inr cb"
    and d: "Dag_push (ordPush ords) (pdag p) cb = (None, pdag q)" and b: "batch_ok (pdag p) cb" "covered (pdag p) cb"
    using pool_confirm_success [OF assms(1,2)] assms(3) by auto
  have inv: "dag_inv (pdag p)" "services_ok (ordPush ords) (pdag p)" "range_order (ordElders ords)" "range_order (ordDetails ords)"
    using assms(1) by (simp_all add: confirming_def orders_ok_def)
  have wf: "\<forall>(h, t) \<in> set elders. tx_wf t" using confirming_elders [OF assms(1,3)] by auto
  have m: "mset (batch_txs (cbBatch cb)) = mset (elder_txs elders)"
    using verified_batch_all [OF v inv(3,4) wf elder_pairs_distinct [OF assms(1,3,4)]] .
  have ro: "range_order (ordBatch (ordPush ords))" using inv(2) by (simp add: services_ok_def)
  have run: "bal (statedb (pdag q)) = bal (foldl ledger.transfer (statedb (pdag p)) (map xfer (executed (ordPush ords) cb)))"
    using Dag_push_run [OF inv(1,2) b(1)] d by auto
  show bal: "Dag_getBalance (pdag q) a = Dag_getBalance (pdag p) a
      - ledger.sent (map xfer (elder_txs elders)) a + ledger.received (map xfer (elder_txs elders)) a" for a
    using run executed_balances [OF inv(1) ro b(2), of a] sent_mset [OF m, of a] received_mset [OF m, of a]
    by (simp add: Dag_getBalance_eq)
  show "(\<Sum>b \<in> UNIV. Dag_getBalance (pdag q) b) = (\<Sum>b \<in> UNIV. Dag_getBalance (pdag p) b)"
    unfolding bal using sum_sent_received [of "map xfer (elder_txs elders)"] by (simp add: sum.distrib sum_subtractf)
qed

lemma confirm_no_failure:
  assumes "confirming ords p seq" "isBadSeq p seq = None" "seekElders p (TxiSeq seq) = Inr elders"
    "verifyConfirmBatch ords p seq elders = Inr cb" "latestSequencer (pdag p) = Some latest" "Height seq = Height latest + 1"
  shows "\<exists>q. pool_confirm ords p seq = (None, q)"
proof -
  obtain r dag' where d: "Dag_push (ordPush ords) (pdag p) cb = (r, dag')" by fastforce
  have cs: "cbSeq cb = seq" using assms(4) by (auto simp: verifyConfirmBatch_def split: sum.splits)
  have ro: "range_order (ordElders ords)" "range_order (ordDetails ords)" "services_ok (ordPush ords) (pdag p)" "dag_inv (pdag p)"
    using assms(1) by (simp_all add: confirming_def orders_ok_def)
  have b: "batch_ok (pdag p) cb"
    using verified_push(1) [OF assms(4) ro(1,2) confirming_elders [OF assms(1,3)] ro(4) assms(5,6) seq_wf [OF assms(1)]] assms(1)
    by (simp add: confirming_def)
  then have "r = None" using Dag_push_run [OF ro(4,3) b] d by auto
  moreover have "db_wf (ddb dag')" using wf_push [of "pdag p" "ordPush ords" cb] assms(1) d by (simp add: confirming_def)
  then obtain p1 where "solveConflicts ords (p\<lparr>pdag := dag'\<rparr>) elders = Some p1"
    using confirming_solve [OF assms(1)] by blast
  ultimately show ?thesis using assms(2-4) d by (simp add: pool_confirm_def Let_def)
qed

end
