(* ===== verification/Hexutil.thy ===== *)
theory Hexutil
  imports OGTypes
begin

text \<open>
  The hexadecimal codecs of \<^verbatim>\<open>src/common/hexutil\<close> and the text and JSON forms of hashes and addresses
  that are built on them. Text is a list of characters. The decoders of \<^verbatim>\<open>encoding/hex\<close> and
  \<^verbatim>\<open>strconv.ParseUint\<close> are written out with their own errors, which \<^verbatim>\<open>mapError\<close> translates.
\<close>

section \<open>Errors\<close>

datatype std_error = InvalidByteError char | ErrLength | NumErrSyntax | NumErrRange

datatype hex_error =
    ErrEmptyString
  | ErrSyntax
  | ErrMissingPrefix
  | ErrOddLength
  | ErrEmptyNumber
  | ErrLeadingZero
  | ErrUint64Range
  | ErrUintRange
  | ErrBig256Range
  | ErrFixedLength nat nat string
  | UnmarshalTypeError string string

fun decError_Error :: "hex_error \<Rightarrow> string option" where
  "decError_Error ErrEmptyString = Some ''empty hex string''"
| "decError_Error ErrSyntax = Some ''invalid hex string''"
| "decError_Error ErrMissingPrefix = Some ''hex string without 0x prefix''"
| "decError_Error ErrOddLength = Some ''hex string of odd length''"
| "decError_Error ErrEmptyNumber = Some ''hex string \"0x\"''"
| "decError_Error ErrLeadingZero = Some ''hex number with leading zero digits''"
| "decError_Error ErrUint64Range = Some ''hex number > 64 bits''"
| "decError_Error ErrUintRange = Some ''hex number > 64 bits''"
| "decError_Error ErrBig256Range = Some ''hex number > 256 bits''"
| "decError_Error _ = None"

fun mapError :: "std_error \<Rightarrow> hex_error" where
  "mapError NumErrRange = ErrUint64Range"
| "mapError NumErrSyntax = ErrSyntax"
| "mapError (InvalidByteError _) = ErrSyntax"
| "mapError ErrLength = ErrOddLength"

section \<open>Nibbles and the library decoders\<close>

abbreviation badNibble :: uint64 where
  "badNibble \<equiv> - 1"

definition decodeNibble :: "char \<Rightarrow> uint64" where
  "decodeNibble c =
     (let i = (of_char c :: nat) in
      if 48 \<le> i \<and> i \<le> 57 then of_nat (i - 48)
      else if 65 \<le> i \<and> i \<le> 70 then of_nat (i - 65 + 10)
      else if 97 \<le> i \<and> i \<le> 102 then of_nat (i - 97 + 10)
      else badNibble)"

text \<open>\<^verbatim>\<open>hex.Decode\<close>: pairs of digits; a single last digit is an odd length, when it is a digit.\<close>

fun hex_Decode :: "string \<Rightarrow> std_error + byte list" where
  "hex_Decode [] = Inr []"
| "hex_Decode [c] = (if decodeNibble c = badNibble then Inl (InvalidByteError c) else Inl ErrLength)"
| "hex_Decode (c # d # cs) =
     (if decodeNibble c = badNibble then Inl (InvalidByteError c)
      else if decodeNibble d = badNibble then Inl (InvalidByteError d)
      else case hex_Decode cs of
        Inl err \<Rightarrow> Inl err
      | Inr bs \<Rightarrow> Inr (ucast (decodeNibble c * 16 + decodeNibble d) # bs))"

text \<open>\<^verbatim>\<open>strconv.ParseUint(s, 16, 64)\<close>: the cutoff is 2^60, the first value whose product with 16 overflows.\<close>

fun parse_uint_loop :: "string \<Rightarrow> uint64 \<Rightarrow> std_error + uint64" where
  "parse_uint_loop [] n = Inr n"
| "parse_uint_loop (c # cs) n =
     (if decodeNibble c = badNibble then Inl NumErrSyntax
      else if n \<ge> 2 ^ 60 then Inl NumErrRange
      else let n' = n * 16; n1 = n' + decodeNibble c in
        if n1 < n' then Inl NumErrRange else parse_uint_loop cs n1)"

definition ParseUint16 :: "string \<Rightarrow> std_error + uint64" where
  "ParseUint16 s = (if s = [] then Inl NumErrSyntax else parse_uint_loop s 0)"

text \<open>\<^verbatim>\<open>strconv.AppendUint(_, i, 16)\<close> and the digits of \<^verbatim>\<open>%x\<close>.\<close>

fun hex_digits :: "nat \<Rightarrow> string" where
  "hex_digits n = (if n < 16 then [nibble_char n] else hex_digits (n div 16) @ [nibble_char (n mod 16)])"

declare hex_digits.simps [simp del]

section \<open>hexutil.go\<close>

definition has0xPrefix :: "string \<Rightarrow> bool" where
  "has0xPrefix input =
     (length input \<ge> 2 \<and> input ! 0 = CHR ''0'' \<and> (input ! 1 = CHR ''x'' \<or> input ! 1 = CHR ''X''))"

definition checkNumber :: "string \<Rightarrow> hex_error + string" where
  "checkNumber input =
     (if length input = 0 then Inl ErrEmptyString
      else if \<not> has0xPrefix input then Inl ErrMissingPrefix
      else let input' = drop 2 input in
        if length input' = 0 then Inl ErrEmptyNumber
        else if length input' > 1 \<and> input' ! 0 = CHR ''0'' then Inl ErrLeadingZero
        else Inr input')"

definition hexutil_Decode :: "string \<Rightarrow> hex_error + byte list" where
  "hexutil_Decode input =
     (if length input = 0 then Inl ErrEmptyString
      else if \<not> has0xPrefix input then Inl ErrMissingPrefix
      else case hex_Decode (drop 2 input) of Inl err \<Rightarrow> Inl (mapError err) | Inr b \<Rightarrow> Inr b)"

text \<open>The \<^verbatim>\<open>Must\<close> variants panic: \<open>None\<close>.\<close>

definition MustDecode :: "string \<Rightarrow> byte list option" where
  "MustDecode input = (case hexutil_Decode input of Inl _ \<Rightarrow> None | Inr dec \<Rightarrow> Some dec)"

definition DecodeUint64 :: "string \<Rightarrow> hex_error + uint64" where
  "DecodeUint64 input =
     (case checkNumber input of
        Inl err \<Rightarrow> Inl err
      | Inr raw \<Rightarrow> (case ParseUint16 raw of Inl err \<Rightarrow> Inl (mapError err) | Inr dec \<Rightarrow> Inr dec))"

definition MustDecodeUint64 :: "string \<Rightarrow> uint64 option" where
  "MustDecodeUint64 input = (case DecodeUint64 input of Inl _ \<Rightarrow> None | Inr dec \<Rightarrow> Some dec)"

definition EncodeUint64 :: "uint64 \<Rightarrow> string" where
  "EncodeUint64 i = ''0x'' @ hex_digits (unat i)"

definition bigWordNibbles :: nat where
  "bigWordNibbles = 16"

text \<open>The inner loop of \<^verbatim>\<open>DecodeBig\<close> over the digits of one word, and the outer one over the words, the
  least significant first.\<close>

fun big_word_loop :: "string \<Rightarrow> uint64 \<Rightarrow> hex_error + uint64" where
  "big_word_loop [] w = Inr w"
| "big_word_loop (c # cs) w =
     (let nib = decodeNibble c in
      if nib = badNibble then Inl ErrSyntax else big_word_loop cs (w * 16 + nib))"

fun big_words_loop :: "string \<Rightarrow> nat \<Rightarrow> nat \<Rightarrow> hex_error + uint64 list" where
  "big_words_loop raw 0 end' = Inr []"
| "big_words_loop raw (Suc k) end' =
     (let start = end' - bigWordNibbles in
      case big_word_loop (drop start (take end' raw)) 0 of
        Inl err \<Rightarrow> Inl err
      | Inr w \<Rightarrow> (case big_words_loop raw k start of Inl err \<Rightarrow> Inl err | Inr ws \<Rightarrow> Inr (w # ws)))"

text \<open>\<^verbatim>\<open>big.Int.SetBits\<close>.\<close>

fun SetBits :: "uint64 list \<Rightarrow> int" where
  "SetBits [] = 0"
| "SetBits (w # ws) = uint w + 2 ^ 64 * SetBits ws"

definition big_of_digits :: "string \<Rightarrow> hex_error + int" where
  "big_of_digits raw =
     (if length raw > 64 then Inl ErrBig256Range
      else case big_words_loop raw (length raw div bigWordNibbles + 1) (length raw) of
        Inl err \<Rightarrow> Inl err
      | Inr words \<Rightarrow> Inr (SetBits words))"

definition DecodeBig :: "string \<Rightarrow> hex_error + int" where
  "DecodeBig input = (case checkNumber input of Inl err \<Rightarrow> Inl err | Inr raw \<Rightarrow> big_of_digits raw)"

definition MustDecodeBig :: "string \<Rightarrow> int option" where
  "MustDecodeBig input = (case DecodeBig input of Inl _ \<Rightarrow> None | Inr dec \<Rightarrow> Some dec)"

text \<open>\<^verbatim>\<open>%#x\<close> writes the sign of a negative number before the prefix.\<close>

definition EncodeBig :: "int \<Rightarrow> string" where
  "EncodeBig bigint =
     (if bigint = 0 then ''0x0''
      else (if bigint < 0 then ''-'' else []) @ ''0x'' @ hex_digits (nat \<bar>bigint\<bar>))"

section \<open>json.go\<close>

definition isString :: "string \<Rightarrow> bool" where
  "isString input = (length input \<ge> 2 \<and> input ! 0 = CHR 34 \<and> input ! (length input - 1) = CHR 34)"

definition bytesHave0xPrefix :: "string \<Rightarrow> bool" where
  "bytesHave0xPrefix input =
     (length input \<ge> 2 \<and> input ! 0 = CHR ''0'' \<and> (input ! 1 = CHR ''x'' \<or> input ! 1 = CHR ''X''))"

definition checkText :: "string \<Rightarrow> bool \<Rightarrow> hex_error + string" where
  "checkText input wantPrefix =
     (if length input = 0 then Inr []
      else if \<not> bytesHave0xPrefix input \<and> wantPrefix then Inl ErrMissingPrefix
      else let input' = (if bytesHave0xPrefix input then drop 2 input else input) in
        if length input' mod 2 \<noteq> 0 then Inl ErrOddLength else Inr input')"

definition checkNumberText :: "string \<Rightarrow> hex_error + string" where
  "checkNumberText input =
     (if length input = 0 then Inr []
      else if \<not> bytesHave0xPrefix input then Inl ErrMissingPrefix
      else let input' = drop 2 input in
        if length input' = 0 then Inl ErrEmptyNumber
        else if length input' > 1 \<and> input' ! 0 = CHR ''0'' then Inl ErrLeadingZero
        else Inr input')"

definition wrapTypeError :: "hex_error option \<Rightarrow> string \<Rightarrow> hex_error option" where
  "wrapTypeError err typ =
     (case err of
        None \<Rightarrow> None
      | Some e \<Rightarrow> (case decError_Error e of Some msg \<Rightarrow> Some (UnmarshalTypeError msg typ) | None \<Rightarrow> Some e))"

definition errNonString :: "string \<Rightarrow> hex_error" where
  "errNonString typ = UnmarshalTypeError ''non-string'' typ"

text \<open>The JSON form of every type strips the quotes and runs the text form.\<close>

definition unquoted :: "string \<Rightarrow> string" where
  "unquoted input = take (length input - 2) (drop 1 input)"

definition Bytes_MarshalText :: "byte list \<Rightarrow> string" where
  "Bytes_MarshalText b = ''0x'' @ concat (map hex_byte b)"

definition Bytes_UnmarshalText :: "byte list \<Rightarrow> string \<Rightarrow> hex_error option \<times> byte list" where
  "Bytes_UnmarshalText b input =
     (case checkText input True of
        Inl err \<Rightarrow> (Some err, b)
      | Inr raw \<Rightarrow> (case hex_Decode raw of Inl err \<Rightarrow> (Some (mapError err), b) | Inr dec \<Rightarrow> (None, dec)))"

definition Bytes_UnmarshalJSON :: "byte list \<Rightarrow> string \<Rightarrow> hex_error option \<times> byte list" where
  "Bytes_UnmarshalJSON b input =
     (if \<not> isString input then (Some (errNonString ''hexutil.Bytes''), b)
      else case Bytes_UnmarshalText b (unquoted input) of (err, b') \<Rightarrow> (wrapTypeError err ''hexutil.Bytes'', b'))"

text \<open>\<open>fixed_text\<close> is the shared body of the two fixed-length decoders. \<^verbatim>\<open>hex.Decode\<close> writes the decoded bytes
  over the front of the output; the length check and the pre-verification make it exact.\<close>

definition fixed_text :: "bool \<Rightarrow> string \<Rightarrow> string \<Rightarrow> byte list \<Rightarrow> hex_error option \<times> byte list" where
  "fixed_text wantPrefix typname input out =
     (case checkText input wantPrefix of
        Inl err \<Rightarrow> (Some err, out)
      | Inr raw \<Rightarrow>
          (if length raw div 2 \<noteq> length out then (Some (ErrFixedLength (length raw) (length out * 2) typname), out)
           else if list_ex (\<lambda>b. decodeNibble b = badNibble) raw then (Some ErrSyntax, out)
           else case hex_Decode raw of
             Inl _ \<Rightarrow> (None, out)
           | Inr dec \<Rightarrow> (None, dec @ drop (length dec) out)))"

definition UnmarshalFixedText :: "string \<Rightarrow> string \<Rightarrow> byte list \<Rightarrow> hex_error option \<times> byte list" where
  "UnmarshalFixedText typname input out = fixed_text True typname input out"

definition UnmarshalFixedUnprefixedText :: "string \<Rightarrow> string \<Rightarrow> byte list \<Rightarrow> hex_error option \<times> byte list" where
  "UnmarshalFixedUnprefixedText typname input out = fixed_text False typname input out"

definition UnmarshalFixedJSON :: "string \<Rightarrow> string \<Rightarrow> byte list \<Rightarrow> hex_error option \<times> byte list" where
  "UnmarshalFixedJSON typ input out =
     (if \<not> isString input then (Some (errNonString typ), out)
      else case UnmarshalFixedText typ (unquoted input) out of (err, out') \<Rightarrow> (wrapTypeError err typ, out'))"

definition Big_MarshalText :: "int \<Rightarrow> string" where
  "Big_MarshalText b = EncodeBig b"

definition Big_UnmarshalText :: "int \<Rightarrow> string \<Rightarrow> hex_error option \<times> int" where
  "Big_UnmarshalText b input =
     (case checkNumberText input of
        Inl err \<Rightarrow> (Some err, b)
      | Inr raw \<Rightarrow> (case big_of_digits raw of Inl err \<Rightarrow> (Some err, b) | Inr dec \<Rightarrow> (None, dec)))"

definition Big_UnmarshalJSON :: "int \<Rightarrow> string \<Rightarrow> hex_error option \<times> int" where
  "Big_UnmarshalJSON b input =
     (if \<not> isString input then (Some (errNonString ''*hexutil.Big''), b)
      else case Big_UnmarshalText b (unquoted input) of (err, b') \<Rightarrow> (wrapTypeError err ''*hexutil.Big'', b'))"

definition Uint64_MarshalText :: "uint64 \<Rightarrow> string" where
  "Uint64_MarshalText b = ''0x'' @ hex_digits (unat b)"

definition Uint64_UnmarshalText :: "uint64 \<Rightarrow> string \<Rightarrow> hex_error option \<times> uint64" where
  "Uint64_UnmarshalText b input =
     (case checkNumberText input of
        Inl err \<Rightarrow> (Some err, b)
      | Inr raw \<Rightarrow>
          (if length raw > 16 then (Some ErrUint64Range, b)
           else case big_word_loop raw 0 of Inl err \<Rightarrow> (Some err, b) | Inr dec \<Rightarrow> (None, dec)))"

definition Uint64_UnmarshalJSON :: "uint64 \<Rightarrow> string \<Rightarrow> hex_error option \<times> uint64" where
  "Uint64_UnmarshalJSON b input =
     (if \<not> isString input then (Some (errNonString ''hexutil.Uint64''), b)
      else case Uint64_UnmarshalText b (unquoted input) of (err, b') \<Rightarrow> (wrapTypeError err ''hexutil.Uint64'', b'))"

text \<open>\<^verbatim>\<open>uint\<close> has 64 bits, so the comparison with \<^verbatim>\<open>^uint(0)\<close> never holds.\<close>

definition Uint_UnmarshalText :: "uint64 \<Rightarrow> string \<Rightarrow> hex_error option \<times> uint64" where
  "Uint_UnmarshalText b input =
     (case Uint64_UnmarshalText 0 input of
        (err, u64) \<Rightarrow>
          (if u64 > - 1 \<or> err = Some ErrUint64Range then (Some ErrUintRange, b)
           else if err \<noteq> None then (err, b)
           else (None, u64)))"

definition Uint_UnmarshalJSON :: "uint64 \<Rightarrow> string \<Rightarrow> hex_error option \<times> uint64" where
  "Uint_UnmarshalJSON b input =
     (if \<not> isString input then (Some (errNonString ''hexutil.Uint''), b)
      else case Uint_UnmarshalText b (unquoted input) of (err, b') \<Rightarrow> (wrapTypeError err ''hexutil.Uint'', b'))"

section \<open>The text forms of hashes and addresses\<close>

definition Hash_of_bytes :: "byte list \<Rightarrow> Hash" where
  "Hash_of_bytes bs = of_nat (bytes_val bs)"

definition Hash_UnmarshalText :: "Hash \<Rightarrow> string \<Rightarrow> hex_error option \<times> Hash" where
  "Hash_UnmarshalText h input =
     (case UnmarshalFixedText ''Hash'' input (Hash_ToBytes h) of (err, out) \<Rightarrow> (err, Hash_of_bytes out))"

definition Hash_UnmarshalJSON :: "Hash \<Rightarrow> string \<Rightarrow> hex_error option \<times> Hash" where
  "Hash_UnmarshalJSON h input =
     (case UnmarshalFixedJSON ''types.Hash'' input (Hash_ToBytes h) of (err, out) \<Rightarrow> (err, Hash_of_bytes out))"

definition Hash_MarshalText :: "Hash \<Rightarrow> string" where
  "Hash_MarshalText h = Bytes_MarshalText (Hash_ToBytes h)"

definition Address_of_bytes :: "byte list \<Rightarrow> Address" where
  "Address_of_bytes bs = of_nat (bytes_val bs)"

definition Address_UnmarshalText :: "Address \<Rightarrow> string \<Rightarrow> hex_error option \<times> Address" where
  "Address_UnmarshalText a input =
     (case UnmarshalFixedText ''Address'' input (Address_ToBytes a) of (err, out) \<Rightarrow> (err, Address_of_bytes out))"

definition Address_UnmarshalJSON :: "Address \<Rightarrow> string \<Rightarrow> hex_error option \<times> Address" where
  "Address_UnmarshalJSON a input =
     (case UnmarshalFixedJSON ''types.Address'' input (Address_ToBytes a) of (err, out) \<Rightarrow> (err, Address_of_bytes out))"

definition Address_MarshalText :: "Address \<Rightarrow> string" where
  "Address_MarshalText a = Bytes_MarshalText (Address_ToBytes a)"

section \<open>Digits\<close>

abbreviation hexdigit :: "char \<Rightarrow> bool" where
  "hexdigit c \<equiv> decodeNibble c \<noteq> badNibble"

definition digits_val :: "string \<Rightarrow> nat" where
  "digits_val cs = foldl (\<lambda>n c. n * 16 + unat (decodeNibble c)) 0 cs"

lemma nibble_char_range: "(n :: nat) < 16 \<Longrightarrow> n \<in> {0, 1, 2, 3, 4, 5, 6, 7, 8, 9, 10, 11, 12, 13, 14, 15}"
  by simp presburger

lemma decode_nibble_char: "n < 16 \<Longrightarrow> decodeNibble (nibble_char n) = of_nat n"
  by (drule nibble_char_range) (auto simp: decodeNibble_def nibble_char_def Let_def)

lemma hexdigit_nibble_char: "n < 16 \<Longrightarrow> hexdigit (nibble_char n)"
  by (drule nibble_char_range) (auto simp: decodeNibble_def nibble_char_def Let_def)

lemma nibble_char_zero: "n < 16 \<Longrightarrow> nibble_char n = CHR ''0'' \<longleftrightarrow> n = 0"
  by (drule nibble_char_range) (auto simp: nibble_char_def)

lemma nibble_bound: "hexdigit c \<Longrightarrow> unat (decodeNibble c) < 16"
  by (auto simp del: of_nat_diff of_nat_add simp: decodeNibble_def Let_def unat_of_nat split: if_splits)

lemma foldl_digits: "foldl (\<lambda>n c. n * 16 + unat (decodeNibble c)) a cs = a * 16 ^ length cs + digits_val cs"
proof (induction cs arbitrary: a)
  case (Cons c cs)
  show ?case unfolding digits_val_def using Cons [of "a * 16 + unat (decodeNibble c)"] Cons [of "unat (decodeNibble c)"]
    by (simp add: algebra_simps)
qed (simp add: digits_val_def)

lemma digits_val_simps [simp]:
  "digits_val [] = 0" "digits_val (c # cs) = unat (decodeNibble c) * 16 ^ length cs + digits_val cs"
  "digits_val (xs @ ys) = digits_val xs * 16 ^ length ys + digits_val ys"
  using foldl_digits [of "unat (decodeNibble c)" cs] foldl_digits [of "digits_val xs" ys] by (simp_all add: digits_val_def)

lemma digits_val_bound: "\<forall>c \<in> set cs. hexdigit c \<Longrightarrow> digits_val cs < 16 ^ length cs"
proof (induction cs)
  case (Cons c cs)
  then have "unat (decodeNibble c) \<le> 15" using nibble_bound [of c] by simp
  then have "unat (decodeNibble c) * 16 ^ length cs \<le> 15 * 16 ^ length cs" by (rule mult_le_mono1)
  moreover have "digits_val cs < 16 ^ length cs" using Cons by simp
  moreover have "(16 :: nat) ^ length (c # cs) = 15 * 16 ^ length cs + 16 ^ length cs" by simp
  ultimately show ?case by (simp only: digits_val_simps)
qed simp

lemma hex_digits_facts:
  "digits_val (hex_digits n) = n" "\<forall>c \<in> set (hex_digits n). hexdigit c" "hex_digits n \<noteq> []"
  "hex_digits n ! 0 = CHR ''0'' \<longleftrightarrow> n = 0"
proof (induction n rule: hex_digits.induct)
  case (1 n)
  {
    case 1
    then show ?case using "1.IH"(1) by (subst hex_digits.simps) (simp add: decode_nibble_char unat_of_nat)
  next
    case 2
    then show ?case using "1.IH"(2) by (subst hex_digits.simps) (auto simp: hexdigit_nibble_char)
  next
    case 3
    then show ?case by (subst hex_digits.simps) simp
  next
    case 4
    then show ?case using "1.IH"(3,4) by (subst hex_digits.simps) (auto simp: nibble_char_zero nth_append)
  }
qed

lemma length_hex_digits: "0 < k \<Longrightarrow> length (hex_digits n) \<le> k \<longleftrightarrow> n < 16 ^ k"
proof (induction n arbitrary: k rule: hex_digits.induct)
  case (1 n)
  show ?case
  proof (cases "n < 16")
    case True
    moreover have "(16 :: nat) ^ 1 \<le> 16 ^ k" using 1(2) by (intro power_increasing) simp_all
    ultimately show ?thesis using 1(2) by (subst hex_digits.simps) simp
  next
    case False
    show ?thesis
    proof (cases "k = 1")
      case True
      then show ?thesis using False by (subst hex_digits.simps) (simp add: hex_digits_facts(3))
    next
      case k: False
      then obtain j where j: "k = Suc j" "0 < j" using 1(2) by (cases k) auto
      have "n < 16 ^ k \<longleftrightarrow> n div 16 < 16 ^ j" using j(1) by (simp add: div_less_iff_less_mult mult.commute)
      then show ?thesis using False 1(1) [OF False j(2)] j(1) by (subst hex_digits.simps) simp
    qed
  qed
qed

section \<open>What the decoders accept\<close>

lemma hex_Decode_bytes: "hex_Decode (concat (map hex_byte bs)) = Inr bs"
proof (induction bs)
  case (Cons b bs)
  have n: "unat b div 16 < 16" "unat b mod 16 < 16" using unsigned_less [of b] by (simp_all add: div_less_iff_less_mult)
  have "(of_nat (unat b div 16) * 16 + of_nat (unat b mod 16) :: uint64) = of_nat (unat b)"
    by (metis div_mult_mod_eq of_nat_add of_nat_mult of_nat_numeral)
  then have "ucast (of_nat (unat b div 16) * 16 + of_nat (unat b mod 16) :: uint64) = b"
    by (simp add: unsigned_ucast_eq take_bit_word_eq_self)
  moreover have "hexdigit (nibble_char (unat b div 16))" "hexdigit (nibble_char (unat b mod 16))"
    using n by (simp_all only: hexdigit_nibble_char) simp_all
  ultimately show ?case using Cons n by (simp add: hex_byte_def decode_nibble_char)
qed simp

lemma hex_Decode_ok: "hex_Decode cs = Inr bs \<Longrightarrow> (\<forall>c \<in> set cs. hexdigit c) \<and> length cs = 2 * length bs"
  by (induction cs arbitrary: bs rule: hex_Decode.induct) (auto split: if_splits sum.splits)

lemma hex_Decode_total: "\<forall>c \<in> set cs. hexdigit c \<Longrightarrow> even (length cs) \<Longrightarrow> \<exists>bs. hex_Decode cs = Inr bs"
  by (induction cs rule: hex_Decode.induct) auto

lemma nibble_step:
  assumes "hexdigit c" "unat w < 2 ^ 60"
  shows "unat (w * 16 + decodeNibble c :: uint64) = unat w * 16 + unat (decodeNibble c)"
    and "unat (w * 16 :: uint64) = unat w * 16"
  using nibble_bound [OF assms(1)] assms(2) by (simp_all add: unat_word_ariths)

lemma parse_uint_digits:
  assumes "\<forall>c \<in> set cs. hexdigit c"
  shows "parse_uint_loop cs n = (let v = unat n * 16 ^ length cs + digits_val cs in
    if v < 2 ^ 64 then Inr (of_nat v) else Inl NumErrRange)"
  using assms
proof (induction cs arbitrary: n)
  case Nil
  then show ?case using unsigned_less [of n] by (simp add: Let_def)
next
  case (Cons c cs)
  show ?case
  proof (cases "n \<ge> 2 ^ 60")
    case True
    then have "2 ^ 60 \<le> unat n" by (simp add: word_le_nat_alt)
    moreover have "(1 :: nat) \<le> 16 ^ length cs" by simp
    ultimately have "2 ^ 60 * (16 * 1) \<le> unat n * (16 * 16 ^ length cs)" by (intro mult_le_mono) simp_all
    then show ?thesis using True Cons.prems by (simp add: Let_def)
  next
    case False
    then have lt: "unat n < 2 ^ 60" by (simp add: word_le_nat_alt)
    have h: "hexdigit c" using Cons.prems by simp
    have "\<not> n * 16 + decodeNibble c < n * 16" using nibble_step [OF h lt] by (simp add: word_less_nat_alt)
    then show ?thesis
      using False h Cons.IH [of "n * 16 + decodeNibble c"] Cons.prems nibble_step(1) [OF h lt]
      by (simp add: Let_def algebra_simps)
  qed
qed

lemma parse_uint_bad: "\<exists>c \<in> set cs. \<not> hexdigit c \<Longrightarrow> \<exists>e. parse_uint_loop cs n = Inl e"
  by (induction cs arbitrary: n) (auto simp: Let_def)

lemma big_word_digits:
  assumes "\<forall>c \<in> set cs. hexdigit c" "unat w * 16 ^ length cs + digits_val cs < 2 ^ 64"
  shows "big_word_loop cs w = Inr (of_nat (unat w * 16 ^ length cs + digits_val cs))"
  using assms
proof (induction cs arbitrary: w)
  case (Cons c cs)
  have h: "hexdigit c" using Cons.prems by simp
  have "unat w * (16 * 1) \<le> unat w * (16 * 16 ^ length cs)" by (intro mult_le_mono) simp_all
  also have "\<dots> < 2 ^ 64" using Cons.prems(2) by simp
  finally have lt: "unat w < 2 ^ 60" by simp
  show ?case
    using h Cons.IH [of "w * 16 + decodeNibble c"] Cons.prems nibble_step(1) [OF h lt] by (simp add: Let_def algebra_simps)
qed simp

lemma big_word_bad: "\<exists>c \<in> set cs. \<not> hexdigit c \<Longrightarrow> \<exists>e. big_word_loop cs w = Inl e"
  by (induction cs arbitrary: w) (auto simp: Let_def)

lemma sixteen_pow: "k \<le> 16 \<Longrightarrow> (16 :: nat) ^ k \<le> 2 ^ 64"
  using power_increasing [of k 16 "16 :: nat"] by simp

lemma big_words_digits:
  assumes "\<forall>c \<in> set raw. hexdigit c" "e \<le> length raw" "e \<le> 16 * k"
  shows "\<exists>ws. big_words_loop raw k e = Inr ws \<and> SetBits ws = int (digits_val (take e raw))"
  using assms(2,3)
proof (induction k arbitrary: e)
  case (Suc k)
  let ?s = "e - 16" and ?mid = "drop (e - 16) (take e raw)"
  have hex: "\<forall>c \<in> set ?mid. hexdigit c" using assms(1) by (meson in_set_dropD in_set_takeD)
  have len: "length ?mid \<le> 16" using Suc.prems by simp
  have v: "digits_val ?mid < 2 ^ 64" using digits_val_bound [OF hex] sixteen_pow [OF len] by linarith
  then have w: "big_word_loop ?mid 0 = Inr (of_nat (digits_val ?mid))" using big_word_digits [OF hex, of 0] by simp
  obtain ws where ws: "big_words_loop raw k ?s = Inr ws" "SetBits ws = int (digits_val (take ?s raw))"
    using Suc.IH [of ?s] Suc.prems by fastforce
  have split: "take e raw = take ?s raw @ ?mid" by (metis append_take_drop_id diff_le_self min.absorb1 take_take)
  have u: "uint (of_nat (digits_val ?mid) :: uint64) = int (digits_val ?mid)" using v by (simp add: unsigned_of_nat take_bit_nat_eq_self)
  have "int (digits_val (take e raw)) = int (digits_val (take ?s raw)) * 16 ^ length ?mid + int (digits_val ?mid)"
    by (subst split) simp
  moreover have "int (digits_val (take ?s raw)) * 16 ^ length ?mid = 2 ^ 64 * int (digits_val (take ?s raw))"
    using Suc.prems(1) by (cases "16 \<le> e") simp_all
  ultimately show ?case using w ws u by (simp add: Let_def bigWordNibbles_def)
qed simp

lemma digits_take [simp]: "digits_val (take (length raw) raw) = digits_val raw"
  by simp

lemma big_words_ok: "big_words_loop raw k e = Inr ws \<Longrightarrow> e \<le> 16 * k \<Longrightarrow> \<forall>c \<in> set (take e raw). hexdigit c"
proof (induction k arbitrary: e ws)
  case (Suc k)
  let ?s = "e - 16"
  obtain w where w: "big_word_loop (drop ?s (take e raw)) 0 = Inr w"
    and ws': "\<exists>ws'. big_words_loop raw k ?s = Inr ws'"
    using Suc.prems(1) by (auto simp: Let_def bigWordNibbles_def split: sum.splits)
  have "\<forall>c \<in> set (drop ?s (take e raw)). hexdigit c" using big_word_bad [of "drop ?s (take e raw)" 0] w by auto
  moreover have "\<forall>c \<in> set (take ?s raw). hexdigit c" using Suc.IH ws' Suc.prems(2) by fastforce
  moreover have "take e raw = take ?s raw @ drop ?s (take e raw)"
    by (metis append_take_drop_id diff_le_self min.absorb1 take_take)
  ultimately show ?case by (metis Un_iff set_append)
qed simp

text \<open>The two number decoders agree on what a string of digits is worth.\<close>

lemma big_of_digits_iff:
  "big_of_digits raw = Inr v \<longleftrightarrow> length raw \<le> 64 \<and> (\<forall>c \<in> set raw. hexdigit c) \<and> v = int (digits_val raw)"
proof -
  have e: "length raw \<le> 16 * (length raw div 16 + 1)" by simp
  have "(\<exists>ws. big_words_loop raw (length raw div 16 + 1) (length raw) = Inr ws) \<Longrightarrow> \<forall>c \<in> set raw. hexdigit c"
    using big_words_ok [OF _ e] by fastforce
  moreover have "\<forall>c \<in> set raw. hexdigit c \<Longrightarrow>
      \<exists>ws. big_words_loop raw (length raw div 16 + 1) (length raw) = Inr ws \<and> SetBits ws = int (digits_val raw)"
    using big_words_digits [OF _ _ e] by fastforce
  ultimately show ?thesis
    by (cases "big_words_loop raw (length raw div 16 + 1) (length raw)") (auto simp: big_of_digits_def bigWordNibbles_def)
qed

lemma ParseUint16_iff:
  "ParseUint16 raw = Inr v \<longleftrightarrow> raw \<noteq> [] \<and> (\<forall>c \<in> set raw. hexdigit c) \<and> digits_val raw < 2 ^ 64 \<and> v = of_nat (digits_val raw)"
proof (cases "\<forall>c \<in> set raw. hexdigit c")
  case True
  then show ?thesis using parse_uint_digits [OF True, of 0] by (auto simp: ParseUint16_def Let_def)
next
  case False
  then show ?thesis using parse_uint_bad [of raw 0] by (auto simp: ParseUint16_def)
qed

lemma small_of_nat_zero: "k < 16 \<Longrightarrow> (of_nat k :: uint64) = 0 \<longleftrightarrow> k = 0"
  by (auto simp: word_of_nat_eq_0_iff dest: dvd_imp_le)

lemma nibble_zero: "decodeNibble c = 0 \<longleftrightarrow> c = CHR ''0''"
proof
  assume z: "decodeNibble c = 0"
  then have "(of_char c :: nat) = 48"
    by (auto simp: decodeNibble_def Let_def small_of_nat_zero simp del: of_nat_diff of_nat_add split: if_splits)
  then have "c = char_of (48 :: nat)" by (metis char_of_char)
  then show "c = CHR ''0''" by (simp add: char_of_def bit_0)
qed (simp add: decodeNibble_def)

text \<open>A number without leading zeros fits 64 bits exactly when it has at most 16 digits.\<close>

lemma digits_fit:
  assumes "\<forall>c \<in> set raw. hexdigit c" "raw \<noteq> []" "length raw = 1 \<or> raw ! 0 \<noteq> CHR ''0''"
  shows "digits_val raw < 2 ^ 64 \<longleftrightarrow> length raw \<le> 16"
proof (cases "length raw \<le> 16")
  case True
  then show ?thesis using digits_val_bound [OF assms(1)] sixteen_pow [of "length raw"] by linarith
next
  case False
  then obtain c cs where r: "raw = c # cs" "16 \<le> length cs" by (cases raw) auto
  have "c \<noteq> CHR ''0''" "hexdigit c" using assms r False by auto
  then have "decodeNibble c \<noteq> 0" by (simp add: nibble_zero)
  then have "1 \<le> unat (decodeNibble c)" by (simp add: Suc_le_eq unat_gt_0)
  moreover have "(16 :: nat) ^ 16 \<le> 16 ^ length cs" using r(2) by (intro power_increasing) simp_all
  ultimately have "1 * 16 ^ 16 \<le> unat (decodeNibble c) * 16 ^ length cs" by (rule mult_le_mono)
  then show ?thesis using r False by simp
qed

section \<open>Properties\<close>

lemma has0x [simp]: "has0xPrefix (CHR ''0'' # CHR ''x'' # cs)" "bytesHave0xPrefix (CHR ''0'' # CHR ''x'' # cs)"
  by (simp_all add: has0xPrefix_def bytesHave0xPrefix_def)

lemma checkNumber_digits: "checkNumber (''0x'' @ hex_digits n) = Inr (hex_digits n)"
proof -
  have "\<not> (1 < length (hex_digits n) \<and> hex_digits n ! 0 = CHR ''0'')"
    by (subst (1) hex_digits.simps) (simp add: hex_digits_facts)
  then show ?thesis by (simp add: checkNumber_def Let_def hex_digits_facts(3))
qed

text \<open>C18: what the hexadecimal encoders write, the decoders read back: byte strings, 64-bit numbers, and big
  integers of up to 256 bits. A larger one is refused, and so is a negative one, whose encoding starts with
  a sign.\<close>

theorem hex_roundtrips:
  "hexutil_Decode (hexutil_Encode b) = Inr b
   \<and> DecodeUint64 (EncodeUint64 i) = Inr i
   \<and> DecodeBig (EncodeBig n) = (if n < 0 then Inl ErrMissingPrefix else if n < 2 ^ 256 then Inr n else Inl ErrBig256Range)"
proof (intro conjI)
  show "hexutil_Decode (hexutil_Encode b) = Inr b" by (simp add: hexutil_Decode_def hexutil_Encode_def hex_Decode_bytes)
  have "ParseUint16 (hex_digits (unat i)) = Inr i"
    using unsigned_less [of i] by (simp add: ParseUint16_iff hex_digits_facts)
  then show "DecodeUint64 (EncodeUint64 i) = Inr i"
    using checkNumber_digits [of "unat i"] by (simp add: DecodeUint64_def EncodeUint64_def)
  consider "n < 0" | "n = 0" | "0 < n" by linarith
  then show "DecodeBig (EncodeBig n) = (if n < 0 then Inl ErrMissingPrefix else if n < 2 ^ 256 then Inr n else Inl ErrBig256Range)"
  proof cases
    case 1
    then show ?thesis by (simp add: DecodeBig_def EncodeBig_def checkNumber_def has0xPrefix_def)
  next
    case 2
    have "decodeNibble (CHR ''0'') = 0" by (simp add: decodeNibble_def)
    then have "big_of_digits ''0'' = Inr 0" by (simp add: big_of_digits_iff)
    then show ?thesis using 2 by (simp add: DecodeBig_def EncodeBig_def checkNumber_def)
  next
    case 3
    have "length (hex_digits (nat n)) \<le> 64 \<longleftrightarrow> n < 2 ^ 256"
      using length_hex_digits [of 64 "nat n"] 3 by (simp add: nat_less_iff)
    moreover have "big_of_digits (hex_digits (nat n)) = Inr n" if "length (hex_digits (nat n)) \<le> 64"
      using that 3 by (simp add: big_of_digits_iff hex_digits_facts)
    moreover have "big_of_digits (hex_digits (nat n)) = Inl ErrBig256Range" if "\<not> length (hex_digits (nat n)) \<le> 64"
      using that by (simp add: big_of_digits_def)
    ultimately show ?thesis using 3 checkNumber_digits [of "nat n"] by (simp add: DecodeBig_def EncodeBig_def)
  qed
qed

lemma checkNumberText_eq: "input \<noteq> [] \<Longrightarrow> checkNumberText input = checkNumber input"
  by (simp add: checkNumberText_def checkNumber_def has0xPrefix_def bytesHave0xPrefix_def)

lemma checkNumber_ok: "checkNumber input = Inr raw \<Longrightarrow> raw \<noteq> [] \<and> (length raw = 1 \<or> raw ! 0 \<noteq> CHR ''0'')"
  by (auto simp: checkNumber_def Let_def split: if_splits)

lemma big_word_iff:
  assumes "length raw \<le> 16"
  shows "big_word_loop raw 0 = Inr v \<longleftrightarrow> (\<forall>c \<in> set raw. hexdigit c) \<and> v = of_nat (digits_val raw)"
proof (cases "\<forall>c \<in> set raw. hexdigit c")
  case True
  then have "digits_val raw < 2 ^ 64" using digits_val_bound [OF True] sixteen_pow [OF assms] by linarith
  then show ?thesis using big_word_digits [OF True, of 0] True by auto
next
  case False
  then show ?thesis using big_word_bad [of raw 0] by auto
qed

lemma uint_eq_int: "uint (v :: uint64) = int d \<longleftrightarrow> d < 2 ^ 64 \<and> v = of_nat d"
proof
  assume u: "uint v = int d"
  then have "unat v = d" by (metis nat_int unat_eq_nat_uint)
  moreover have "unat v < 2 ^ 64" using unsigned_less [of v] by simp
  ultimately show "d < 2 ^ 64 \<and> v = of_nat d" by auto
next
  assume "d < 2 ^ 64 \<and> v = of_nat d"
  then show "uint v = int d" by (simp add: unsigned_of_nat take_bit_nat_eq_self)
qed

lemma Uint_None: "Uint_UnmarshalText b input = (None, v) \<longleftrightarrow> Uint64_UnmarshalText 0 input = (None, v)"
proof -
  have "\<not> (u64 :: uint64) > - 1" for u64 by (simp add: not_less)
  moreover obtain r u64 where "Uint64_UnmarshalText 0 input = (r, u64)" by fastforce
  ultimately show ?thesis by (cases r) (simp_all add: Uint_UnmarshalText_def)
qed


lemma uint_numeral_255: "uint (255 :: uint64) = 255"
  by simp


lemma fixed_text_error: "fst (fixed_text wp ty input out) = None \<or> snd (fixed_text wp ty input out) = out"
  by (auto simp: fixed_text_def split: sum.splits if_splits)

lemma fixed_text_bytes:
  assumes "length bs = length out"
  shows "fixed_text wp ty (Bytes_MarshalText bs) out = (None, bs)"
proof -
  have d: "hex_Decode (concat (map hex_byte bs)) = Inr bs" by (rule hex_Decode_bytes)
  then have "\<forall>c \<in> set (concat (map hex_byte bs)). hexdigit c" "length (concat (map hex_byte bs)) = 2 * length bs"
    using hex_Decode_ok by blast+
  moreover have "checkText (Bytes_MarshalText bs) wp = Inr (concat (map hex_byte bs))"
    using calculation(2) by (simp add: Bytes_MarshalText_def checkText_def)
  moreover have "\<not> list_ex (\<lambda>c. decodeNibble c = badNibble) (concat (map hex_byte bs))"
    using calculation(1) by (simp only: list_ex_iff) blast
  ultimately show ?thesis using d assms by (simp add: fixed_text_def)
qed

lemma Hash_bytes_inverse: "Hash_of_bytes (Hash_ToBytes h) = h" "Address_of_bytes (Address_ToBytes a) = a"
  by (simp_all add: Hash_of_bytes_def Hash_ToBytes_def Address_of_bytes_def Address_ToBytes_def bytes_val_word_full)

lemma fixed_json_text:
  assumes "UnmarshalFixedText ty cs out = (None, out')"
  shows "UnmarshalFixedJSON ty (CHR 34 # cs @ [CHR 34]) out = (None, out')"
proof -
  have "isString (CHR 34 # cs @ [CHR 34])" "unquoted (CHR 34 # cs @ [CHR 34]) = cs"
    by (simp_all add: isString_def unquoted_def nth_append)
  then show ?thesis using assms by (simp add: UnmarshalFixedJSON_def wrapTypeError_def)
qed

lemma fixed_json_error: "fst (UnmarshalFixedJSON ty input out) = None \<or> snd (UnmarshalFixedJSON ty input out) = out"
  using fixed_text_error [of True ty "unquoted input" out]
  by (auto simp: UnmarshalFixedJSON_def UnmarshalFixedText_def wrapTypeError_def split: prod.splits option.splits)

text \<open>C21: the text and JSON forms of hashes and addresses are read back as written, whatever value the
  receiver held, and an input that is refused leaves the receiver unchanged.\<close>

theorem hash_text_roundtrip:
  "Hash_UnmarshalText h' (Hash_MarshalText h) = (None, h)
   \<and> Hash_UnmarshalJSON h' (CHR 34 # Hash_MarshalText h @ [CHR 34]) = (None, h)
   \<and> Address_UnmarshalText a' (Address_MarshalText a) = (None, a)
   \<and> Address_UnmarshalJSON a' (CHR 34 # Address_MarshalText a @ [CHR 34]) = (None, a)
   \<and> (fst (Hash_UnmarshalText h input) = None \<or> snd (Hash_UnmarshalText h input) = h)
   \<and> (fst (Hash_UnmarshalJSON h input) = None \<or> snd (Hash_UnmarshalJSON h input) = h)
   \<and> (fst (Address_UnmarshalText a input) = None \<or> snd (Address_UnmarshalText a input) = a)
   \<and> (fst (Address_UnmarshalJSON a input) = None \<or> snd (Address_UnmarshalJSON a input) = a)"
proof -
  have "length (Hash_ToBytes h) = length (Hash_ToBytes h')" "length (Address_ToBytes a) = length (Address_ToBytes a')"
    by (simp_all add: Hash_ToBytes_def Address_ToBytes_def)
  then have f: "UnmarshalFixedText ty (Hash_MarshalText h) (Hash_ToBytes h') = (None, Hash_ToBytes h)"
    "UnmarshalFixedText ty (Address_MarshalText a) (Address_ToBytes a') = (None, Address_ToBytes a)" for ty
    by (simp_all add: UnmarshalFixedText_def Hash_MarshalText_def Address_MarshalText_def fixed_text_bytes)
  have e: "fst (UnmarshalFixedText ty input out) = None \<or> snd (UnmarshalFixedText ty input out) = out" for ty input out
    unfolding UnmarshalFixedText_def by (rule fixed_text_error)
  show ?thesis
    unfolding Hash_UnmarshalText_def Hash_UnmarshalJSON_def Address_UnmarshalText_def Address_UnmarshalJSON_def
      f fixed_json_text [OF f(1)] fixed_json_text [OF f(2)] prod.case Hash_bytes_inverse case_prod_unfold fst_conv snd_conv
    by (intro conjI refl; metis e fixed_json_error Hash_bytes_inverse)
qed

lemma Address_Hex_inject: "Address_Hex a = Address_Hex b \<longleftrightarrow> a = b"
proof
  assume "Address_Hex a = Address_Hex b"
  then have "hex_Decode (drop 2 (Address_Hex a)) = hex_Decode (drop 2 (Address_Hex b))" by simp
  then have "Address_ToBytes a = Address_ToBytes b" by (simp add: Address_Hex_def hexutil_Encode_def hex_Decode_bytes)
  then show "a = b" using Hash_bytes_inverse(2) by metis
qed simp

end
