(* ===== verification/PoolProps.thy ===== *)
theory PoolProps
  imports PoolSteps Hexutil
begin

text \<open>
  The properties of the transaction pool of \<^verbatim>\<open>src/core/tx_pool.go\<close>, and a pool over the sample DAG in which
  a transaction is accepted and then confirmed.
\<close>

section \<open>A concrete pool\<close>

definition sample_pool_orders :: pool_orders where
  "sample_pool_orders = \<lparr>ordElders = rev, ordDetails = rev, ordPush = sample_orders\<rparr>"

definition sample_pool :: TxPool where
  "sample_pool = pool_Init (NewTxPool DefaultTxPoolConfig sample_dag) sample_genesis"

definition sample_event :: txEnvelope where
  "sample_event = new_event (TxiTx sample_tx) TxTypeLocal"

definition sample_confirm :: txEnvelope where
  "sample_confirm = new_event (TxiSeq sample_seq) TxTypeLocal"

definition sample_flow :: AccountFlow where
  "sample_flow = \<lparr>balance = \<lparr>spent = 30, originBalance = 100\<rparr>,
     txlist = \<lparr>keys = [1], txflow = [1 \<mapsto> TxiTx sample_tx]\<rparr>\<rparr>"

definition sample_pool1 :: TxPool where
  "sample_pool1 = sample_pool\<lparr>
     txLookup := \<lparr>lkOrder = [7], lkTxs = [(7, \<lparr>envTx = TxiTx sample_tx, envTxType = TxTypeLocal, envStatus = TxStatusTip\<rparr>)]\<rparr>,
     tips := \<lparr>tmTxs = [(7, TxiTx sample_tx)]\<rparr>, flows := \<lparr>afs = [5 \<mapsto> sample_flow]\<rparr>, txNum := 1, maxWeight := 1\<rparr>"

lemma sample_empty_db: "get_data (ddb sample_dag) k = []"
  by (simp add: sample_dag_def NewMemDatabase_def get_data_kv)

lemma sample_unread: "Dag_getTxByNonce sample_dag a n = Some None" "ReadTransaction (dcodec sample_dag) (ddb sample_dag) h = Some None"
  by (simp_all add: Dag_getTxByNonce_def ReadTxByNonce_def ReadTransaction_def sample_empty_db Let_def)

lemma sample_node_inv: "node_inv sample_pool_orders sample_pool"
  unfolding sample_pool_def
proof (rule pool_Init_inv [OF sample_dag_inv])
  show "db_wf (ddb sample_dag)" by (simp add: db_wf_def slot_ok_def sample_empty_db split: dbkey.splits)
  show "orders_ok sample_pool_orders sample_dag"
    using sample_services by (simp add: orders_ok_def sample_pool_orders_def)
  show "TypeOf sample_genesis = TxBaseTypeSequencer" by (simp add: sample_genesis_def)
qed

lemmas lookup_eval = lookup_add_def lookup_remove_def switchstatus_def newTxLookUp_def Let_def
lemmas map_eval = TxMap_Add_def TxMap_Remove_def TxMap_Get_def NewTxMap_def
lemmas flow_eval = AccountFlows_Get_def AccountFlows_ResetFlow_def AccountFlows_Add_def AccountFlows_GetTxByNonce_def
  AccountFlows_GetBalanceState_def NewAccountFlows_def NewAccountFlow_def AccountFlow_Add_def AccountFlow_GetTx_def
  NewBalanceState_def TrySubBalance_def NewTxList_def TxList_get_def TxList_put_def heap_Push_def nonceHeap_Push_def

lemma sample_fields [simp]:
  "HashOf sample_tx = 7" "ParentsHash sample_tx = [1]" "AccountNonce sample_tx = 1" "From sample_tx = 5" "To sample_tx = 6"
  "Value sample_tx = 30" "TypeOf sample_tx = 0" "Weight sample_tx = 1" "Height sample_tx = 1"
  "HashOf sample_genesis = 1" "TypeOf sample_genesis = 1" "Height sample_genesis = 0"
  "HashOf sample_seq = 8" "ParentsHash sample_seq = [7]" "AccountNonce sample_seq = 1" "Issuer sample_seq = 9"
  "TypeOf sample_seq = 1" "Height sample_seq = 1"
  by (simp_all add: sample_tx_def sample_genesis_def sample_seq_def)

lemma sample_pool_fields:
  "txLookup sample_pool = \<lparr>lkOrder = [1], lkTxs = [(1, \<lparr>envTx = TxiSeq sample_genesis, envTxType = TxTypeGenesis, envStatus = TxStatusTip\<rparr>)]\<rparr>"
  "tips sample_pool = \<lparr>tmTxs = [(1, TxiSeq sample_genesis)]\<rparr>" "badtxs sample_pool = \<lparr>tmTxs = []\<rparr>"
  "pendings sample_pool = \<lparr>tmTxs = []\<rparr>" "flows sample_pool = NewAccountFlows" "pdag sample_pool = sample_dag"
  "txNum sample_pool = 0" "maxWeight sample_pool = 0"
  by (simp_all add: sample_pool_def pool_Init_def NewTxPool_def lookup_eval map_eval)

definition sample_judging :: TxPool where
  "sample_judging = sample_pool\<lparr>txLookup := lookup_add (txLookup sample_pool) sample_event\<rparr>"

lemma sample_judging_fields:
  "txLookup sample_judging = \<lparr>lkOrder = [1, 7], lkTxs = [(1, \<lparr>envTx = TxiSeq sample_genesis, envTxType = TxTypeGenesis, envStatus = TxStatusTip\<rparr>),
     (7, \<lparr>envTx = TxiTx sample_tx, envTxType = TxTypeLocal, envStatus = TxStatusQueue\<rparr>)]\<rparr>"
  "tips sample_judging = \<lparr>tmTxs = [(1, TxiSeq sample_genesis)]\<rparr>" "badtxs sample_judging = \<lparr>tmTxs = []\<rparr>"
  "pendings sample_judging = \<lparr>tmTxs = []\<rparr>" "flows sample_judging = NewAccountFlows" "pdag sample_judging = sample_dag"
  "txNum sample_judging = 0" "maxWeight sample_judging = 0"
  by (simp_all add: sample_judging_def sample_pool_fields lookup_eval sample_event_def new_event_def)

lemma sample_good: "isBadTx sample_judging sample_tx = Some TxQualityIsGood"
  by (simp add: isBadTx_def pool_get_eq getStatus_eq sample_judging_fields flow_eval sample_unread balance_state_def
      sample_balance Let_def)

lemma sample_commit:
  "pool_commit sample_judging sample_tx = (None, sample_pool1\<lparr>txNum := 0, maxWeight := 0\<rparr>)"
  by (simp add: pool_commit_def sample_good settle_parent_def getStatus_eq open_flow_def sample_judging_fields lookup_eval
      map_eval flow_eval sample_balance sample_pool1_def sample_flow_def)
    (simp add: heap_up.simps sample_judging_def sample_pool_def pool_Init_def NewTxPool_def)

lemma sample_step: "loop_event sample_pool_orders sample_pool sample_event = (None, sample_pool1)"
proof -
  have "pool_get sample_pool 7 = None" by (simp add: pool_get_eq sample_pool_fields)
  moreover have "assign_height sample_pool1 7 1 = sample_pool1"
    by (simp add: assign_height_def sample_pool1_def sample_flow_def with_height_def map_TxMap_def Let_def
        fun_eq_iff sample_pool_def pool_Init_def NewTxPool_def NewTxMap_def)
  moreover have "raise_maxWeight (sample_pool1\<lparr>maxWeight := 0, txNum := 1\<rparr>) 1 = sample_pool1"
    by (simp add: raise_maxWeight_def) (simp add: sample_pool1_def)
  moreover have "latestSequencer (pdag sample_pool1) = Some sample_genesis"
    by (simp add: sample_pool1_def sample_pool_fields sample_dag_def)
  ultimately show ?thesis
    using sample_commit
    by (simp add: loop_event_def sample_event_def new_event_def Let_def sample_judging_def)
qed


lemma sample_good_event: "good_event sample_pool sample_event" "good_event sample_pool1 sample_confirm"
proof -
  show "good_event sample_pool sample_event"
    using sample_tx_codec
    by (simp add: good_event_def sample_event_def new_event_def storable_any_def plain_def sample_pool_fields pool_get_eq TxMap_Get_def)
      (simp add: sample_dag_def sample_tx_def)
  show "good_event sample_pool1 sample_confirm"
    by (simp add: good_event_def sample_confirm_def new_event_def sample_pool1_def sample_pool_fields sample_dag_def)
      (simp add: tx_codec_at_def codec_at_def sample_codec_def)
qed

lemma sample_pool1_inv: "node_inv sample_pool_orders sample_pool1"
  using loop_event_inv [OF sample_node_inv sample_good_event(1)] by (simp add: sample_step)

section \<open>Reachable pools\<close>

lemma finite_accepted: "finite {t. accepted p (TxiTx t)}"
proof -
  have "{t. accepted p (TxiTx t)} \<subseteq> (\<lambda>h. case map_option envTx (envs p h) of Some (TxiTx t) \<Rightarrow> t) ` dom (envs p)"
  proof
    fix t assume "t \<in> {t. accepted p (TxiTx t)}"
    then obtain e where "envs p (HashOf t) = Some e" "envTx e = TxiTx t" by (auto simp: accepted_def accepted_env_def)
    then show "t \<in> (\<lambda>h. case map_option envTx (envs p h) of Some (TxiTx t) \<Rightarrow> t) ` dom (envs p)"
      by (intro image_eqI [of _ _ "HashOf t"]) auto
  qed
  then show ?thesis by (rule finite_subset) (simp add: finite_dom_map_of)
qed


text \<open>C8: serving a queued event in a reachable pool never panics and restores the invariant, also when the
  event is refused.\<close>

theorem reachable_no_panic:
  assumes "dag_inv dag" "db_wf (ddb dag)" "orders_ok ords dag" "TypeOf gen = TxBaseTypeSequencer"
    and "(pool_step ords)\<^sup>*\<^sup>* (pool_Init (NewTxPool conf dag) gen) p" "queue p = e # es" "good_event p e"
  shows "\<not> is_panic (fst (loop_event ords p e)) \<and> pool_ok (snd (loop_event ords p e))"
  using loop_event_inv [OF reachable_inv [OF assms(5) pool_Init_inv [OF assms(1-4)]] assms(7)]
  by (simp add: node_inv_def node_ok_def)

lemma sample_submitted: "pool_step sample_pool_orders sample_pool (sample_pool\<lparr>queue := [sample_event]\<rparr>)"
proof -
  have "queue sample_pool = []" "QueueSize (pconf sample_pool) = 100"
    by (simp_all add: sample_pool_def pool_Init_def NewTxPool_def DefaultTxPoolConfig_def)
  then show ?thesis
    using pool_step.submit [of sample_pool sample_pool_orders "TxiTx sample_tx" TxTypeLocal] by (simp add: sample_event_def)
qed

lemma sample_served: "pool_step sample_pool_orders (sample_pool\<lparr>queue := [sample_event]\<rparr>) sample_pool1"
proof -
  have "good_event (sample_pool\<lparr>queue := [sample_event]\<rparr>) sample_event"
    using sample_good_event(1) good_event_cong [of "sample_pool\<lparr>queue := [sample_event]\<rparr>" sample_pool] by simp
  moreover have "sample_pool\<lparr>queue := []\<rparr> = sample_pool" by (simp add: sample_pool_def pool_Init_def NewTxPool_def)
  ultimately show ?thesis
    using pool_step.serve [of "sample_pool\<lparr>queue := [sample_event]\<rparr>" sample_event "[]" sample_pool_orders] by (simp add: sample_step)
qed

lemma sample_reached: "(pool_step sample_pool_orders)\<^sup>*\<^sup>* sample_pool sample_pool1"
  using sample_submitted sample_served by (meson converse_rtranclp_into_rtranclp r_into_rtranclp)

lemma sample_node:
  "dag_inv sample_dag" "db_wf (ddb sample_dag)" "orders_ok sample_pool_orders sample_dag" "TypeOf sample_genesis = TxBaseTypeSequencer"
  using sample_node_inv by (simp_all add: node_inv_def node_ok_def sample_pool_fields)


theorem reachable_no_panic_witness:
  "\<not> is_panic (fst (loop_event sample_pool_orders (sample_pool\<lparr>queue := [sample_event]\<rparr>) sample_event))"
proof -
  have "(pool_step sample_pool_orders)\<^sup>*\<^sup>* (pool_Init (NewTxPool DefaultTxPoolConfig sample_dag) sample_genesis) (sample_pool\<lparr>queue := [sample_event]\<rparr>)"
    using sample_submitted by (simp add: sample_pool_def)
  moreover have "good_event (sample_pool\<lparr>queue := [sample_event]\<rparr>) sample_event"
    using sample_good_event(1) good_event_cong [of "sample_pool\<lparr>queue := [sample_event]\<rparr>" sample_pool] by simp
  ultimately show ?thesis using reachable_no_panic [OF sample_node, of DefaultTxPoolConfig _ sample_event "[]"] by simp
qed

section \<open>Confirming a sequencer\<close>

lemma confirm_event:
  assumes "node_inv ords p" "good_event p e" "envTx e = TxiSeq s" "loop_event ords p e = (None, q)"
  obtains q' where "confirming ords (p\<lparr>txLookup := lookup_add (txLookup p) e\<rparr>) s"
    "pool_confirm ords (p\<lparr>txLookup := lookup_add (txLookup p) e\<rparr>) s = (None, q')"
    "q = raise_maxWeight (q'\<lparr>txNum := 0\<rparr>) (Weight s)"
proof -
  have f: "pool_get p (HashOf s) = None" using assms(3,4) by (auto simp: loop_event_def split: if_splits)
  then show ?thesis
    using that confirming_start [OF assms(1,2,3)] assms(3,4)
    by (auto simp: loop_event_def Let_def split: prod.splits option.splits)
qed

lemma confirm_passes:
  assumes "node_inv ords p" "good_event p e" "envTx e = TxiSeq s" "pool_get p (HashOf s) = None"
    and p1: "p1 = p\<lparr>txLookup := lookup_add (txLookup p) e\<rparr>"
    and "isBadSeq p1 s = None" "seekElders p1 (TxiSeq s) = Inr elders" "verifyConfirmBatch ords p1 s elders = Inr batch"
    and "latestSequencer (pdag p) = Some latest" "Height s = Height latest + 1"
  obtains q where "confirming ords p1 s" "pool_confirm ords p1 s = (None, q)"
    "loop_event ords p e = (None, raise_maxWeight (q\<lparr>txNum := 0\<rparr>) (Weight s))"
proof -
  have c: "confirming ords p1 s" using confirming_start [OF assms(1-4)] p1 by simp
  obtain q where q: "pool_confirm ords p1 s = (None, q)"
    using confirm_no_failure [OF c assms(6-8)] assms(9,10) p1 by auto
  then have "loop_event ords p e = (None, raise_maxWeight (q\<lparr>txNum := 0\<rparr>) (Weight s))"
    using assms(3,4) p1 by (simp add: loop_event_def Let_def)
  then show ?thesis using that c q by blast
qed

text \<open>C7: a sequencer that passes the checks of the pool and carries the next height is confirmed: the
  event succeeds, the sequencer becomes the latest one of the DAG, all its elders leave the pool, and the
  invariant holds again.\<close>

theorem confirm_succeeds:
  assumes "node_inv ords p" "good_event p e" "envTx e = TxiSeq s" "pool_get p (HashOf s) = None"
    and p1: "p1 = p\<lparr>txLookup := lookup_add (txLookup p) e\<rparr>"
    and "isBadSeq p1 s = None" "seekElders p1 (TxiSeq s) = Inr elders" "verifyConfirmBatch ords p1 s elders = Inr batch"
    and "latestSequencer (pdag p) = Some latest" "Height s = Height latest + 1"
  shows "\<exists>q. loop_event ords p e = (None, q) \<and> latestSequencer (pdag q) = Some s \<and> txNum q = 0 \<and> node_inv ords q
     \<and> (\<forall>h. map_of elders h \<noteq> None \<longrightarrow> pool_get q h = None)"
proof -
  obtain q where c: "confirming ords p1 s" and q: "pool_confirm ords p1 s = (None, q)"
    and l: "loop_event ords p e = (None, raise_maxWeight (q\<lparr>txNum := 0\<rparr>) (Weight s))"
    using confirm_passes [OF assms] .
  let ?q = "raise_maxWeight (q\<lparr>txNum := 0\<rparr>) (Weight s)"
  have "node_inv ords ?q" using loop_event_inv [OF assms(1,2)] l by simp
  moreover have "txNum ?q = 0" by (simp add: raise_maxWeight_def)
  moreover have "pool_get ?q h = None" if "map_of elders h \<noteq> None" for h
    using confirm_effects(2) [OF c q assms(7) that] by (simp add: pool_get_eq)
  ultimately show ?thesis using l confirm_effects(1) [OF c q assms(7)] by auto
qed


definition sample_seeking :: TxPool where
  "sample_seeking = sample_pool1\<lparr>txLookup := lookup_add (txLookup sample_pool1) sample_confirm\<rparr>"

lemma sample_seeking_fields:
  "txLookup sample_seeking = \<lparr>lkOrder = [7, 8], lkTxs = [(7, \<lparr>envTx = TxiTx sample_tx, envTxType = TxTypeLocal, envStatus = TxStatusTip\<rparr>),
     (8, \<lparr>envTx = TxiSeq sample_seq, envTxType = TxTypeLocal, envStatus = TxStatusQueue\<rparr>)]\<rparr>"
  "pdag sample_seeking = sample_dag"
  by (simp_all add: sample_seeking_def sample_pool1_def sample_pool_fields lookup_eval sample_confirm_def new_event_def)

lemma sample_elders: "seekElders sample_seeking (TxiSeq sample_seq) = Inr [(7, TxiTx sample_tx)]"
proof -
  have "Dag_getTx sample_dag 1 = Some (Some (TxiSeq sample_genesis))"
    by (simp add: Dag_getTx_def sample_dag_def txcached_get_def)
  then show ?thesis by (simp add: seekElders_def pool_get_eq sample_seeking_fields)
qed

lemma sample_nonce: "Dag_getLatestNonce sample_dag 5 = Inr 0"
proof -
  have o: "obj sample_sd 5 = Some (with_balance (cur (fresh_sd\<lparr>env := sample_env1\<rparr>) 5) 100)"
    by (simp add: sample_sd_def obj_setBalance)
  have "nonce_of sample_sd 5 = 0" "has_account sample_sd 5"
    unfolding nonce_of_def cur_def has_account_def o
    by (simp_all add: cur_def obj_def fresh_sd_def trie_load_def empty_trie_def NewStateObject_def)
  then show ?thesis by (simp add: Dag_getLatestNonce_def Exist_eq GetNonce_eq sample_dag_def)
qed

lemma heap_up_single [simp]: "heap_up [x] 0 = [x]"
  by (simp add: heap_up.simps)

lemma sample_verified: "\<exists>batch. verifyConfirmBatch sample_pool_orders sample_seeking sample_seq [(7, TxiTx sample_tx)] = Inr batch"
  by (simp add: verifyConfirmBatch_def sample_pool_orders_def add_to_batch_def detail_of_def new_detail_def flow_eval Let_def
      sample_seeking_fields verifyNonce_def sample_nonce sample_balance
      Address_Hex_inject)

lemma sample_latest: "latestSequencer sample_dag = Some sample_genesis"
  by (simp add: sample_dag_def)

lemma sample_passes:
  obtains batch where "verifyConfirmBatch sample_pool_orders sample_seeking sample_seq [(7, TxiTx sample_tx)] = Inr batch"
    "isBadSeq sample_seeking sample_seq = None" "pool_get sample_pool1 (HashOf sample_seq) = None" "envTx sample_confirm = TxiSeq sample_seq"
    "latestSequencer (pdag sample_pool1) = Some sample_genesis" "Height sample_seq = Height sample_genesis + 1"
proof -
  obtain batch where b: "verifyConfirmBatch sample_pool_orders sample_seeking sample_seq [(7, TxiTx sample_tx)] = Inr batch"
    using sample_verified by blast
  show ?thesis
    by (rule that [OF b])
      (simp_all add: isBadSeq_def sample_seeking_fields sample_unread pool_get_eq sample_pool1_def sample_confirm_def new_event_def
        sample_pool_fields sample_latest)
qed

theorem confirm_succeeds_witness:
  "\<exists>q. loop_event sample_pool_orders sample_pool1 sample_confirm = (None, q) \<and> latestSequencer (pdag q) = Some sample_seq
     \<and> pool_get q 7 = None"
proof -
  obtain batch where b: "verifyConfirmBatch sample_pool_orders sample_seeking sample_seq [(7, TxiTx sample_tx)] = Inr batch"
    and c: "isBadSeq sample_seeking sample_seq = None" "pool_get sample_pool1 (HashOf sample_seq) = None"
    "envTx sample_confirm = TxiSeq sample_seq" "latestSequencer (pdag sample_pool1) = Some sample_genesis"
    "Height sample_seq = Height sample_genesis + 1" using sample_passes .
  obtain q where q: "loop_event sample_pool_orders sample_pool1 sample_confirm = (None, q)" "latestSequencer (pdag q) = Some sample_seq"
    and "\<forall>h. map_of [(7, TxiTx sample_tx)] h \<noteq> None \<longrightarrow> pool_get q h = None"
    using confirm_succeeds [OF sample_pool1_inv sample_good_event(2) c(3,2) sample_seeking_def c(1) sample_elders b c(4,5)] by blast
  then have "pool_get q 7 = None" by simp
  then show ?thesis using q by blast
qed


section \<open>Elders, nonces and tips\<close>

text \<open>C9: the search for elders always ends. It succeeds exactly when every hash that is reachable over parent
  links through pooled transactions is in the pool or in the DAG, and then the elders are exactly the pooled
  transactions among them.\<close>

theorem seekElders_exact:
  assumes "node_inv ords p"
  shows "((\<exists>elders. seekElders p base = Inr elders) \<longleftrightarrow> (\<forall>h. sought p base h \<longrightarrow> pool_get p h \<noteq> None \<or> in_dag p h))
     \<and> (\<forall>elders h. seekElders p base = Inr elders \<longrightarrow> map_of elders h = (if sought p base h then pool_get p h else None))"
proof -
  have lk: "lookup_ok (txLookup p)" using assms by (simp add: node_inv_def node_ok_def pool_inv_parts)
  then show ?thesis using seekElders_ok(2,3) [OF lk] seekElders_total [OF lk] by blast
qed

theorem seekElders_exact_witness:
  "(\<exists>elders. seekElders sample_pool1 (TxiSeq sample_seq) = Inr elders) \<and> sought sample_pool1 (TxiSeq sample_seq) 1"
proof -
  have get: "pool_get sample_pool1 h = (if h = 7 then Some (TxiTx sample_tx) else None)" for h
    by (simp add: pool_get_eq sample_pool1_def)
  have s: "sought sample_pool1 (TxiSeq sample_seq) h \<longleftrightarrow> h = 7 \<or> h = 1" for h
  proof
    show "sought sample_pool1 (TxiSeq sample_seq) h \<Longrightarrow> h = 7 \<or> h = 1"
      by (induction rule: sought.induct) (auto simp: get split: if_splits)
    have "sought sample_pool1 (TxiSeq sample_seq) 7" by (rule sought_base) simp
    moreover from this have "sought sample_pool1 (TxiSeq sample_seq) 1" by (rule sought_step [where t = "TxiTx sample_tx"]) (simp_all add: get)
    ultimately show "h = 7 \<or> h = 1 \<Longrightarrow> sought sample_pool1 (TxiSeq sample_seq) h" by blast
  qed
  have "in_dag sample_pool1 1"
    by (simp add: in_dag_def sample_pool1_def sample_pool_fields Dag_getTx_def sample_dag_def txcached_get_def)
  then show ?thesis using seekElders_exact [OF sample_pool1_inv, of "TxiSeq sample_seq"] s get by auto
qed

lemma nonce_gap_None: "nonce_gap ns = None \<longleftrightarrow> (\<forall>i. Suc i < length ns \<longrightarrow> ns ! Suc i = ns ! i + 1)"
proof (induction ns rule: nonce_gap.induct)
  case (1 m n ns)
  then show ?case by (auto simp: nth_Cons split: nat.splits)
qed simp_all

lemma consecutive_nth:
  fixes ns :: "uint64 list"
  assumes "\<forall>i. Suc i < length ns \<longrightarrow> ns ! Suc i = ns ! i + 1" "i < length ns"
  shows "ns ! i = ns ! 0 + of_nat i"
  using assms(2)
proof (induction i)
  case (Suc i)
  then show ?case using assms(1) by (simp add: ac_simps)
qed simp

definition next_nonce :: "Dag \<Rightarrow> Address \<Rightarrow> uint64" where
  "next_nonce dag addr = (case Dag_getLatestNonce dag addr of Inl _ \<Rightarrow> 0 | Inr n \<Rightarrow> n + 1)"

lemma consecutive_iff:
  fixes ns :: "uint64 list"
  assumes "ns \<noteq> []"
  shows "ns ! 0 = s \<and> nonce_gap ns = None \<longleftrightarrow> ns = map (\<lambda>i. s + of_nat i) [0..<length ns]"
proof
  assume a: "ns ! 0 = s \<and> nonce_gap ns = None"
  then have "ns ! i = s + of_nat i" if "i < length ns" for i
    unfolding nonce_gap_None using consecutive_nth [OF _ that] by blast
  then show "ns = map (\<lambda>i. s + of_nat i) [0..<length ns]" by (intro nth_equalityI) simp_all
next
  assume m: "ns = map (\<lambda>i. s + of_nat i) [0..<length ns]"
  have n: "ns ! i = s + of_nat i" if "i < length ns" for i
    using arg_cong [OF m, of "\<lambda>xs. xs ! i"] that by simp
  have "ns ! Suc i = ns ! i + 1" if "Suc i < length ns" for i
    using n [of i] n [OF that] that by (simp add: add.commute add.left_commute)
  then show "ns ! 0 = s \<and> nonce_gap ns = None" using assms n [of 0] by (simp add: nonce_gap_None)
qed

lemma verifyNonce_parts:
  "verifyNonce p addr nonces seq = Inr result \<longleftrightarrow>
     (sort nonces ! 0 = next_nonce (pdag p) addr \<and> nonce_gap (sort nonces) = None)
     \<and> (Issuer seq \<noteq> addr \<or> AccountNonce seq = last (sort nonces) + 1) \<and> result = sort nonces"
proof (cases "nonce_gap (sort nonces)")
  case None
  then show ?thesis
    by (cases "Dag_getLatestNonce (pdag p) addr") (auto simp: verifyNonce_def Let_def next_nonce_def Address_Hex_inject)
next
  case (Some gap)
  then show ?thesis
    by (cases "Dag_getLatestNonce (pdag p) addr"; cases gap) (simp_all add: verifyNonce_def Let_def)
qed

text \<open>C17: the nonces of an account in a batch pass exactly when they follow one another without a gap from the
  confirmed nonce on (from 0 for an account the state does not know), and the nonce of the sequencer follows them
  when the account is its issuer. The check sorts the nonces.\<close>

theorem verifyNonce_iff:
  assumes "nonces \<noteq> []"
  shows "verifyNonce p addr nonces seq = Inr result \<longleftrightarrow>
      sort nonces = map (\<lambda>i. next_nonce (pdag p) addr + of_nat i) [0..<length nonces] \<and> result = sort nonces
      \<and> (Issuer seq \<noteq> addr \<or> AccountNonce seq = next_nonce (pdag p) addr + of_nat (length nonces))"
proof -
  let ?ns = "sort nonces" and ?s = "next_nonce (pdag p) addr"
  have ne: "?ns \<noteq> []" using assms by (metis length_0_conv length_sort)
  have l: "last ?ns + 1 = ?s + of_nat (length nonces)" if "?ns = map (\<lambda>i. ?s + of_nat i) [0..<length nonces]"
  proof -
    obtain k where k: "length nonces = Suc k" using assms by (cases nonces) auto
    have "last ?ns = ?s + of_nat k" by (subst that) (simp add: k)
    then show ?thesis by (simp add: k)
  qed
  note c = consecutive_iff [OF ne, of ?s, unfolded length_sort]
  show ?thesis
  proof (cases "?ns = map (\<lambda>i. ?s + of_nat i) [0..<length nonces]")
    case True
    show ?thesis unfolding verifyNonce_parts c l [OF True] using True by blast
  next
    case False
    show ?thesis unfolding verifyNonce_parts c using False by blast
  qed
qed

theorem verifyNonce_iff_witness:
  "verifyNonce sample_pool 5 [2, 1] sample_seq = Inr [1, 2] \<and> verifyNonce sample_pool 5 [3, 1] sample_seq \<noteq> Inr [1, 3]"
proof -
  have n: "next_nonce (pdag sample_pool) 5 = 1" by (simp add: next_nonce_def sample_pool_fields sample_nonce)
  have s: "sort [2, 1 :: uint64] = [1, 2]" "sort [3, 1 :: uint64] = [1, 3]" by code_simp+
  have u: "map (\<lambda>i. (1 :: uint64) + of_nat i) [0..<length [a, b :: uint64]] = [1, 2]" for a b by (simp add: upt_rec)
  have "verifyNonce sample_pool 5 [2, 1] sample_seq = Inr [1, 2]"
    by (subst verifyNonce_iff) (simp_all only: n s u, simp_all)
  moreover have "verifyNonce sample_pool 5 [3, 1] sample_seq \<noteq> Inr [1, 3]"
    by (subst verifyNonce_iff) (simp_all only: n s u, simp_all)
  ultimately show ?thesis by blast
qed

section \<open>Random tips\<close>

lemma random_loop_sound:
  assumes "distinct gen" "set gen \<subseteq> {..<m}" "set draws \<subseteq> {..<m}" "random_loop cnt gen draws = Some r" "int (length gen) \<le> max cnt 0"
  shows "distinct r \<and> set r \<subseteq> {..<m} \<and> int (length r) = max cnt 0"
  using assms
proof (induction cnt gen draws rule: random_loop.induct)
  case (1 cnt gen draws)
  show ?case
  proof (cases "cnt > int (length gen)")
    case True
    then obtain i rest where d: "draws = i # rest" using 1(5) by (cases draws) (auto simp: random_loop.simps [of cnt gen])
    then have "random_loop cnt (List.insert i gen) rest = Some r" using 1(5) True by (simp add: random_loop.simps [of cnt gen])
    moreover have "int (length (List.insert i gen)) \<le> max cnt 0" using True by (simp add: List.insert_def)
    ultimately show ?thesis using 1(1) [OF True d] 1(2-4) d by simp
  next
    case False
    then show ?thesis using 1(2-6) by (simp add: random_loop.simps [of cnt gen])
  qed
qed

lemma random_loop_complete:
  assumes "{..<k} \<subseteq> set gen \<union> set draws" "cnt \<le> int k"
  shows "\<exists>r. random_loop cnt gen draws = Some r"
  using assms
proof (induction cnt gen draws rule: random_loop.induct)
  case (1 cnt gen draws)
  show ?case
  proof (cases "cnt > int (length gen)")
    case True
    have "draws \<noteq> []"
    proof
      assume "draws = []"
      then have "card {..<k} \<le> card (set gen)" using 1(2) by (intro card_mono) auto
      then show False using True 1(3) card_length [of gen] by simp
    qed
    then obtain i rest where d: "draws = i # rest" by (cases draws) auto
    then show ?thesis using 1(1) [OF True d] 1(2,3) True by (auto simp: random_loop.simps [of cnt gen])
  next
    case False
    then show ?thesis by (simp add: random_loop.simps [of cnt gen])
  qed
qed

lemma tips_distinct:
  assumes "node_inv ords p"
  shows "distinct (map snd (tmTxs (tips p)))"
proof (rule values_distinct)
  show g: "gomap_ok (tmTxs (tips p))" using assms by (simp add: node_inv_def node_ok_def pool_inv_parts)
  fix h t assume "(h, t) \<in> set (tmTxs (tips p))"
  then have t: "TxMap_Get (tips p) h = Some t" using g gomap_mem by (auto simp: TxMap_Get_def)
  have "at_point {} p h" using assms pool_inv_at by (auto simp: node_inv_def node_ok_def)
  then show "GetTxHash t = h"
    using t by (cases "envs p h") (auto simp: at_point_def point_ok_def loose_tip_def split: TxStatus.splits)
qed

text \<open>C28: picking random tips returns as soon as the draws of the generator have covered the range of tips,
  and then returns the requested number of tips, or all of them when there are fewer, without repetition.\<close>

theorem GetRandomTips_distinct:
  assumes "range_order ordT" "range_order ordI" "set draws = {..<TxMap_Count (tips p)}" "node_inv ords p"
  shows "\<exists>r. GetRandomTips ordT ordI p n draws = Some r \<and> length r = min (nat n) (TxMap_Count (tips p))
     \<and> set r \<subseteq> snd ` set (tmTxs (tips p)) \<and> distinct r"
proof -
  let ?vs = "TxMap_GetAllValues ordT (tips p)" and ?m = "TxMap_Count (tips p)"
  let ?c = "if n > int ?m then int ?m else n"
  have ro: "mset (ordT xs) = mset xs" "mset (ordI ys) = mset ys" for xs ys using assms(1,2) by (auto simp: range_order_def)
  have len: "length ?vs = ?m" using ro(1) by (metis TxMap_Count_def TxMap_GetAllValues_def length_map mset_eq_length)
  have sv: "set ?vs = snd ` set (tmTxs (tips p))" using ro(1) by (metis TxMap_GetAllValues_def list.set_map mset_eq_setD)
  obtain r where r: "random_loop ?c [] draws = Some r"
    using random_loop_complete [of ?m "[]" draws ?c] assms(3) by (cases "n > int ?m") auto
  then have f: "distinct r" "set r \<subseteq> {..<?m}" "int (length r) = max ?c 0"
    using random_loop_sound [OF _ _ _ r, of ?m] assms(3) by simp_all
  let ?i = "ordI r"
  have i: "distinct ?i" "set ?i \<subseteq> {..<?m}" "length ?i = length r"
    using f ro(2) [of r] by (metis mset_eq_imp_distinct_iff, metis mset_eq_setD, metis mset_eq_length)
  have g: "GetRandomTips ordT ordI p n draws = Some (map ((!) ?vs) ?i)"
    unfolding GetRandomTips_def generateRandomIndices_def Let_def len r by simp
  have "length (map ((!) ?vs) ?i) = min (nat n) ?m" using i(3) f(3) by (simp split: if_splits)
  moreover have "set (map ((!) ?vs) ?i) \<subseteq> snd ` set (tmTxs (tips p))"
  proof
    fix t assume "t \<in> set (map ((!) ?vs) ?i)"
    then obtain k where "t = ?vs ! k" "k < length ?vs" using i(2) len by auto
    then show "t \<in> snd ` set (tmTxs (tips p))" unfolding sv [symmetric] by simp
  qed
  moreover have "distinct (map ((!) ?vs) ?i)"
  proof -
    have "distinct (map snd (tmTxs (tips p)))" by (rule tips_distinct [OF assms(4)])
    then have "distinct ?vs" using ro(1) by (metis TxMap_GetAllValues_def mset_eq_imp_distinct_iff mset_map)
    then have "inj_on ((!) ?vs) {..<?m}" using len by (intro inj_onI) (simp add: nth_eq_iff_index_eq)
    then show ?thesis using i(1,2) by (simp add: distinct_map inj_on_subset)
  qed
  ultimately show ?thesis using g by blast
qed

theorem GetRandomTips_distinct_witness:
  "\<exists>r. GetRandomTips rev rev sample_pool1 2 [0] = Some r \<and> r = [TxiTx sample_tx]"
proof -
  have c: "tips sample_pool1 = \<lparr>tmTxs = [(7, TxiTx sample_tx)]\<rparr>" by (simp add: sample_pool1_def)
  then have "set [0] = {..<TxMap_Count (tips sample_pool1)}" by (auto simp: TxMap_Count_def)
  from GetRandomTips_distinct [OF range_order_rev range_order_rev this sample_pool1_inv, of 2]
  obtain r where "GetRandomTips rev rev sample_pool1 2 [0] = Some r" "length r = 1" "set r \<subseteq> {TxiTx sample_tx}"
    by (auto simp: c TxMap_Count_def)
  then show ?thesis by (cases r) auto
qed

section \<open>Divergences\<close>

text \<open>C35: a confirmed sequencer is a tip that the lookup table does not know. A transaction that names it as
  a parent does not retire it from the tips, although the parents of a new tip are meant to be retired.\<close>

theorem confirmed_sequencer_not_retired:
  assumes "node_inv ords p" "good_event p e" "envTx e = TxiSeq s" "loop_event ords p e = (None, q)"
  shows "TxMap_Get (tips q) (HashOf s) = Some (TxiSeq s) \<and> getStatus q (HashOf s) = TxStatusNotExist
     \<and> settle_parent (HashOf s) q = q"
proof -
  let ?p1 = "p\<lparr>txLookup := lookup_add (txLookup p) e\<rparr>"
  obtain q' where c: "confirming ords ?p1 s" and q: "pool_confirm ords ?p1 s = (None, q')"
    and qq: "q = raise_maxWeight (q'\<lparr>txNum := 0\<rparr>) (Weight s)"
    using confirm_event [OF assms] .
  have "TxMap_Get (tips q') (HashOf s) = Some (TxiSeq s)" "envs q' (HashOf s) = None"
    using pool_confirm_success [OF c q] by blast+
  then show ?thesis using qq by (simp add: getStatus_eq settle_parent_def)
qed

theorem confirmed_sequencer_not_retired_witness:
  "\<exists>q. loop_event sample_pool_orders sample_pool1 sample_confirm = (None, q) \<and> settle_parent 8 q = q
     \<and> TxMap_Get (tips q) 8 = Some (TxiSeq sample_seq)"
proof -
  obtain batch where b: "verifyConfirmBatch sample_pool_orders sample_seeking sample_seq [(7, TxiTx sample_tx)] = Inr batch"
    and c: "isBadSeq sample_seeking sample_seq = None" "pool_get sample_pool1 (HashOf sample_seq) = None"
    "envTx sample_confirm = TxiSeq sample_seq" "latestSequencer (pdag sample_pool1) = Some sample_genesis"
    "Height sample_seq = Height sample_genesis + 1" using sample_passes .
  obtain q where q: "loop_event sample_pool_orders sample_pool1 sample_confirm = (None, q)"
    using confirm_passes [OF sample_pool1_inv sample_good_event(2) c(3,2) sample_seeking_def c(1) sample_elders b c(4,5)] by blast
  then show ?thesis
    using confirmed_sequencer_not_retired [OF sample_pool1_inv sample_good_event(2) c(3) q] by simp
qed

lemma add_all_results: "\<exists>rs. fst (add_all ords ord ty p txs acc) = acc @ rs \<and> length rs = length txs"
proof (induction txs arbitrary: p acc)
  case (Cons tx txs)
  obtain err p1 where a: "addTx ords ord p tx ty = (err, p1)" by fastforce
  obtain rs where "fst (add_all ords ord ty p1 txs (acc @ [err])) = (acc @ [err]) @ rs" "length rs = length txs"
    using Cons by blast
  then show ?case using a by (intro exI [of _ "err # rs"]) simp
qed simp

text \<open>C36: the batch entry points return twice as many results as they are given transactions, and the first
  half of them is nil whatever happened: the result slice is made with its final length and then appended to.\<close>

theorem AddTxs_leading_nils:
  "(\<exists>rs. fst (AddLocalTxs ords ord p txs) = replicate (length txs) None @ rs \<and> length rs = length txs)
   \<and> (\<exists>rs. fst (AddRemoteTxs ords ord p txs) = replicate (length txs) None @ rs \<and> length rs = length txs)"
  unfolding AddLocalTxs_def AddRemoteTxs_def by (intro conjI add_all_results)

text \<open>C37: adding a transaction to the flow of an account and removing it again restores the pending
  transactions and the total spent, but not the confirmed balance: the value of the transaction is taken off
  it, so the account cannot spend that value again before its flow is reset.\<close>

theorem flow_remove_takes_balance:
  assumes "AccountFlow_ok af" "0 \<le> GetValue tx" "AccountFlow_Add af tx = Inr af1"
  shows "\<exists>af2. AccountFlow_Remove af1 (GetNonce tx) = Inr af2 \<and> AccountFlow_ok af2
     \<and> txflow (txlist af2) = txflow (txlist af) \<and> spent (balance af2) = spent (balance af)
     \<and> originBalance (balance af2) = originBalance (balance af) - GetValue tx"
proof -
  have new: "txflow (txlist af) (GetNonce tx) = None" and sp: "spent (balance af1) = spent (balance af) + GetValue tx"
    using assms(3) by (auto simp: AccountFlow_Add_cases split: if_splits)
  note af1 = AccountFlow_ok_Add [OF assms]
  obtain af2 where r: "AccountFlow_Remove af1 (GetNonce tx) = Inr af2" "AccountFlow_ok af2"
    "txflow (txlist af2) = (txflow (txlist af1))(GetNonce tx := None)"
    "originBalance (balance af2) - spent (balance af2) = originBalance (balance af1) - spent (balance af1)"
    using AccountFlow_ok_Remove [OF af1(1)] .
  have t: "txflow (txlist af2) = txflow (txlist af)" using r(3) af1(2) new by auto
  moreover have "spent (balance af2) = spent (balance af)" using r(2) assms(1) t by (simp add: AccountFlow_ok_def)
  ultimately show ?thesis using r af1(3) sp by auto
qed

theorem flow_remove_takes_balance_witness:
  "\<exists>af1 af2. AccountFlow_Add (NewAccountFlow 100) (TxiTx sample_tx) = Inr af1 \<and> AccountFlow_Remove af1 1 = Inr af2
     \<and> spent (balance af2) = 0 \<and> originBalance (balance af2) = 70"
proof -
  have ok: "AccountFlow_ok (NewAccountFlow 100)" by (rule AccountFlow_ok_new) simp
  obtain af1 where a: "AccountFlow_Add (NewAccountFlow 100) (TxiTx sample_tx) = Inr af1" by (simp add: flow_eval)
  show ?thesis
    using flow_remove_takes_balance [OF ok _ a] a by (auto simp: NewAccountFlow_def NewBalanceState_def)
qed

end
