(* ===== verification/Verifier.thy ===== *)
theory Verifier
  imports PoolProps
begin

text \<open>
  The verifiers of \<^verbatim>\<open>src/og/verifier.go\<close>. The format verifier checks the two hashes and the signature of a
  transaction; the signer is a parameter. The graph verifier reads the pool and the DAG to check the weight of a
  transaction and that its sender issued the previous nonce. Both fields of the graph verifier are set in a
  running node, so the nil tests of the code do not appear.
\<close>

section \<open>Format\<close>

record crypto_key =
  keyType :: int
  keyBytes :: "byte list"

record Signer =
  signerVerify :: "crypto_key \<Rightarrow> crypto_key \<Rightarrow> byte list \<Rightarrow> bool"
  signerAddress :: "crypto_key \<Rightarrow> Address"

record TxFormatVerifier =
  fvSigner :: Signer
  fvCryptoType :: int
  fvMaxTxHash :: Hash
  fvMaxMinedHash :: Hash
  fvSha3 :: "byte list \<Rightarrow> Hash"

fun Txi_CalcMinedHash :: "(byte list \<Rightarrow> Hash) \<Rightarrow> Txi \<Rightarrow> Hash" where
  "Txi_CalcMinedHash sha3 (TxiTx t) = CalcMinedHash sha3 t"
| "Txi_CalcMinedHash sha3 (TxiSeq s) = CalcMinedHash sha3 s"

fun Txi_CalcTxHash :: "(byte list \<Rightarrow> Hash) \<Rightarrow> Txi \<Rightarrow> Hash" where
  "Txi_CalcTxHash sha3 (TxiTx t) = CalcTxHash sha3 t"
| "Txi_CalcTxHash sha3 (TxiSeq s) = CalcTxHash sha3 s"

fun Txi_PublicKey :: "Txi \<Rightarrow> byte list" where
  "Txi_PublicKey (TxiTx t) = PublicKey t"
| "Txi_PublicKey (TxiSeq s) = PublicKey s"

fun Txi_Signature :: "Txi \<Rightarrow> byte list" where
  "Txi_Signature (TxiTx t) = Signature t"
| "Txi_Signature (TxiSeq s) = Signature s"

definition VerifyHash :: "TxFormatVerifier \<Rightarrow> Txi \<Rightarrow> bool" where
  "VerifyHash v t =
     (let calMinedHash = Txi_CalcMinedHash (fvSha3 v) t in
      if \<not> Hash_Cmp calMinedHash (fvMaxMinedHash v) < 0 then False
      else if Txi_CalcTxHash (fvSha3 v) t \<noteq> GetTxHash t then False
      else if \<not> Hash_Cmp (GetTxHash t) (fvMaxTxHash v) < 0 then False
      else True)"

definition VerifySignature :: "TxFormatVerifier \<Rightarrow> Txi \<Rightarrow> bool" where
  "VerifySignature v t =
     signerVerify (fvSigner v) \<lparr>keyType = fvCryptoType v, keyBytes = Txi_PublicKey t\<rparr>
       \<lparr>keyType = fvCryptoType v, keyBytes = Txi_Signature t\<rparr> (SignatureTargets t)"

definition VerifySourceAddress :: "TxFormatVerifier \<Rightarrow> Txi \<Rightarrow> bool" where
  "VerifySourceAddress v t =
     (let key = \<lparr>keyType = fvCryptoType v, keyBytes = Txi_PublicKey t\<rparr> in
      case t of
        TxiTx x \<Rightarrow> From x = signerAddress (fvSigner v) key
      | TxiSeq s \<Rightarrow> Issuer s = signerAddress (fvSigner v) key)"

definition TxFormatVerifier_Verify :: "TxFormatVerifier \<Rightarrow> Txi \<Rightarrow> bool" where
  "TxFormatVerifier_Verify v t =
     (if \<not> VerifyHash v t then False
      else if \<not> VerifySignature v t then False
      else True)"

section \<open>Graph\<close>

record GraphVerifier =
  gvDag :: Dag
  gvTxPool :: TxPool

definition getTxFromTempSource :: "GraphVerifier \<Rightarrow> Hash \<Rightarrow> Txi option" where
  "getTxFromTempSource v hash = pool_get (gvTxPool v) hash"

text \<open>The transaction and whether it is archived; the outer option is a panic of the DAG.\<close>

definition getTxFromAnywhere :: "GraphVerifier \<Rightarrow> Hash \<Rightarrow> (Txi option \<times> bool) option" where
  "getTxFromAnywhere v hash =
     (case getTxFromTempSource v hash of
        Some txi \<Rightarrow> Some (Some txi, False)
      | None \<Rightarrow>
          (case Dag_getTx (gvDag v) hash of
             None \<Rightarrow> None
           | Some (Some txi) \<Rightarrow> Some (Some txi, True)
           | Some None \<Rightarrow> Some (None, False)))"

lemma anywhere_pooled: "getTxFromAnywhere v h = Some (Some t, False) \<Longrightarrow> pool_get (gvTxPool v) h = Some t"
  by (auto simp: getTxFromAnywhere_def getTxFromTempSource_def split: option.splits)

text \<open>The search loop of \<^verbatim>\<open>getMyPreviousTx\<close>: the transaction it returns with, or \<open>None\<close> inside when the queue
  runs empty. It ends like \<open>seek_loop\<close> does.\<close>

function previous_loop :: "GraphVerifier \<Rightarrow> Txi \<Rightarrow> Hash list \<Rightarrow> Hash set \<Rightarrow> Txi option option" where
  "previous_loop v currentTx [] seeked = Some None"
| "previous_loop v currentTx (head # seekingHashes) seeked =
     (case getTxFromAnywhere v head of
        None \<Rightarrow> None
      | Some (None, _) \<Rightarrow> previous_loop v currentTx seekingHashes seeked
      | Some (Some txi, archived) \<Rightarrow>
          (if Sender txi = Sender currentTx \<and> GetNonce txi = GetNonce currentTx - 1 then Some (Some txi)
           else if GetType txi = TxBaseTypeNormal then
             (case archived of
                True \<Rightarrow> previous_loop v currentTx seekingHashes seeked
              | False \<Rightarrow>
                  (case enqueue_parents (Parents txi) seekingHashes seeked of
                     (seekingHashes', seeked') \<Rightarrow> previous_loop v currentTx seekingHashes' seeked'))
           else previous_loop v currentTx seekingHashes seeked))"
  by pat_completeness auto

definition search_rel :: "((GraphVerifier \<times> 'c \<times> Hash list \<times> Hash set) \<times> GraphVerifier \<times> 'c \<times> Hash list \<times> Hash set) set" where
  "search_rel = (\<lambda>(v, c, sp, ins). card (parent_hashes (gvTxPool v) - ins)) <*mlex*> measure (\<lambda>(v, c, sp, ins). length sp)"

lemma wf_search_rel: "wf search_rel"
  unfolding search_rel_def by (intro wf_mlex wf_measure)

lemma search_skips: "((v, c, sp, ins), (v, c, h # sp, ins)) \<in> search_rel"
  unfolding search_rel_def by (rule mlex_leq) simp_all

lemma search_decreases:
  assumes "getTxFromAnywhere v h = Some (Some t, False)"
  shows "((v, c, enqueue_parents (Parents t) sp ins), (v, c, h # sp, ins)) \<in> search_rel"
proof -
  let ?P = "parent_hashes (gvTxPool v)"
  obtain sp' ins' where e: "enqueue_parents (Parents t) sp ins = (sp', ins')" by fastforce
  from seek_measure [OF anywhere_pooled [OF assms] e]
  consider "card (?P - ins') < card (?P - ins)" | "card (?P - ins') = card (?P - ins)" "sp' = sp" by metis
  then show ?thesis
  proof cases
    case 1
    then show ?thesis unfolding e search_rel_def by (intro mlex_less) simp
  next
    case 2
    then show ?thesis unfolding e search_rel_def by (intro mlex_leq) simp_all
  qed
qed

termination previous_loop
  by (relation search_rel) (auto intro: wf_search_rel search_skips search_decreases)

definition getMyPreviousTx :: "GraphVerifier \<Rightarrow> Txi \<Rightarrow> (Txi option \<times> bool) option" where
  "getMyPreviousTx v currentTx =
     (if GetNonce currentTx \<le> 1 then Some (None, True)
      else case previous_loop v currentTx (Parents currentTx) {} of
        None \<Rightarrow> None
      | Some (Some txi) \<Rightarrow> Some (Some txi, True)
      | Some None \<Rightarrow>
          (case Dag_getTxByNonce (gvDag v) (Sender currentTx) (GetNonce currentTx - 1) of
             None \<Rightarrow> None
           | Some (Some ptx) \<Rightarrow> Some (Some ptx, True)
           | Some None \<Rightarrow> Some (None, False)))"

text \<open>\<^verbatim>\<open>txi.(*types.Sequencer)\<close> panics on a transaction object whose type field says sequencer.\<close>

function previous_seq_loop :: "GraphVerifier \<Rightarrow> Sequencer \<Rightarrow> Hash list \<Rightarrow> Hash set \<Rightarrow> Sequencer option option" where
  "previous_seq_loop v currentSeq [] seeked = Some None"
| "previous_seq_loop v currentSeq (head # seekingHashes) seeked =
     (case getTxFromAnywhere v head of
        None \<Rightarrow> None
      | Some (None, _) \<Rightarrow> previous_seq_loop v currentSeq seekingHashes seeked
      | Some (Some txi, archived) \<Rightarrow>
          (let found = (if GetType txi = TxBaseTypeSequencer
                        then (case txi of TxiTx _ \<Rightarrow> None
                              | TxiSeq s \<Rightarrow> Some (if Height s = Height currentSeq - 1 then Some s else None))
                        else Some None)
           in case found of
             None \<Rightarrow> None
           | Some (Some s) \<Rightarrow> Some (Some s)
           | Some None \<Rightarrow>
               (case archived of
                  True \<Rightarrow> previous_seq_loop v currentSeq seekingHashes seeked
                | False \<Rightarrow>
                    (case enqueue_parents (Parents txi) seekingHashes seeked of
                       (seekingHashes', seeked') \<Rightarrow> previous_seq_loop v currentSeq seekingHashes' seeked'))))"
  by pat_completeness auto

termination previous_seq_loop
  by (relation search_rel) (auto intro: wf_search_rel search_skips search_decreases)

definition getPreviousSequencer :: "GraphVerifier \<Rightarrow> Sequencer \<Rightarrow> (Sequencer option \<times> bool) option" where
  "getPreviousSequencer v currentSeq =
     (case previous_seq_loop v currentSeq [HashOf currentSeq] {} of
        None \<Rightarrow> None
      | Some (Some s) \<Rightarrow> Some (Some s, True)
      | Some None \<Rightarrow>
          (case getSequencerByHeight (gvDag v) (Height currentSeq - 1) of
             None \<Rightarrow> None
           | Some (Some ptx) \<Rightarrow> Some (Some ptx, True)
           | Some None \<Rightarrow> Some (None, False)))"

text \<open>\<^verbatim>\<open>GetLatestNonce\<close> sorts a key slice of the pool, so the verifier is returned too.\<close>

definition verifyA3 :: "GraphVerifier \<Rightarrow> Txi \<Rightarrow> (bool \<times> GraphVerifier) option" where
  "verifyA3 v txi =
     (if GetNonce txi = 0 then
        (case pool_GetLatestNonce (gvTxPool v) (Sender txi) of
           Inl _ \<Rightarrow> Some (True, v)
         | Inr (_, pool) \<Rightarrow> Some (False, v\<lparr>gvTxPool := pool\<rparr>))
      else case getMyPreviousTx v txi of
        None \<Rightarrow> None
      | Some (_, False) \<Rightarrow> Some (False, v)
      | Some (_, True) \<Rightarrow>
          (if GetType txi = TxBaseTypeSequencer then
             (case txi of
                TxiTx _ \<Rightarrow> None
              | TxiSeq seq \<Rightarrow> map_option (\<lambda>(_, ok). (ok, v)) (getPreviousSequencer v seq))
           else Some (True, v)))"

definition verifyB1 :: "GraphVerifier \<Rightarrow> Txi \<Rightarrow> bool" where
  "verifyB1 v txi = True"

fun weight_parents :: "GraphVerifier \<Rightarrow> Hash list \<Rightarrow> Txi list option option" where
  "weight_parents v [] = Some (Some [])"
| "weight_parents v (pHash # rest) =
     (let parent = (case pool_get (gvTxPool v) pHash of
                      Some t \<Rightarrow> Some (Some t)
                    | None \<Rightarrow> Dag_getTx (gvDag v) pHash)
      in case parent of
        None \<Rightarrow> None
      | Some None \<Rightarrow> Some None
      | Some (Some t) \<Rightarrow> map_option (map_option ((#) t)) (weight_parents v rest))"

definition verifyWeight :: "GraphVerifier \<Rightarrow> Txi \<Rightarrow> bool option" where
  "verifyWeight v txi =
     (case weight_parents v (Parents txi) of
        None \<Rightarrow> None
      | Some None \<Rightarrow> Some False
      | Some (Some txis) \<Rightarrow> Some (CalculateWeight txis = GetWeight txi))"

definition GraphVerifier_Verify :: "GraphVerifier \<Rightarrow> Txi \<Rightarrow> (bool \<times> GraphVerifier) option" where
  "GraphVerifier_Verify v txi =
     (case verifyWeight v txi of
        None \<Rightarrow> None
      | Some False \<Rightarrow> Some (False, v)
      | Some True \<Rightarrow>
          (case verifyA3 v txi of
             None \<Rightarrow> None
           | Some (False, v1) \<Rightarrow> Some (False, v1)
           | Some (True, v1) \<Rightarrow> Some (verifyB1 v1 txi, v1)))"

section \<open>The search for the previous transaction\<close>

abbreviation precedes :: "Txi \<Rightarrow> Txi \<Rightarrow> bool" where
  "precedes me t \<equiv> Sender t = Sender me \<and> GetNonce t = GetNonce me - 1"

definition found_at :: "GraphVerifier \<Rightarrow> Hash \<Rightarrow> Txi \<Rightarrow> bool" where
  "found_at v h t \<longleftrightarrow> (\<exists>archived. getTxFromAnywhere v h = Some (Some t, archived))"

text \<open>The hashes the search may look at: the parents of the current transaction, and the parents of pooled
  normal transactions among them that are not the one sought.\<close>

inductive trail :: "GraphVerifier \<Rightarrow> Txi \<Rightarrow> Hash \<Rightarrow> bool" for v me where
  trail_parent: "h \<in> set (Parents me) \<Longrightarrow> trail v me h"
| trail_step: "trail v me h \<Longrightarrow> pool_get (gvTxPool v) h = Some t \<Longrightarrow> GetType t = TxBaseTypeNormal \<Longrightarrow> \<not> precedes me t
    \<Longrightarrow> k \<in> set (Parents t) \<Longrightarrow> trail v me k"

definition searched :: "GraphVerifier \<Rightarrow> Txi \<Rightarrow> Hash list \<Rightarrow> Hash set \<Rightarrow> Hash set \<Rightarrow> bool" where
  "searched v me sp ins old \<longleftrightarrow> (\<forall>h \<in> set sp. trail v me h) \<and> set (Parents me) \<union> ins \<subseteq> set sp \<union> old
     \<and> (\<forall>h \<in> old. \<forall>t. (found_at v h t \<longrightarrow> \<not> precedes me t)
          \<and> (pool_get (gvTxPool v) h = Some t \<longrightarrow> GetType t = TxBaseTypeNormal \<longrightarrow> set (Parents t) \<subseteq> ins))"

lemma trail_searched:
  assumes "searched v me [] ins old" "trail v me h"
  shows "h \<in> old"
  using assms(2)
proof induction
  case (trail_parent h)
  then show ?case using assms(1) by (auto simp: searched_def)
next
  case (trail_step h t k)
  then have "set (Parents t) \<subseteq> ins" using assms(1) unfolding searched_def by blast
  moreover have "ins \<subseteq> old" using assms(1) by (simp add: searched_def)
  ultimately show ?case using trail_step(5) by blast
qed

lemma found_pooled: "pool_get (gvTxPool v) h = Some t \<Longrightarrow> found_at v h u \<longleftrightarrow> u = t"
  by (auto simp: found_at_def getTxFromAnywhere_def getTxFromTempSource_def)

lemma searched_skip:
  assumes "searched v me (h # sp) ins old"
    "\<And>t. found_at v h t \<Longrightarrow> \<not> precedes me t \<and> (pool_get (gvTxPool v) h = Some t \<longrightarrow> GetType t \<noteq> TxBaseTypeNormal)"
  shows "searched v me sp ins (insert h old)"
  using assms found_pooled [of v h] unfolding searched_def by auto

lemma searched_expand:
  assumes "searched v me (h # sp) ins old" "pool_get (gvTxPool v) h = Some t" "GetType t = TxBaseTypeNormal" "\<not> precedes me t"
    "enqueue_parents (Parents t) sp ins = (sp', ins')"
  shows "searched v me sp' ins' (insert h old)"
proof -
  note e = enqueue_parents_eq(1,2) [OF assms(5)]
  have tr: "trail v me k" if "k \<in> set (Parents t)" for k
    using assms(1) trail_step [OF _ assms(2,3,4) that] by (simp add: searched_def)
  have "\<forall>k \<in> set sp'. trail v me k" using assms(1) tr e(2) by (auto simp: searched_def)
  moreover have "set (Parents me) \<union> ins' \<subseteq> set sp' \<union> insert h old" using assms(1) e by (auto simp: searched_def)
  moreover have "(found_at v k u \<longrightarrow> \<not> precedes me u)
      \<and> (pool_get (gvTxPool v) k = Some u \<longrightarrow> GetType u = TxBaseTypeNormal \<longrightarrow> set (Parents u) \<subseteq> ins')"
    if "k \<in> insert h old" for k u
  proof (cases "k = h")
    case True
    then show ?thesis using found_pooled [OF assms(2)] assms(2,4) e(1) by auto
  next
    case False
    then have "k \<in> old" using that by simp
    then show ?thesis using assms(1) e(1) unfolding searched_def by blast
  qed
  ultimately show ?thesis unfolding searched_def by blast
qed

lemma previous_loop_Cons:
  "getTxFromAnywhere v h = Some (None, a) \<Longrightarrow> previous_loop v me (h # sp) ins = previous_loop v me sp ins"
  "getTxFromAnywhere v h = Some (Some t, a) \<Longrightarrow> precedes me t \<Longrightarrow> previous_loop v me (h # sp) ins = Some (Some t)"
  "getTxFromAnywhere v h = Some (Some t, a) \<Longrightarrow> \<not> precedes me t \<Longrightarrow> GetType t \<noteq> TxBaseTypeNormal \<or> a
    \<Longrightarrow> previous_loop v me (h # sp) ins = previous_loop v me sp ins"
  "getTxFromAnywhere v h = Some (Some t, False) \<Longrightarrow> \<not> precedes me t \<Longrightarrow> GetType t = TxBaseTypeNormal
    \<Longrightarrow> enqueue_parents (Parents t) sp ins = (sp', ins') \<Longrightarrow> previous_loop v me (h # sp) ins = previous_loop v me sp' ins'"
proof -
  show "getTxFromAnywhere v h = Some (Some t, a) \<Longrightarrow> \<not> precedes me t \<Longrightarrow> GetType t \<noteq> TxBaseTypeNormal \<or> a
    \<Longrightarrow> previous_loop v me (h # sp) ins = previous_loop v me sp ins"
    by (cases a) auto
qed auto

lemma pooled_anywhere:
  "pool_get (gvTxPool v) h = Some u \<Longrightarrow> getTxFromAnywhere v h = Some (x, a) \<Longrightarrow> x = Some u \<and> \<not> a"
  by (simp add: getTxFromAnywhere_def getTxFromTempSource_def)

lemma previous_loop_step:
  assumes s: "searched v me (h # sp) ins old"
  obtains (panics) "previous_loop v me (h # sp) ins = None" "getTxFromAnywhere v h = None"
    | (hit) x where "previous_loop v me (h # sp) ins = Some (Some x)" "precedes me x" "found_at v h x"
    | (continues) sp' ins' where "previous_loop v me (h # sp) ins = previous_loop v me sp' ins'"
        "searched v me sp' ins' (insert h old)" "((v, me, sp', ins'), (v, me, h # sp, ins)) \<in> search_rel"
proof -
  consider (none) "getTxFromAnywhere v h = None" | (absent) a where "getTxFromAnywhere v h = Some (None, a)"
    | (found) t a where "getTxFromAnywhere v h = Some (Some t, a)" by (metis option.exhaust surj_pair)
  then show ?thesis
  proof cases
    case none
    then show ?thesis using panics by simp
  next
    case absent
    have "searched v me sp ins (insert h old)"
      by (rule searched_skip [OF s]) (use absent in \<open>simp add: found_at_def\<close>)
    from continues [OF previous_loop_Cons(1) [OF absent] this search_skips] show ?thesis .
  next
    case found
    consider "precedes me t" | "\<not> precedes me t" "GetType t \<noteq> TxBaseTypeNormal \<or> a"
      | "\<not> precedes me t" "GetType t = TxBaseTypeNormal" "\<not> a" by blast
    then show ?thesis
    proof cases
      case 1
      have "found_at v h t" using found by (auto simp: found_at_def)
      from hit [OF previous_loop_Cons(2) [OF found 1] 1 this] show ?thesis .
    next
      case 2
      have "searched v me sp ins (insert h old)"
      proof (rule searched_skip [OF s])
        fix u assume "found_at v h u"
        then have "u = t" using found by (simp add: found_at_def)
        then show "\<not> precedes me u \<and> (pool_get (gvTxPool v) h = Some u \<longrightarrow> GetType u \<noteq> TxBaseTypeNormal)"
          using 2 pooled_anywhere [OF _ found] by blast
      qed
      from continues [OF previous_loop_Cons(3) [OF found 2] this search_skips] show ?thesis .
    next
      case 3
      then have g: "getTxFromAnywhere v h = Some (Some t, False)" using found by simp
      obtain sp' ins' where e: "enqueue_parents (Parents t) sp ins = (sp', ins')" by fastforce
      have "((v, me, sp', ins'), (v, me, h # sp, ins)) \<in> search_rel"
        using search_decreases [OF g, of me sp ins] unfolding e .
      from continues [OF previous_loop_Cons(4) [OF g 3(1,2) e] searched_expand [OF s anywhere_pooled [OF g] 3(2,1) e] this]
      show ?thesis .
    qed
  qed
qed

definition search_result :: "GraphVerifier \<Rightarrow> Txi \<Rightarrow> Txi option option \<Rightarrow> bool" where
  "search_result v me r \<longleftrightarrow>
     (\<forall>t. r = Some (Some t) \<longrightarrow> precedes me t \<and> (\<exists>h. trail v me h \<and> found_at v h t))
     \<and> (r = None \<longrightarrow> (\<exists>h. getTxFromAnywhere v h = None))
     \<and> (r = Some None \<longrightarrow> (\<forall>h u. trail v me h \<longrightarrow> found_at v h u \<longrightarrow> \<not> precedes me u))"

lemma previous_loop_spec:
  assumes "searched v me sp ins old"
  shows "search_result v me (previous_loop v me sp ins)"
  using wf_search_rel assms
proof (induction "(v, me, sp, ins)" arbitrary: sp ins old rule: wf_induct_rule)
  case less
  show ?case
  proof (cases sp)
    case Nil
    have "\<not> precedes me u" if "trail v me h" "found_at v h u" for h u
      using trail_searched [OF less(2) [unfolded Nil] that(1)] less(2) that(2) unfolding searched_def by blast
    then show ?thesis using Nil by (simp add: search_result_def)
  next
    case (Cons h rest)
    from less(2) [unfolded Cons] show ?thesis
    proof (cases rule: previous_loop_step)
      case panics
      then show ?thesis unfolding Cons panics(1) search_result_def by blast
    next
      case (hit x)
      have "trail v me h" using less(2) Cons by (simp add: searched_def)
      then show ?thesis using hit(2,3) unfolding Cons hit(1) search_result_def by blast
    next
      case (continues sp' ins')
      show ?thesis unfolding Cons continues(1) by (rule less(1) [OF _ continues(2)]) (use continues(3) Cons in simp)
    qed
  qed
qed

lemma anywhere_total:
  assumes "dag_readable (gvDag v)"
  shows "getTxFromAnywhere v h \<noteq> None"
  using readable(1) [OF assms, of h] by (auto simp: getTxFromAnywhere_def split: option.splits)

lemma searched_start: "searched v me (Parents me) {} {}"
  by (simp add: searched_def trail_parent)

section \<open>Properties\<close>

text \<open>C24: the search for the predecessor of a transaction always ends, and it succeeds exactly when a
  transaction of the same sender with the previous nonce is met on the way back through the pool or the DAG
  knows one by nonce.\<close>

theorem getMyPreviousTx_exact:
  assumes "dag_readable (gvDag v)" "1 < GetNonce me"
  shows "\<exists>previous ok. getMyPreviousTx v me = Some (previous, ok)
     \<and> (ok \<longleftrightarrow> (\<exists>h t. trail v me h \<and> found_at v h t \<and> precedes me t)
          \<or> (\<exists>t. Dag_getTxByNonce (gvDag v) (Sender me) (GetNonce me - 1) = Some (Some t)))"
proof -
  let ?r = "previous_loop v me (Parents me) {}"
  have s: "search_result v me ?r" by (rule previous_loop_spec [OF searched_start])
  obtain d where d: "Dag_getTxByNonce (gvDag v) (Sender me) (GetNonce me - 1) = Some d" using readable(2) [OF assms(1)] by blast
  have n: "\<not> GetNonce me \<le> 1" using assms(2) by simp
  have "?r \<noteq> None" using s anywhere_total [OF assms(1)] unfolding search_result_def by blast
  then consider t where "?r = Some (Some t)" | "?r = Some None" by (metis option.exhaust)
  then show ?thesis
  proof cases
    case 1
    then have "\<exists>h. trail v me h \<and> found_at v h t" "precedes me t" using s unfolding search_result_def by blast+
    then show ?thesis using 1 n by (auto simp: getMyPreviousTx_def)
  next
    case 2
    then have "\<not> (\<exists>h t. trail v me h \<and> found_at v h t \<and> precedes me t)" using s unfolding search_result_def by blast
    then show ?thesis using 2 n d by (cases d) (auto simp: getMyPreviousTx_def)
  qed
qed

section \<open>Weights\<close>

definition known :: "GraphVerifier \<Rightarrow> Hash \<Rightarrow> Txi \<Rightarrow> bool" where
  "known v h t \<longleftrightarrow> pool_get (gvTxPool v) h = Some t \<or> pool_get (gvTxPool v) h = None \<and> Dag_getTx (gvDag v) h = Some (Some t)"

lemma weight_parents_known:
  "weight_parents v hs = Some (Some ts) \<Longrightarrow> list_all2 (known v) hs ts"
  by (induction hs arbitrary: ts) (auto simp: known_def Let_def split: option.splits)

lemma CalculateWeight_above:
  assumes "p \<in> set ps" "\<forall>q \<in> set ps. GetWeight q \<noteq> - 1"
  shows "GetWeight p < CalculateWeight ps"
proof -
  let ?m = "CalculateWeight_loop 0 ps"
  have "?m \<noteq> - 1" using CalculateWeight_loop_in [of 0 ps] assms(2) by auto
  then have "1 + ?m \<noteq> 0" by (metis add_eq_0_iff)
  then have "?m < ?m + 1" using unatSuc [of ?m] by (simp add: word_less_nat_alt add.commute)
  then show ?thesis using CalculateWeight_loop_ge(2) [OF assms(1), of 0] by (simp add: CalculateWeight_def)
qed

lemma verifyWeight_parents:
  assumes "verifyWeight v t = Some True" "h \<in> set (Parents t)" "\<forall>k p. known v k p \<longrightarrow> GetWeight p \<noteq> - 1"
  shows "\<exists>p. known v h p \<and> GetWeight p < GetWeight t"
proof -
  obtain ps where ps: "weight_parents v (Parents t) = Some (Some ps)" "CalculateWeight ps = GetWeight t"
    using assms(1) by (auto simp: verifyWeight_def split: option.splits)
  have k: "list_all2 (known v) (Parents t) ps" by (rule weight_parents_known [OF ps(1)])
  then have "\<forall>q \<in> set ps. GetWeight q \<noteq> - 1" using assms(3) by (metis list_all2_conv_all_nth in_set_conv_nth)
  moreover obtain p where "known v h p" "p \<in> set ps"
    using k assms(2) by (metis in_set_conv_nth list_all2_conv_all_nth)
  ultimately show ?thesis using CalculateWeight_above ps(2) by metis
qed

text \<open>The transactions a node knows, with the parent links between them.\<close>

inductive ancestor :: "GraphVerifier \<Rightarrow> Txi \<Rightarrow> Txi \<Rightarrow> bool" for v t where
  ancestor_parent: "h \<in> set (Parents t) \<Longrightarrow> known v h p \<Longrightarrow> ancestor v t p"
| ancestor_step: "ancestor v t p \<Longrightarrow> h \<in> set (Parents p) \<Longrightarrow> known v h q \<Longrightarrow> ancestor v t q"

lemma known_unique: "known v h p \<Longrightarrow> known v h q \<Longrightarrow> p = q"
  by (auto simp: known_def)

text \<open>C25: when every known transaction with parents passed the weight check and no weight is the largest
  64-bit number, weights grow strictly from ancestors to descendants, so the graph has no cycle.\<close>

theorem verified_weights_acyclic:
  assumes "\<forall>h t. known v h t \<longrightarrow> GetWeight t \<noteq> - 1 \<and> (Parents t = [] \<or> verifyWeight v t = Some True)"
    and "known v h t" "ancestor v t a"
  shows "GetWeight a < GetWeight t \<and> a \<noteq> t"
proof -
  have up: "GetWeight p < GetWeight u" if ku: "known v k u" and hu: "h \<in> set (Parents u)" and hp: "known v h p" for k u h p
  proof -
    have "verifyWeight v u = Some True" using assms(1) ku hu by fastforce
    then obtain q where "known v h q" "GetWeight q < GetWeight u"
      using verifyWeight_parents [of v u h] hu assms(1) by blast
    then show ?thesis using known_unique [OF hp] by blast
  qed
  have "GetWeight a < GetWeight t \<and> (\<exists>k. known v k a)"
    using assms(3)
  proof induction
    case (ancestor_parent h p)
    then show ?case using up [OF assms(2)] by blast
  next
    case (ancestor_step p h q)
    then obtain k where k: "known v k p" "GetWeight p < GetWeight t" by blast
    have "GetWeight q < GetWeight p" by (rule up [OF k(1) ancestor_step(2,3)])
    then show ?case using k(2) ancestor_step(3) less_trans by blast
  qed
  then show ?thesis by auto
qed

section \<open>Hashes bind the content\<close>

definition hash_input :: "(byte list \<Rightarrow> Hash) \<Rightarrow> 'a TxBase_scheme \<Rightarrow> byte list" where
  "hash_input sha3 t = concat (map Hash_ToBytes (ParentsHash t)) @ word_bytes 8 (Weight t) @ Hash_ToBytes (CalcMinedHash sha3 t)"

definition mined_input :: "'a TxBase_scheme \<Rightarrow> byte list" where
  "mined_input t = PublicKey t @ Signature t @ word_bytes 8 (MineNonce t)"

lemma concat_hashes_inject: "concat (map Hash_ToBytes hs) = concat (map Hash_ToBytes ks) \<Longrightarrow> hs = ks"
  using chunks32_concat length_concat_hashes by (metis nat_mult_eq_cancel1 zero_less_numeral)

lemma hash_input_inject:
  assumes "hash_input sha3 t = hash_input sha3 u"
  shows "ParentsHash t = ParentsHash u" "Weight t = Weight u" "CalcMinedHash sha3 t = CalcMinedHash sha3 u"
proof -
  let ?c = "\<lambda>x. concat (map Hash_ToBytes (ParentsHash x))"
  have "length (?c t) = length (?c u)" using arg_cong [OF assms, of length] by (simp add: hash_input_def)
  then have e: "?c t = ?c u" "word_bytes 8 (Weight t) @ Hash_ToBytes (CalcMinedHash sha3 t)
      = word_bytes 8 (Weight u) @ Hash_ToBytes (CalcMinedHash sha3 u)"
    using assms by (simp_all add: hash_input_def)
  show "ParentsHash t = ParentsHash u" by (rule concat_hashes_inject [OF e(1)])
  have "word_bytes 8 (Weight t) = word_bytes 8 (Weight u)" "Hash_ToBytes (CalcMinedHash sha3 t) = Hash_ToBytes (CalcMinedHash sha3 u)"
    using e(2) by simp_all
  then show "Weight t = Weight u" "CalcMinedHash sha3 t = CalcMinedHash sha3 u"
    by (simp_all add: word_bytes_inject Hash_ToBytes_inject)
qed


text \<open>C39: the search for the previous sequencer starts at the new sequencer itself. A sequencer the node does
  not hold yet is not found there, so its parents are never looked at: whether it passes depends only on the
  height index of the DAG, not on what it is built on.\<close>

theorem new_sequencer_parents_ignored:
  assumes "getTxFromAnywhere v (HashOf s) = Some (None, archived)"
  shows "getPreviousSequencer v (s\<lparr>ParentsHash := ps\<rparr>) = getPreviousSequencer v s
     \<and> getPreviousSequencer v s = map_option (\<lambda>r. (r, r \<noteq> None)) (getSequencerByHeight (gvDag v) (Height s - 1))"
proof -
  have "previous_seq_loop v x [HashOf s] {} = Some None" for x using assms by simp
  then have "getPreviousSequencer v x = map_option (\<lambda>r. (r, r \<noteq> None)) (getSequencerByHeight (gvDag v) (Height x - 1))"
    if "HashOf x = HashOf s" for x
    using that by (simp add: getPreviousSequencer_def split: option.split)
  then show ?thesis by simp
qed

section \<open>Witnesses\<close>

definition sample_verifier :: GraphVerifier where
  "sample_verifier = \<lparr>gvDag = sample_dag, gvTxPool = sample_pool1\<rparr>"

definition sample_child :: Tx where
  "sample_child = sample_tx\<lparr>HashOf := 10, AccountNonce := 2, ParentsHash := [7], Weight := 2\<rparr>"

lemma sample_child_fields [simp]:
  "AccountNonce sample_child = 2" "ParentsHash sample_child = [7]" "From sample_child = 5" "Weight sample_child = 2"
  by (simp_all add: sample_child_def)

lemma sample_pooled: "pool_get sample_pool1 h = (if h = 7 then Some (TxiTx sample_tx) else None)"
  by (simp add: pool_get_eq sample_pool1_def)

lemma sample_archived: "Dag_getTx sample_dag h = Some (if h = 1 then Some (TxiSeq sample_genesis) else None)"
proof -
  have "txcached_get (dtxcached sample_dag) h = (if h = 1 then Some (TxiSeq sample_genesis) else None)"
    by (simp add: sample_dag_def txcached_get_def)
  then show ?thesis by (simp add: Dag_getTx_def sample_unread)
qed

lemma sample_known: "known sample_verifier h t \<longleftrightarrow> h = 7 \<and> t = TxiTx sample_tx \<or> h = 1 \<and> t = TxiSeq sample_genesis"
  by (auto simp: known_def sample_verifier_def sample_pooled sample_archived)

theorem getMyPreviousTx_exact_witness:
  "\<exists>previous. getMyPreviousTx sample_verifier (TxiTx sample_child) = Some (previous, True)"
proof -
  have r: "dag_readable (gvDag sample_verifier)"
    using sample_node(2) db_wf_readable by (simp add: sample_verifier_def)
  have n: "1 < GetNonce (TxiTx sample_child)" by (simp add: word_less_nat_alt)
  have "trail sample_verifier (TxiTx sample_child) 7" by (rule trail_parent) simp
  moreover have "found_at sample_verifier 7 (TxiTx sample_tx)"
    by (auto simp: found_at_def getTxFromAnywhere_def getTxFromTempSource_def sample_verifier_def sample_pooled)
  moreover have "precedes (TxiTx sample_child) (TxiTx sample_tx)" by simp
  ultimately have ex: "\<exists>h t. trail sample_verifier (TxiTx sample_child) h \<and> found_at sample_verifier h t
      \<and> precedes (TxiTx sample_child) t" by blast
  from getMyPreviousTx_exact [OF r n] obtain previous ok
    where g: "getMyPreviousTx sample_verifier (TxiTx sample_child) = Some (previous, ok)"
      and o: "ok \<longleftrightarrow> (\<exists>h t. trail sample_verifier (TxiTx sample_child) h \<and> found_at sample_verifier h t \<and> precedes (TxiTx sample_child) t)
        \<or> (\<exists>t. Dag_getTxByNonce (gvDag sample_verifier) (Sender (TxiTx sample_child)) (GetNonce (TxiTx sample_child) - 1) = Some (Some t))"
    by (elim exE conjE)
  have ok by (subst o, rule disjI1, rule ex)
  then show ?thesis using g by (intro exI [of _ previous]) simp
qed

theorem verified_weights_acyclic_witness:
  "ancestor sample_verifier (TxiTx sample_tx) (TxiSeq sample_genesis)
     \<and> GetWeight (TxiSeq sample_genesis) < GetWeight (TxiTx sample_tx)"
proof -
  have w: "Weight sample_genesis = 0" by (simp add: sample_genesis_def)
  have "verifyWeight sample_verifier (TxiTx sample_tx) = Some True"
    by (simp add: verifyWeight_def sample_verifier_def sample_pooled sample_archived CalculateWeight_def w)
  moreover have "Parents (TxiSeq sample_genesis) = []" by (simp add: sample_genesis_def)
  ultimately have ok: "\<forall>h t. known sample_verifier h t \<longrightarrow> GetWeight t \<noteq> - 1 \<and> (Parents t = [] \<or> verifyWeight sample_verifier t = Some True)"
    using w by (auto simp: sample_known)
  have k: "known sample_verifier 7 (TxiTx sample_tx)" "known sample_verifier 1 (TxiSeq sample_genesis)"
    by (simp_all add: sample_known)
  have a: "ancestor sample_verifier (TxiTx sample_tx) (TxiSeq sample_genesis)" by (rule ancestor_parent [OF _ k(2)]) simp
  show ?thesis using verified_weights_acyclic [OF ok k(1) a] a by blast
qed

definition sample_format :: TxFormatVerifier where
  "sample_format = \<lparr>fvSigner = \<lparr>signerVerify = (\<lambda>_ _ _. True), signerAddress = (\<lambda>_. 0)\<rparr>, fvCryptoType = 0,
     fvMaxTxHash = 100, fvMaxMinedHash = 100, fvSha3 = (\<lambda>bs. of_nat (length bs))\<rparr>"


theorem new_sequencer_parents_ignored_witness:
  "getPreviousSequencer sample_verifier (sample_seq\<lparr>ParentsHash := []\<rparr>) = Some (Some sample_genesis, True)"
proof -
  have "getTxFromAnywhere sample_verifier (HashOf sample_seq) = Some (None, False)"
    by (simp add: getTxFromAnywhere_def getTxFromTempSource_def sample_verifier_def sample_pooled sample_archived)
  from new_sequencer_parents_ignored [OF this, of "[]"] show ?thesis
    by (simp add: sample_verifier_def getSequencerByHeight_def) (simp add: sample_dag_def)
qed

end
