(* ===== verification/TxBuffer.thy ===== *)
theory TxBuffer
  imports Verifier
begin

text \<open>
  The transaction buffer of \<^verbatim>\<open>src/og/tx_buffer.go\<close>: transactions whose parents are missing wait in the
  dependency cache until the parents arrive, and are then verified and handed to the pool. The two caches are
  of a third-party package; they are maps here, and what \<^verbatim>\<open>Set\<close> of a key evicts from a full or outdated cache is a parameter. The
  requests to the syncer and the announcements are recorded as lists. Logging is left out, and with it the
  flag \<^verbatim>\<open>firstTime\<close>, which only selects a log message.
\<close>

section \<open>The children cache\<close>

type_synonym childrenCache = "(Hash, Hash list) gomap"

definition GetChildren :: "childrenCache \<Rightarrow> Hash \<Rightarrow> Hash list" where
  "GetChildren c parent = (case map_of c parent of Some children \<Rightarrow> children | None \<Rightarrow> [])"

definition AddChildren :: "(Hash \<Rightarrow> childrenCache \<Rightarrow> childrenCache) \<Rightarrow> childrenCache \<Rightarrow> Hash \<Rightarrow> Hash \<Rightarrow> childrenCache" where
  "AddChildren evict c parent child =
     (let children = (case map_of c parent of Some cs \<Rightarrow> cs | None \<Rightarrow> []) in
      if list_ex (\<lambda>h. h = child) children then c
      else let children' = children @ [child] in
        if length children' \<noteq> 0 then AList.update parent children' (evict parent c) else c)"

definition GetAndRemove :: "childrenCache \<Rightarrow> Hash \<Rightarrow> Hash list \<times> childrenCache" where
  "GetAndRemove c parent =
     (case map_of c parent of Some children \<Rightarrow> (children, AList.delete parent c) | None \<Rightarrow> ([], c))"

definition childrenCache_Remove :: "childrenCache \<Rightarrow> Hash \<Rightarrow> bool \<times> childrenCache" where
  "childrenCache_Remove c parent = (map_of c parent \<noteq> None, AList.delete parent c)"

definition childrenCache_Len :: "childrenCache \<Rightarrow> nat" where
  "childrenCache_Len c = length c"

section \<open>The buffer\<close>

datatype verifier = FormatVerifierRef TxFormatVerifier | GraphVerifierRef

record TxBuffer =
  bPool :: TxPool
  bVerifiers :: "verifier list"
  dependencyCache :: "(Hash, (Hash, Txi) gomap) gomap"
  knownCache :: "(Hash, Txi) gomap"
  enqueued :: "(Hash option \<times> bool) list"
  announced :: "Txi list"

record buffer_env =
  ordDeps :: "(Hash \<times> Txi) list \<Rightarrow> (Hash \<times> Txi) list"
  ordPool :: pool_orders
  ordNames :: "string list \<Rightarrow> string list"
  evictDeps :: "Hash \<Rightarrow> (Hash, (Hash, Txi) gomap) gomap \<Rightarrow> (Hash, (Hash, Txi) gomap) gomap"
  evictKnown :: "Hash \<Rightarrow> (Hash, Txi) gomap \<Rightarrow> (Hash, Txi) gomap"

text \<open>\<^verbatim>\<open>Start\<close> registers the buffer with the pool before its loops run.\<close>

definition NewTxBuffer :: "TxPool \<Rightarrow> verifier list \<Rightarrow> TxBuffer" where
  "NewTxBuffer p vs = \<lparr>bPool = p, bVerifiers = vs, dependencyCache = [], knownCache = [], enqueued = [], announced = []\<rparr>"

definition TxBuffer_Start :: "TxBuffer \<Rightarrow> TxBuffer" where
  "TxBuffer_Start b = b\<lparr>bPool := RegisterOnNewTxReceived (bPool b) ''b.txAddedToPoolChan''\<rparr>"

definition GetFromBuffer :: "TxBuffer \<Rightarrow> Hash \<Rightarrow> Txi option" where
  "GetFromBuffer b hash = map_of (knownCache b) hash"

text \<open>The outer option is a panic of the DAG.\<close>

definition GetFromProviders :: "TxBuffer \<Rightarrow> Hash \<Rightarrow> Txi option option" where
  "GetFromProviders b hash =
     (case pool_get (bPool b) hash of Some t \<Rightarrow> Some (Some t) | None \<Rightarrow> Dag_getTx (pdag (bPool b)) hash)"

definition GetFromAllKnownSource :: "TxBuffer \<Rightarrow> Hash \<Rightarrow> Txi option option" where
  "GetFromAllKnownSource b hash =
     (case GetFromBuffer b hash of Some t \<Rightarrow> Some (Some t) | None \<Rightarrow> GetFromProviders b hash)"

definition buf_isLocalHash :: "TxBuffer \<Rightarrow> Hash \<Rightarrow> bool option" where
  "buf_isLocalHash b hash =
     (if pool_get (bPool b) hash \<noteq> None then Some True
      else map_option (\<lambda>r. r \<noteq> None) (Dag_getTx (pdag (bPool b)) hash))"

definition isCachedHash :: "TxBuffer \<Rightarrow> Hash \<Rightarrow> bool" where
  "isCachedHash b hash = (GetFromBuffer b hash \<noteq> None)"

definition IsKnownHash :: "TxBuffer \<Rightarrow> Hash \<Rightarrow> bool option" where
  "IsKnownHash b hash =
     (case buf_isLocalHash b hash of
        None \<Rightarrow> None
      | Some True \<Rightarrow> Some True
      | Some False \<Rightarrow> Some (isCachedHash b hash))"

definition updateDependencyMap :: "buffer_env \<Rightarrow> TxBuffer \<Rightarrow> Hash \<Rightarrow> Txi \<Rightarrow> TxBuffer" where
  "updateDependencyMap be b parentHash self =
     (let v = (case map_of (dependencyCache b) parentHash of
                 None \<Rightarrow> [(GetTxHash self, self)]
               | Some m \<Rightarrow> m);
          v' = AList.update (GetTxHash self) self v
      in b\<lparr>dependencyCache := AList.update parentHash v' (evictDeps be parentHash (dependencyCache b))\<rparr>)"

text \<open>The parent loop of \<^verbatim>\<open>buildDependencies\<close>: whether all parents were local, whether a bloom filter was asked
  for, and the buffer.\<close>

fun dependency_loop ::
    "buffer_env \<Rightarrow> Txi \<Rightarrow> Hash list \<Rightarrow> bool \<Rightarrow> bool \<Rightarrow> TxBuffer \<Rightarrow> (bool \<times> TxBuffer) option" where
  "dependency_loop be tx [] allFetched sendBloom b = Some (allFetched, b)"
| "dependency_loop be tx (parentHash # rest) allFetched sendBloom b =
     (case buf_isLocalHash b parentHash of
        None \<Rightarrow> None
      | Some True \<Rightarrow> dependency_loop be tx rest allFetched sendBloom b
      | Some False \<Rightarrow>
          (if \<not> isCachedHash b parentHash then
             let b1 = updateDependencyMap be b parentHash tx;
                 bloom = (\<not> sendBloom \<and> GetWeight tx > maxWeight (bPool b) \<and> GetWeight tx - maxWeight (bPool b) > 20)
             in dependency_loop be tx rest False (sendBloom \<or> bloom)
                  (b1\<lparr>enqueued := enqueued b1 @ [(Some parentHash, bloom)]\<rparr>)
           else dependency_loop be tx rest False sendBloom (b\<lparr>enqueued := enqueued b @ [(None, False)]\<rparr>)))"

definition buildDependencies :: "buffer_env \<Rightarrow> TxBuffer \<Rightarrow> Txi \<Rightarrow> (bool \<times> TxBuffer) option" where
  "buildDependencies be b tx =
     (case dependency_loop be tx (Parents tx) True False b of
        None \<Rightarrow> None
      | Some (allFetched, b1) \<Rightarrow>
          Some (allFetched, if \<not> allFetched then updateDependencyMap be b1 (GetTxHash tx) tx else b1))"

section \<open>Verifying and resolving\<close>

fun run_verifier :: "verifier \<Rightarrow> TxPool \<Rightarrow> Txi \<Rightarrow> (bool \<times> TxPool) option" where
  "run_verifier (FormatVerifierRef v) p tx = Some (TxFormatVerifier_Verify v tx, p)"
| "run_verifier GraphVerifierRef p tx =
     map_option (\<lambda>(ok, v). (ok, gvTxPool v)) (GraphVerifier_Verify \<lparr>gvDag = pdag p, gvTxPool = p\<rparr> tx)"

fun run_verifiers :: "verifier list \<Rightarrow> TxPool \<Rightarrow> Txi \<Rightarrow> (bool \<times> TxPool) option" where
  "run_verifiers [] p tx = Some (True, p)"
| "run_verifiers (v # vs) p tx =
     (case run_verifier v p tx of
        None \<Rightarrow> None
      | Some (False, p1) \<Rightarrow> Some (False, p1)
      | Some (True, p1) \<Rightarrow> run_verifiers vs p1 tx)"

text \<open>\<^verbatim>\<open>niceTx\<close>, \<^verbatim>\<open>resolve\<close> and \<^verbatim>\<open>tryResolve\<close> call each other; \<open>nice\<close> stands for the recursive call. Inside
  the option is the error of a panic or the buffer; the option itself is the fuel.\<close>

definition tryResolve ::
    "(TxBuffer \<Rightarrow> Txi \<Rightarrow> (error + TxBuffer) option) \<Rightarrow> TxBuffer \<Rightarrow> Txi \<Rightarrow> (error + TxBuffer) option" where
  "tryResolve nice b tx =
     (if list_ex (\<lambda>parent. map_of (dependencyCache b) parent \<noteq> None) (Parents tx) then Some (Inr b)
      else nice b tx)"

fun resolve_children ::
    "(TxBuffer \<Rightarrow> Txi \<Rightarrow> (error + TxBuffer) option) \<Rightarrow> Hash \<Rightarrow> (Hash \<times> Txi) list \<Rightarrow> TxBuffer
      \<Rightarrow> (error + TxBuffer) option" where
  "resolve_children nice hash [] b = Some (Inr b)"
| "resolve_children nice hash ((_, v) # rest) b =
     (if GetTxHash v = hash then resolve_children nice hash rest b
      else case tryResolve nice b v of
        None \<Rightarrow> None
      | Some (Inl err) \<Rightarrow> Some (Inl err)
      | Some (Inr b1) \<Rightarrow> resolve_children nice hash rest b1)"

definition resolve ::
    "(TxBuffer \<Rightarrow> Txi \<Rightarrow> (error + TxBuffer) option) \<Rightarrow> buffer_env \<Rightarrow> TxBuffer \<Rightarrow> Txi \<Rightarrow> (error + TxBuffer) option" where
  "resolve nice be b tx =
     (let vs = map_of (dependencyCache b) (GetTxHash tx) in
      case AddRemoteTx (ordPool be) (ordNames be) (bPool b) tx of
        (addErr, p1) \<Rightarrow>
          if is_panic addErr then Some (Inl (ErrPanic ''pool''))
          else let b1 = b\<lparr>bPool := p1, dependencyCache := AList.delete (GetTxHash tx) (dependencyCache b)\<rparr>;
                   b2 = (if addErr = None then b1\<lparr>announced := announced b1 @ [tx]\<rparr> else b1)
               in case vs of
                 None \<Rightarrow> Some (Inr b2)
               | Some m \<Rightarrow> resolve_children nice (GetTxHash tx) (ordDeps be m) b2)"

fun niceTx :: "nat \<Rightarrow> buffer_env \<Rightarrow> TxBuffer \<Rightarrow> Txi \<Rightarrow> (error + TxBuffer) option" where
  "niceTx 0 be b tx = None"
| "niceTx (Suc n) be b tx =
     (let b1 = b\<lparr>knownCache := AList.delete (GetTxHash tx) (knownCache b)\<rparr> in
      case run_verifiers (bVerifiers b1) (bPool b1) tx of
        None \<Rightarrow> Some (Inl (ErrPanic ''verifier''))
      | Some (False, p1) \<Rightarrow> Some (Inr (b1\<lparr>bPool := p1\<rparr>))
      | Some (True, p1) \<Rightarrow> resolve (niceTx n be) be (b1\<lparr>bPool := p1\<rparr>) tx)"

text \<open>Every nested call happens after an entry has left the dependency cache, so one unit of fuel more than
  there are entries is enough, see \<open>niceTx_enough\<close>.\<close>

definition nice_fuel :: "TxBuffer \<Rightarrow> nat" where
  "nice_fuel b = Suc (length (dependencyCache b))"

section \<open>Handlers\<close>

definition with_known :: "buffer_env \<Rightarrow> TxBuffer \<Rightarrow> Txi \<Rightarrow> TxBuffer" where
  "with_known be b tx = b\<lparr>knownCache := AList.update (GetTxHash tx) tx (evictKnown be (GetTxHash tx) (knownCache b))\<rparr>"

text \<open>The tail that \<^verbatim>\<open>handleTx\<close> and \<^verbatim>\<open>handleTxs\<close> share.\<close>

definition admit :: "buffer_env \<Rightarrow> TxBuffer \<Rightarrow> Txi \<Rightarrow> (error + TxBuffer) option" where
  "admit be b tx =
     (case buildDependencies be b tx of
        None \<Rightarrow> Some (Inl (ErrPanic ''dag''))
      | Some (False, b1) \<Rightarrow> Some (Inr b1)
      | Some (True, b1) \<Rightarrow> niceTx (nice_fuel b1) be b1 tx)"

definition handleTx :: "buffer_env \<Rightarrow> TxBuffer \<Rightarrow> Txi \<Rightarrow> (error + TxBuffer) option" where
  "handleTx be b tx =
     (case IsKnownHash b (GetTxHash tx) of
        None \<Rightarrow> Some (Inl (ErrPanic ''dag''))
      | Some True \<Rightarrow> Some (Inr b)
      | Some False \<Rightarrow> admit be (with_known be b tx) tx)"

fun valid_txs :: "buffer_env \<Rightarrow> TxBuffer \<Rightarrow> Txi list \<Rightarrow> (Txi list \<times> TxBuffer) option" where
  "valid_txs be b [] = Some ([], b)"
| "valid_txs be b (tx # txs) =
     (case IsKnownHash b (GetTxHash tx) of
        None \<Rightarrow> None
      | Some True \<Rightarrow> valid_txs be b txs
      | Some False \<Rightarrow> map_option (\<lambda>(ts, b1). (tx # ts, b1)) (valid_txs be (with_known be b tx) txs))"

fun admit_all :: "buffer_env \<Rightarrow> TxBuffer \<Rightarrow> Txi list \<Rightarrow> (error + TxBuffer) option" where
  "admit_all be b [] = Some (Inr b)"
| "admit_all be b (tx # txs) =
     (case admit be b tx of
        None \<Rightarrow> None
      | Some (Inl err) \<Rightarrow> Some (Inl err)
      | Some (Inr b1) \<Rightarrow> admit_all be b1 txs)"

definition handleTxs :: "buffer_env \<Rightarrow> TxBuffer \<Rightarrow> Txi list \<Rightarrow> (error + TxBuffer) option" where
  "handleTxs be b txs =
     (case valid_txs be b txs of
        None \<Rightarrow> Some (Inl (ErrPanic ''dag''))
      | Some (validTxs, b1) \<Rightarrow> admit_all be b1 (Txis_sort validTxs))"

text \<open>One message of \<^verbatim>\<open>releasedTxCacheLoop\<close>: a transaction the pool has accepted.\<close>

fun release_children :: "buffer_env \<Rightarrow> Hash \<Rightarrow> (Hash \<times> Txi) list \<Rightarrow> TxBuffer \<Rightarrow> (error + TxBuffer) option" where
  "release_children be hash [] b = Some (Inr b)"
| "release_children be hash ((_, v) # rest) b =
     (if GetTxHash v = hash then release_children be hash rest b
      else if \<not> isCachedHash b (GetTxHash v) then release_children be hash rest b
      else case buf_isLocalHash b (GetTxHash v) of
        None \<Rightarrow> Some (Inl (ErrPanic ''dag''))
      | Some True \<Rightarrow> release_children be hash rest b
      | Some False \<Rightarrow>
          (case tryResolve (niceTx (nice_fuel b) be) b v of
             None \<Rightarrow> None
           | Some (Inl err) \<Rightarrow> Some (Inl err)
           | Some (Inr b1) \<Rightarrow> release_children be hash rest b1))"

definition releasedTx :: "buffer_env \<Rightarrow> TxBuffer \<Rightarrow> Txi \<Rightarrow> (error + TxBuffer) option" where
  "releasedTx be b tx =
     (let b1 = b\<lparr>knownCache := AList.delete (GetTxHash tx) (knownCache b)\<rparr> in
      case map_of (dependencyCache b1) (GetTxHash tx) of
        None \<Rightarrow> Some (Inr b1)
      | Some vs \<Rightarrow>
          release_children be (GetTxHash tx) (ordDeps be vs)
            (b1\<lparr>dependencyCache := AList.delete (GetTxHash tx) (dependencyCache b1)\<rparr>))"

text \<open>The messages the two goroutines of the buffer serve. A self-generated transaction is handled like a
  received one.\<close>

datatype buffer_event = ReceivedNewTx Txi | ReceivedNewTxs "Txi list" | SelfGeneratedNewTx Txi | TxAddedToPool Txi

fun buffer_loop :: "buffer_env \<Rightarrow> TxBuffer \<Rightarrow> buffer_event \<Rightarrow> (error + TxBuffer) option" where
  "buffer_loop be b (ReceivedNewTx v) = handleTx be b v"
| "buffer_loop be b (ReceivedNewTxs txs) = handleTxs be b txs"
| "buffer_loop be b (SelfGeneratedNewTx v) = handleTx be b v"
| "buffer_loop be b (TxAddedToPool tx) = releasedTx be b tx"

fun buffer_run :: "buffer_env \<Rightarrow> TxBuffer \<Rightarrow> buffer_event list \<Rightarrow> (error + TxBuffer) option" where
  "buffer_run be b [] = Some (Inr b)"
| "buffer_run be b (e # es) =
     (case buffer_loop be b e of
        None \<Rightarrow> None
      | Some (Inl err) \<Rightarrow> Some (Inl err)
      | Some (Inr b1) \<Rightarrow> buffer_run be b1 es)"

section \<open>Missing ancestors\<close>

text \<open>\<^verbatim>\<open>getMissingHashes\<close>: a breadth-first walk over everything known. \<open>lDedup\<close> holds the hashes that were queued
  as parents; its counts only steer a log message. The result is the set of hashes met that are not known.\<close>

fun dedup_parents :: "Hash list \<Rightarrow> Hash list \<Rightarrow> Hash set \<Rightarrow> Hash list \<times> Hash set" where
  "dedup_parents [] l lDedup = (l, lDedup)"
| "dedup_parents (v # vs) l lDedup =
     (if v \<notin> lDedup then dedup_parents vs (l @ [v]) (insert v lDedup) else dedup_parents vs l lDedup)"

function missing_loop :: "TxBuffer \<Rightarrow> Hash list \<Rightarrow> Hash set \<Rightarrow> Hash set \<Rightarrow> Hash set \<Rightarrow> Hash set option" where
  "missing_loop b [] lDedup visited s = Some s"
| "missing_loop b (hash # l) lDedup visited s =
     (if hash \<in> visited then missing_loop b l lDedup visited s
      else case GetFromAllKnownSource b hash of
        None \<Rightarrow> None
      | Some (Some parentTx) \<Rightarrow>
          (case dedup_parents (Parents parentTx) l lDedup of
             (l', lDedup') \<Rightarrow> missing_loop b l' lDedup' (insert hash visited) s)
      | Some None \<Rightarrow> missing_loop b l lDedup (insert hash visited) (insert hash s))"
  by pat_completeness auto
termination
proof (relation "(\<lambda>(b, l, d, visited, s). card (- visited)) <*mlex*> measure (\<lambda>(b, l, d, visited, s). length l)", goal_cases)
  case 1
  show ?case by (intro wf_mlex wf_measure)
next
  case (2 b hash l d visited s)
  show ?case by (rule mlex_leq) simp_all
qed (auto intro!: mlex_less psubset_card_mono)

definition getMissingHashes :: "TxBuffer \<Rightarrow> Txi \<Rightarrow> Hash set option" where
  "getMissingHashes b txi = missing_loop b (Parents txi) {} {} {}"

section \<open>Fuel\<close>

text \<open>The dependency cache only shrinks while transactions are resolved.\<close>

abbreviation deps :: "TxBuffer \<Rightarrow> nat" where
  "deps b \<equiv> length (dependencyCache b)"

definition shrinks :: "nat \<Rightarrow> (error + TxBuffer) option \<Rightarrow> bool" where
  "shrinks k r \<longleftrightarrow> (case r of None \<Rightarrow> False | Some (Inl _) \<Rightarrow> True | Some (Inr b) \<Rightarrow> length (dependencyCache b) \<le> k)"

lemma length_delete_less: "map_of xs k \<noteq> None \<Longrightarrow> length (AList.delete k xs) < length xs"
proof -
  assume "map_of xs k \<noteq> None"
  then obtain v where "(k, v) \<in> set xs" by (auto dest: map_of_SomeD)
  then show ?thesis unfolding AList.delete_eq by (rule length_filter_less) simp
qed

lemma shrinks_cases:
  assumes "shrinks k r"
  obtains err where "r = Some (Inl err)" | b where "r = Some (Inr b)" "deps b \<le> k"
  using assms by (auto simp: shrinks_def split: option.splits sum.splits)

lemma verdict_cases:
  obtains "r = None" | p where "r = Some (False, p)" | p where "r = Some (True, p)"
  by (metis (full_types) option.exhaust surj_pair)

lemma shrinks_mono: "shrinks k r \<Longrightarrow> k \<le> m \<Longrightarrow> shrinks m r"
  by (auto simp: shrinks_def split: option.splits sum.splits)

lemma resolve_children_shrinks:
  assumes "\<And>b tx. deps b < n \<Longrightarrow> shrinks (deps b) (nice b tx)" "deps b < n"
  shows "shrinks (deps b) (resolve_children nice hash vs b)"
  using assms(2)
proof (induction vs arbitrary: b)
  case (Cons x vs)
  obtain h v where x: "x = (h, v)" by (cases x)
  have "shrinks (deps b) (tryResolve nice b v)" using assms(1) [OF Cons.prems] by (simp add: tryResolve_def shrinks_def)
  then show ?case
  proof (cases rule: shrinks_cases)
    case 1
    then show ?thesis using x Cons by (simp add: shrinks_def)
  next
    case (2 b1)
    then have "shrinks (deps b) (resolve_children nice hash vs b1)" using Cons by (intro shrinks_mono [OF Cons.IH]) simp_all
    then show ?thesis using x 2 Cons.IH [OF Cons.prems] by simp
  qed
qed (simp add: shrinks_def)

lemma resolve_shrinks:
  assumes "\<And>b tx. deps b < n \<Longrightarrow> shrinks (deps b) (nice b tx)" "deps b < Suc n"
  shows "shrinks (deps b) (resolve nice be b tx)"
proof -
  obtain addErr p1 where a: "AddRemoteTx (ordPool be) (ordNames be) (bPool b) tx = (addErr, p1)" by fastforce
  define b1 where "b1 = b\<lparr>bPool := p1, dependencyCache := AList.delete (GetTxHash tx) (dependencyCache b)\<rparr>"
  define b2 where "b2 = (if addErr = None then b1\<lparr>announced := announced b1 @ [tx]\<rparr> else b1)"
  have d: "dependencyCache b2 = AList.delete (GetTxHash tx) (dependencyCache b)" by (simp add: b2_def b1_def)
  then have le: "deps b2 \<le> deps b" by (simp add: length_delete_le)
  show ?thesis
  proof (cases "map_of (dependencyCache b) (GetTxHash tx)")
    case None
    then have "resolve nice be b tx = (if is_panic addErr then Some (Inl (ErrPanic ''pool'')) else Some (Inr b2))"
      using a by (simp add: resolve_def b2_def b1_def Let_def)
    then show ?thesis using le by (simp add: shrinks_def)
  next
    case (Some m)
    then have "deps b2 < n" using d length_delete_less [of "dependencyCache b" "GetTxHash tx"] assms(2) by simp
    then have "shrinks (deps b) (resolve_children nice (GetTxHash tx) (ordDeps be m) b2)"
      using le by (intro shrinks_mono [OF resolve_children_shrinks [OF assms(1)]])
    moreover have "resolve nice be b tx = (if is_panic addErr then Some (Inl (ErrPanic ''pool''))
        else resolve_children nice (GetTxHash tx) (ordDeps be m) b2)"
      using a Some by (simp add: resolve_def b2_def b1_def Let_def)
    ultimately show ?thesis by (simp add: shrinks_def)
  qed
qed

lemma niceTx_enough: "deps b < n \<Longrightarrow> shrinks (deps b) (niceTx n be b tx)"
proof (induction n arbitrary: b tx)
  case (Suc n)
  let ?b1 = "b\<lparr>knownCache := AList.delete (GetTxHash tx) (knownCache b)\<rparr>"
  have "shrinks (deps b) (resolve (niceTx n be) be (?b1\<lparr>bPool := p1\<rparr>) tx)" for p1
    using resolve_shrinks [OF Suc.IH, where b = "?b1\<lparr>bPool := p1\<rparr>"] Suc.prems by simp
  moreover obtain r where "run_verifiers (bVerifiers ?b1) (bPool ?b1) tx = r" by blast
  ultimately show ?case by (cases r rule: verdict_cases) (simp_all add: shrinks_def Let_def)
qed simp

section \<open>What the buffer hands to the pool\<close>

definition parents_known :: "TxPool \<Rightarrow> Txi \<Rightarrow> bool" where
  "parents_known p t \<longleftrightarrow> (\<forall>h \<in> set (Parents t). \<exists>x. known \<lparr>gvDag = pdag p, gvTxPool = p\<rparr> h x)"

text \<open>A pool that changes only by rejected verifications and by verified transactions handed to it, with the
  transactions it accepted.\<close>

inductive verified_adds :: "buffer_env \<Rightarrow> verifier list \<Rightarrow> TxPool \<Rightarrow> Txi list \<Rightarrow> TxPool \<Rightarrow> bool" for be vs p where
  none: "verified_adds be vs p [] p"
| refused: "verified_adds be vs p ts q \<Longrightarrow> run_verifiers vs q t = Some (False, q') \<Longrightarrow> verified_adds be vs p ts q'"
| failed: "verified_adds be vs p ts q \<Longrightarrow> run_verifiers vs q t = Some (True, q1) \<Longrightarrow> parents_known q1 t
    \<Longrightarrow> AddRemoteTx (ordPool be) (ordNames be) q1 t = (Some err, q2) \<Longrightarrow> verified_adds be vs p ts q2"
| taken: "verified_adds be vs p ts q \<Longrightarrow> run_verifiers vs q t = Some (True, q1) \<Longrightarrow> parents_known q1 t
    \<Longrightarrow> AddRemoteTx (ordPool be) (ordNames be) q1 t = (None, q2) \<Longrightarrow> verified_adds be vs p (ts @ [t]) q2"

lemma verified_adds_trans:
  "verified_adds be vs q us r \<Longrightarrow> verified_adds be vs p ts q \<Longrightarrow> verified_adds be vs p (ts @ us) r"
proof (induction rule: verified_adds.induct)
  case (taken us r t r1 r2)
  then show ?case using verified_adds.taken [of be vs p "ts @ us"] by simp
qed (auto intro: verified_adds.intros)

text \<open>Verification reads the pool; it may sort the keys of a flow.\<close>

lemma run_verifier_frame:
  assumes "run_verifier v p t = Some (ok, q)"
  shows "pdag q = pdag p" "txLookup q = txLookup p"
proof -
  have "pdag q = pdag p \<and> txLookup q = txLookup p"
  proof (cases v)
    case GraphVerifierRef
    have "pdag (gvTxPool v') = pdag p \<and> txLookup (gvTxPool v') = txLookup p"
      if "verifyA3 \<lparr>gvDag = pdag p, gvTxPool = p\<rparr> t = Some (b, v')" for b v'
      using that by (auto simp: verifyA3_def pool_GetLatestNonce_def split: if_splits sum.splits option.splits prod.splits bool.splits Txi.splits)
    then show ?thesis using assms GraphVerifierRef
      by (auto simp: GraphVerifier_Verify_def split: option.splits bool.splits)
  qed (use assms in simp)
  then show "pdag q = pdag p" "txLookup q = txLookup p" by simp_all
qed

lemma parents_known_frame: "pdag q = pdag p \<Longrightarrow> txLookup q = txLookup p \<Longrightarrow> parents_known q t = parents_known p t"
  by (simp add: parents_known_def known_def pool_get_def)

lemma graph_parents_known:
  assumes "run_verifier GraphVerifierRef p t = Some (True, q)"
  shows "parents_known p t"
proof -
  have "verifyWeight \<lparr>gvDag = pdag p, gvTxPool = p\<rparr> t = Some True"
    using assms by (auto simp: GraphVerifier_Verify_def split: option.splits bool.splits)
  then obtain ps where "weight_parents \<lparr>gvDag = pdag p, gvTxPool = p\<rparr> (Parents t) = Some (Some ps)"
    by (auto simp: verifyWeight_def split: option.splits)
  from weight_parents_known [OF this] show ?thesis
    unfolding parents_known_def by (metis in_set_conv_nth list_all2_conv_all_nth)
qed

lemma run_verifiers_parents:
  assumes "run_verifiers vs p t = Some (True, q)" "GraphVerifierRef \<in> set vs"
  shows "parents_known q t"
proof -
  have frame: "pdag q = pdag p \<and> txLookup q = txLookup p" if "run_verifiers vs p t = Some (ok, q)" for vs p ok
    using that
  proof (induction vs arbitrary: p)
    case (Cons v vs)
    obtain b p1 where r: "run_verifier v p t = Some (b, p1)" using Cons.prems by (cases "run_verifier v p t") auto
    then show ?case using run_verifier_frame [OF r] Cons by (cases b) auto
  qed simp
  show ?thesis using assms
  proof (induction vs arbitrary: p)
    case (Cons v vs)
    obtain p1 where r: "run_verifier v p t = Some (True, p1)" "run_verifiers vs p1 t = Some (True, q)"
      using Cons.prems(1) by (auto split: option.splits bool.splits)
    show ?case
    proof (cases "v = GraphVerifierRef")
      case True
      then have "parents_known p t" using graph_parents_known r(1) by blast
      then show ?thesis using parents_known_frame [of q p t] frame [OF Cons.prems(1)] by simp
    next
      case False
      then show ?thesis using Cons.IH [OF r(2)] Cons.prems(2) by simp
    qed
  qed simp
qed

text \<open>What a run of the buffer did: it announced exactly the transactions the pool took.\<close>

definition hands_over :: "buffer_env \<Rightarrow> TxBuffer \<Rightarrow> (error + TxBuffer) option \<Rightarrow> bool" where
  "hands_over be b r \<longleftrightarrow>
     (case r of
        Some (Inr b') \<Rightarrow> bVerifiers b' = bVerifiers b
          \<and> (\<exists>ts. announced b' = announced b @ ts \<and> verified_adds be (bVerifiers b) (bPool b) ts (bPool b'))
      | _ \<Rightarrow> True)"

lemma hands_over_refl: "hands_over be b (Some (Inr b))"
  by (auto simp: hands_over_def intro: verified_adds.none)

lemma hands_over_same:
  "bVerifiers b' = bVerifiers b \<Longrightarrow> announced b' = announced b \<Longrightarrow> bPool b' = bPool b \<Longrightarrow> hands_over be b (Some (Inr b'))"
  by (auto simp: hands_over_def intro: verified_adds.none)

lemma hands_over_trans:
  assumes "hands_over be b (Some (Inr b1))" "hands_over be b1 r"
  shows "hands_over be b r"
proof (cases "\<exists>b2. r = Some (Inr b2)")
  case True
  then obtain b2 where r: "r = Some (Inr b2)" by blast
  obtain ts where ts: "announced b1 = announced b @ ts" "verified_adds be (bVerifiers b) (bPool b) ts (bPool b1)" "bVerifiers b1 = bVerifiers b"
    using assms(1) by (auto simp: hands_over_def)
  obtain us where us: "announced b2 = announced b1 @ us" "verified_adds be (bVerifiers b) (bPool b1) us (bPool b2)" "bVerifiers b2 = bVerifiers b"
    using assms(2) ts(3) r by (auto simp: hands_over_def)
  have "verified_adds be (bVerifiers b) (bPool b) (ts @ us) (bPool b2)" by (rule verified_adds_trans [OF us(2) ts(2)])
  then show ?thesis using r ts us by (auto simp: hands_over_def)
qed (auto simp: hands_over_def split: option.splits sum.splits)

lemma resolve_children_hands:
  assumes "\<And>b tx. GraphVerifierRef \<in> set (bVerifiers b) \<Longrightarrow> hands_over be b (nice b tx)" "GraphVerifierRef \<in> set (bVerifiers b)"
  shows "hands_over be b (resolve_children nice hash vs b)"
  using assms(2)
proof (induction vs arbitrary: b)
  case (Cons x vs)
  obtain h v where x: "x = (h, v)" by (cases x)
  have t: "hands_over be b (tryResolve nice b v)"
    using assms(1) [OF Cons.prems] by (simp add: tryResolve_def hands_over_refl)
  show ?case
  proof (cases "GetTxHash v = hash \<or> (\<nexists>b1. tryResolve nice b v = Some (Inr b1))")
    case True
    then show ?thesis using x Cons.IH [OF Cons.prems]
      by (cases "GetTxHash v = hash") (auto simp: hands_over_def split: option.splits sum.splits)
  next
    case False
    then obtain b1 where b1: "tryResolve nice b v = Some (Inr b1)" by blast
    then have "GraphVerifierRef \<in> set (bVerifiers b1)" using t Cons.prems by (simp add: hands_over_def)
    then have "hands_over be b (resolve_children nice hash vs b1)" using hands_over_trans t b1 Cons.IH by metis
    then show ?thesis using x b1 False by simp
  qed
qed (simp add: hands_over_refl)

lemma resolve_hands:
  assumes "\<And>b tx. GraphVerifierRef \<in> set (bVerifiers b) \<Longrightarrow> hands_over be b (nice b tx)" "GraphVerifierRef \<in> set (bVerifiers b)"
    and r: "run_verifiers (bVerifiers b) (bPool b) tx = Some (True, p1)"
  shows "hands_over be b (resolve nice be (b\<lparr>bPool := p1\<rparr>) tx)"
proof -
  obtain addErr p2 where a: "AddRemoteTx (ordPool be) (ordNames be) p1 tx = (addErr, p2)" by fastforce
  define b1 where "b1 = b\<lparr>bPool := p2, dependencyCache := AList.delete (GetTxHash tx) (dependencyCache b)\<rparr>"
  define b2 where "b2 = (if addErr = None then b1\<lparr>announced := announced b1 @ [tx]\<rparr> else b1)"
  note start = verified_adds.none [of be "bVerifiers b" "bPool b"]
  have pk: "parents_known p1 tx" by (rule run_verifiers_parents [OF r assms(2)])
  have "verified_adds be (bVerifiers b) (bPool b) (if addErr = None then [tx] else []) p2"
    using a verified_adds.taken [OF start r pk] verified_adds.failed [OF start r pk] by (cases addErr) simp_all
  then have h2: "hands_over be b (Some (Inr b2))" by (auto simp: hands_over_def b2_def b1_def)
  have v2: "GraphVerifierRef \<in> set (bVerifiers b2)" using assms(2) by (simp add: b2_def b1_def)
  have "hands_over be b (resolve_children nice (GetTxHash tx) vs b2)" for vs
    by (rule hands_over_trans [OF h2 resolve_children_hands [OF assms(1) v2]])
  moreover have "resolve nice be (b\<lparr>bPool := p1\<rparr>) tx = (if is_panic addErr then Some (Inl (ErrPanic ''pool''))
      else case map_of (dependencyCache b) (GetTxHash tx) of None \<Rightarrow> Some (Inr b2)
        | Some m \<Rightarrow> resolve_children nice (GetTxHash tx) (ordDeps be m) b2)"
    using a unfolding resolve_def b2_def b1_def
    by (cases addErr; cases "map_of (dependencyCache b) (GetTxHash tx)") (simp_all add: Let_def)
  ultimately show ?thesis using h2 by (cases "map_of (dependencyCache b) (GetTxHash tx)") (auto simp: hands_over_def)
qed

lemma niceTx_hands: "GraphVerifierRef \<in> set (bVerifiers b) \<Longrightarrow> hands_over be b (niceTx n be b tx)"
proof (induction n arbitrary: b tx)
  case (Suc n)
  let ?b1 = "b\<lparr>knownCache := AList.delete (GetTxHash tx) (knownCache b)\<rparr>"
  have same: "hands_over be b (Some (Inr ?b1))" by (rule hands_over_same) simp_all
  obtain r where r: "run_verifiers (bVerifiers ?b1) (bPool ?b1) tx = r" by blast
  have "hands_over be ?b1 (niceTx (Suc n) be b tx)"
  proof (cases r rule: verdict_cases)
    case (2 p)
    have "verified_adds be (bVerifiers b) (bPool b) [] p"
      using verified_adds.refused [OF verified_adds.none, of "bVerifiers b" "bPool b" tx p] r 2 by simp
    then show ?thesis using r 2 by (auto simp: hands_over_def)
  next
    case (3 p)
    have "hands_over be ?b1 (resolve (niceTx n be) be (?b1\<lparr>bPool := p\<rparr>) tx)"
      using Suc r 3 by (intro resolve_hands) simp_all
    then show ?thesis using r 3 by (simp add: Let_def)
  qed (use r in \<open>simp add: hands_over_def\<close>)
  then show ?case using hands_over_trans [OF same] by blast
qed (simp add: hands_over_def)

section \<open>Properties of a whole run\<close>

text \<open>The handlers keep two facts of their result: enough fuel, and only verified additions.\<close>

definition serves :: "buffer_env \<Rightarrow> TxBuffer \<Rightarrow> (error + TxBuffer) option \<Rightarrow> bool" where
  "serves be b r \<longleftrightarrow> r \<noteq> None \<and> (GraphVerifierRef \<in> set (bVerifiers b) \<longrightarrow> hands_over be b r)"

lemma serves_error [simp]: "serves be b (Some (Inl err))"
  by (simp add: serves_def hands_over_def)

lemma serves_same:
  "bVerifiers b' = bVerifiers b \<Longrightarrow> announced b' = announced b \<Longrightarrow> bPool b' = bPool b \<Longrightarrow> serves be b (Some (Inr b'))"
  by (simp add: serves_def hands_over_same)

lemma serves_trans: "serves be b (Some (Inr b1)) \<Longrightarrow> serves be b1 r \<Longrightarrow> serves be b r"
  unfolding serves_def by (auto intro: hands_over_trans) (auto simp: hands_over_def intro: hands_over_trans)

lemma serves_cases:
  assumes "serves be b r"
  obtains err where "r = Some (Inl err)" | b1 where "r = Some (Inr b1)"
  using assms unfolding serves_def by (metis option.exhaust sum.exhaust)

lemma niceTx_serves: "deps b < n \<Longrightarrow> serves be b (niceTx n be b tx)"
  using niceTx_enough [of b n be tx] niceTx_hands [of b be n tx]
  by (auto simp: serves_def shrinks_def split: option.splits)

lemma dependency_loop_frame:
  "dependency_loop be tx ps f s b = Some (r, b') \<Longrightarrow> bPool b' = bPool b \<and> bVerifiers b' = bVerifiers b \<and> announced b' = announced b"
proof (induction be tx ps f s b rule: dependency_loop.induct)
  case (2 be tx h ps f s b)
  obtain l where l: "buf_isLocalHash b h = Some l" using 2(4) by (cases "buf_isLocalHash b h") auto
  show ?case
  proof (cases l)
    case True
    then show ?thesis using 2(1) [OF l] 2(4) l by simp
  next
    case False
    then show ?thesis using 2(2,3) 2(4) l by (cases "isCachedHash b h") (simp_all add: Let_def updateDependencyMap_def)
  qed
qed simp

lemma admit_serves: "serves be b (admit be b tx)"
proof (cases "buildDependencies be b tx")
  case (Some x)
  obtain ok b1 where x: "x = (ok, b1)" by (cases x)
  then obtain b0 where "dependency_loop be tx (Parents tx) True False b = Some (ok, b0)"
      and b1: "b1 = (if \<not> ok then updateDependencyMap be b0 (GetTxHash tx) tx else b0)"
    using Some by (auto simp: buildDependencies_def split: option.splits prod.splits)
  from dependency_loop_frame [OF this(1)] have s: "serves be b (Some (Inr b1))"
    by (intro serves_same) (simp_all add: b1 updateDependencyMap_def)
  then show ?thesis using Some x serves_trans [OF s niceTx_serves [of b1 "nice_fuel b1"]]
    by (cases ok) (simp_all add: admit_def nice_fuel_def)
qed (simp add: admit_def)

lemma with_known_serves: "serves be b (Some (Inr (with_known be b tx)))"
  by (rule serves_same) (simp_all add: with_known_def)

lemma handleTx_serves: "serves be b (handleTx be b tx)"
proof (cases "IsKnownHash b (GetTxHash tx)")
  case (Some k)
  then show ?thesis using serves_trans [OF with_known_serves admit_serves] serves_same [of b b]
    by (cases k) (simp_all add: handleTx_def)
qed (simp add: handleTx_def)

lemma valid_txs_frame:
  "valid_txs be b txs = Some (ts, b') \<Longrightarrow> bPool b' = bPool b \<and> bVerifiers b' = bVerifiers b \<and> announced b' = announced b"
proof (induction txs arbitrary: b ts)
  case (Cons tx txs)
  obtain k where k: "IsKnownHash b (GetTxHash tx) = Some k" using Cons.prems by (cases "IsKnownHash b (GetTxHash tx)") auto
  show ?case
  proof (cases k)
    case False
    then obtain us where "valid_txs be (with_known be b tx) txs = Some (us, b')" using Cons.prems k by auto
    from Cons.IH [OF this] show ?thesis by (simp add: with_known_def)
  qed (use Cons k in simp)
qed simp

lemma admit_all_serves: "serves be b (admit_all be b txs)"
proof (induction txs arbitrary: b)
  case (Cons tx txs)
  show ?case using admit_serves [of be b tx]
  proof (cases rule: serves_cases)
    case (2 b1)
    then show ?thesis using serves_trans [of be b b1, OF _ Cons.IH] admit_serves [of be b tx] by simp
  qed simp
qed (simp add: serves_same)

lemma handleTxs_serves: "serves be b (handleTxs be b txs)"
proof (cases "valid_txs be b txs")
  case (Some x)
  obtain ts b1 where x: "x = (ts, b1)" by (cases x)
  have "serves be b (Some (Inr b1))" using valid_txs_frame [of be b txs ts b1] Some x by (intro serves_same) simp_all
  from serves_trans [OF this admit_all_serves] show ?thesis using Some x by (simp add: handleTxs_def)
qed (simp add: handleTxs_def)

lemma release_children_serves: "serves be b (release_children be hash vs b)"
proof (induction vs arbitrary: b)
  case (Cons x vs)
  obtain h v where x: "x = (h, v)" by (cases x)
  have t: "serves be b (tryResolve (niceTx (nice_fuel b) be) b v)"
    using niceTx_serves [of b "nice_fuel b"] by (simp add: tryResolve_def serves_same nice_fuel_def)
  have "serves be b (case tryResolve (niceTx (nice_fuel b) be) b v of None \<Rightarrow> None
      | Some (Inl err) \<Rightarrow> Some (Inl err) | Some (Inr b1) \<Rightarrow> release_children be hash vs b1)"
    using t
  proof (cases rule: serves_cases)
    case (2 b1)
    then show ?thesis using serves_trans [of be b b1, OF _ Cons.IH] t by simp
  qed simp
  then show ?case using x Cons.IH [of b]
    by (cases "buf_isLocalHash b (GetTxHash v)"; cases "the (buf_isLocalHash b (GetTxHash v))") simp_all
qed (simp add: serves_same)

lemma releasedTx_serves: "serves be b (releasedTx be b tx)"
  using serves_trans [OF serves_same release_children_serves] serves_same
  by (simp add: releasedTx_def Let_def split: option.split)

lemma buffer_run_serves: "serves be b (buffer_run be b es)"
proof (induction es arbitrary: b)
  case (Cons e es)
  have s: "serves be b (buffer_loop be b e)" by (cases e) (simp_all add: handleTx_serves handleTxs_serves releasedTx_serves)
  then show ?case
  proof (cases rule: serves_cases)
    case (2 b1)
    then show ?thesis using serves_trans [of be b b1, OF _ Cons.IH] s by simp
  qed simp
qed (simp add: serves_same)

text \<open>Fuel beyond what is needed changes nothing.\<close>

lemma resolve_children_mono:
  assumes "\<And>b tx r. nice b tx = Some r \<Longrightarrow> nice' b tx = Some r"
  shows "resolve_children nice hash vs b = Some r \<Longrightarrow> resolve_children nice' hash vs b = Some r"
proof (induction vs arbitrary: b)
  case (Cons x vs)
  obtain h v where x: "x = (h, v)" by (cases x)
  have "tryResolve nice' b v = Some r" if "tryResolve nice b v = Some r" for r
    using that assms by (simp add: tryResolve_def split: if_splits)
  then show ?case using Cons x by (auto split: if_splits option.splits sum.splits)
qed simp

lemma niceTx_Suc: "niceTx n be b tx = Some r \<Longrightarrow> niceTx (Suc n) be b tx = Some r"
proof (induction n arbitrary: b tx r)
  case (Suc n)
  have "resolve (niceTx (Suc n) be) be b tx = Some r" if "resolve (niceTx n be) be b tx = Some r" for b r
    using that resolve_children_mono [OF Suc.IH]
    by (auto simp: resolve_def Let_def simp del: niceTx.simps split: prod.splits if_splits option.splits)
  then show ?case using Suc.prems by (simp only: niceTx.simps(2)) (auto simp: Let_def simp del: niceTx.simps split: option.splits bool.splits)
qed simp

lemma niceTx_more: "niceTx n be b tx = Some r \<Longrightarrow> niceTx (n + k) be b tx = Some r"
  by (induction k) (simp_all add: niceTx_Suc del: niceTx.simps)

section \<open>The walk for missing ancestors\<close>

inductive missing_reach :: "TxBuffer \<Rightarrow> Txi \<Rightarrow> Hash \<Rightarrow> bool" for b txi where
  parent: "h \<in> set (Parents txi) \<Longrightarrow> missing_reach b txi h"
| up: "missing_reach b txi h \<Longrightarrow> GetFromAllKnownSource b h = Some (Some t) \<Longrightarrow> h' \<in> set (Parents t) \<Longrightarrow> missing_reach b txi h'"

lemma dedup_parents_sets:
  "dedup_parents vs l d = (l', d') \<Longrightarrow> set l' = set l \<union> (set vs - d) \<and> d' = d \<union> set vs"
  by (induction vs arbitrary: l d) (auto split: if_splits)

definition walk_inv :: "TxBuffer \<Rightarrow> Txi \<Rightarrow> Hash list \<Rightarrow> Hash set \<Rightarrow> Hash set \<Rightarrow> Hash set \<Rightarrow> bool" where
  "walk_inv b txi l lDedup visited s \<longleftrightarrow>
     visited \<union> set l \<subseteq> Collect (missing_reach b txi) \<and> set (Parents txi) \<union> lDedup \<subseteq> visited \<union> set l
     \<and> (\<forall>h \<in> visited. \<forall>t. GetFromAllKnownSource b h = Some (Some t) \<longrightarrow> set (Parents t) \<subseteq> visited \<union> set l)
     \<and> s = {h \<in> visited. GetFromAllKnownSource b h = Some None}"

lemma walk_inv_closed:
  assumes "walk_inv b txi [] lDedup visited s"
  shows "s = {h. missing_reach b txi h \<and> GetFromAllKnownSource b h = Some None}"
proof -
  have "h \<in> visited" if "missing_reach b txi h" for h
    using that
  proof induction
    case (up h t h')
    then show ?case using assms unfolding walk_inv_def by (simp; blast)
  qed (use assms in \<open>auto simp: walk_inv_def\<close>)
  then show ?thesis using assms unfolding walk_inv_def by auto
qed

lemma missing_loop_exact:
  assumes "\<And>h. GetFromAllKnownSource b h \<noteq> None" "walk_inv b txi l lDedup visited s"
  shows "missing_loop b l lDedup visited s = Some {h. missing_reach b txi h \<and> GetFromAllKnownSource b h = Some None}"
  using assms
proof (induction b l lDedup visited s rule: missing_loop.induct)
  case (1 b d visited s)
  then show ?case using walk_inv_closed by simp
next
  case (2 b hash l d visited s)
  note inv = 2(5) [unfolded walk_inv_def]
  show ?case
  proof (cases "hash \<in> visited")
    case True
    then have "walk_inv b txi l d visited s" using inv unfolding walk_inv_def by (simp add: insert_absorb)
    then show ?thesis using True 2(1) [OF True 2(4)] by simp
  next
    case False
    obtain r where r: "GetFromAllKnownSource b hash = Some r" using 2(4) by blast
    show ?thesis
    proof (cases r)
      case None
      then have "walk_inv b txi l d (insert hash visited) (insert hash s)" using inv r unfolding walk_inv_def by auto
      then have "missing_loop b l d (insert hash visited) (insert hash s)
          = Some {h. missing_reach b txi h \<and> GetFromAllKnownSource b h = Some None}"
        by (rule 2(2) [OF False r None 2(4)])
      then show ?thesis using False r None by simp
    next
      case (Some t)
      obtain l' d' where d: "dedup_parents (Parents t) l d = (l', d')" by fastforce
      have reach: "missing_reach b txi h" if "h \<in> set (Parents t)" for h
        using missing_reach.up [of b txi hash t h] that inv r Some by auto
      have "walk_inv b txi l' d' (insert hash visited) s"
        using inv r Some reach dedup_parents_sets [OF d] unfolding walk_inv_def by auto blast
      then show ?thesis using 2(3) [OF False r Some d [symmetric] 2(4)] False r Some d by simp
    qed
  qed
qed

section \<open>Properties\<close>

text \<open>C23: every message of the two goroutines of the buffer is served in finitely many steps. The recursion of
  \<^verbatim>\<open>niceTx\<close>, \<^verbatim>\<open>resolve\<close> and \<^verbatim>\<open>tryResolve\<close> ends whatever cycles the dependency cache holds, and the fuel chosen
  is never what stops it.\<close>

theorem buffer_terminates:
  "(\<exists>r. buffer_run be b es = Some r) \<and> niceTx (nice_fuel b + k) be b tx = niceTx (nice_fuel b) be b tx"
proof -
  obtain r where "niceTx (nice_fuel b) be b tx = Some r"
    using niceTx_enough [of b "nice_fuel b" be tx] by (auto simp: shrinks_def nice_fuel_def simp del: niceTx.simps split: option.splits)
  then show ?thesis using niceTx_more [of "nice_fuel b"] buffer_run_serves [of be b es] by (auto simp: serves_def)
qed

text \<open>C22: whatever messages arrive, in whatever order and however the maps are iterated, a buffer that has the
  graph verifier hands a transaction to the pool only after every verifier accepted it and while all its parents
  are known, it changes the pool in no other way, and it announces exactly the transactions the pool took, in
  the order it took them.\<close>

theorem buffer_adds_verified:
  assumes "GraphVerifierRef \<in> set (bVerifiers b)" "buffer_run be b es = Some (Inr b')"
  shows "\<exists>ts. announced b' = announced b @ ts \<and> verified_adds be (bVerifiers b) (bPool b) ts (bPool b')"
  using buffer_run_serves [of be b es] assms by (simp add: serves_def hands_over_def)

text \<open>C27: the walk for missing ancestors ends, and returns exactly the hashes that are reached from the
  transaction over known transactions and are known neither to the buffer, the pool nor the DAG.\<close>

theorem getMissingHashes_exact:
  assumes "dag_readable (pdag (bPool b))"
  shows "getMissingHashes b txi = Some {h. missing_reach b txi h \<and> GetFromAllKnownSource b h = Some None}"
proof -
  have "GetFromAllKnownSource b h \<noteq> None" for h
    using assms by (auto simp: GetFromAllKnownSource_def GetFromProviders_def dag_readable_def split: option.splits)
  moreover have "walk_inv b txi (Parents txi) {} {} {}" by (auto simp: walk_inv_def intro: missing_reach.parent)
  ultimately show ?thesis unfolding getMissingHashes_def by (rule missing_loop_exact)
qed


section \<open>Witnesses\<close>

text \<open>A buffer over the sample pool that misses the sample transaction: its child waits, and a grandchild waits on
  the child.\<close>

definition sample_buffer_env :: buffer_env where
  "sample_buffer_env = \<lparr>ordDeps = id, ordPool = sample_pool_orders, ordNames = id, evictDeps = (\<lambda>k d. d), evictKnown = (\<lambda>k d. d)\<rparr>"

definition sample_grandchild :: Tx where
  "sample_grandchild = sample_child\<lparr>HashOf := 11, AccountNonce := 3, ParentsHash := [10], Weight := 3\<rparr>"

definition sample_buffer :: TxBuffer where
  "sample_buffer = NewTxBuffer sample_pool [GraphVerifierRef]"

lemma sample_hashes [simp]: "HashOf sample_child = 10" "HashOf sample_grandchild = 11" "ParentsHash sample_grandchild = [10]"
  by (simp_all add: sample_child_def sample_grandchild_def)

lemma sample_local: "buf_isLocalHash b h = Some (h = 1)" if "bPool b = sample_pool"
  using sample_archived [of h] that by (auto simp: buf_isLocalHash_def pool_get_eq sample_pool_fields)

definition sample_waiting :: TxBuffer where
  "sample_waiting = sample_buffer\<lparr>knownCache := [(10, TxiTx sample_child)],
     dependencyCache := [(7, [(10, TxiTx sample_child)]), (10, [(10, TxiTx sample_child)])], enqueued := [(Some 7, False)]\<rparr>"

lemma sample_waits: "handleTx sample_buffer_env sample_buffer (TxiTx sample_child) = Some (Inr sample_waiting)"
  by (simp add: handleTx_def IsKnownHash_def sample_local isCachedHash_def GetFromBuffer_def sample_buffer_def NewTxBuffer_def
      admit_def with_known_def buildDependencies_def updateDependencyMap_def sample_buffer_env_def sample_waiting_def
      sample_pool_fields Let_def)


theorem getMissingHashes_exact_witness: "getMissingHashes sample_waiting (TxiTx sample_grandchild) = Some {7}"
proof -
  have g: "GetFromAllKnownSource sample_waiting h
      = Some (if h = 10 then Some (TxiTx sample_child) else if h = 1 then Some (TxiSeq sample_genesis) else None)" for h
    using sample_archived [of h]
    by (simp add: GetFromAllKnownSource_def GetFromBuffer_def GetFromProviders_def sample_waiting_def sample_buffer_def
        NewTxBuffer_def pool_get_eq sample_pool_fields)
  have r: "h = 10 \<or> h = 7" if "missing_reach sample_waiting (TxiTx sample_grandchild) h" for h
    using that
  proof induction
    case (up h t h')
    then have "t = TxiTx sample_child" by (auto simp: g split: if_splits)
    then show ?case using up by simp
  qed simp
  have "missing_reach sample_waiting (TxiTx sample_grandchild) 10" by (rule missing_reach.parent) simp
  then have seven: "missing_reach sample_waiting (TxiTx sample_grandchild) 7"
    by (rule missing_reach.up [where t = "TxiTx sample_child"]) (simp_all add: g)
  have "{h. missing_reach sample_waiting (TxiTx sample_grandchild) h \<and> GetFromAllKnownSource sample_waiting h = Some None} = {7}"
    unfolding g using r seven by (intro set_eqI iffI) (simp_all split: if_splits, blast)
  moreover have "dag_readable (pdag (bPool sample_waiting))"
    using sample_node(2) db_wf_readable by (simp add: sample_waiting_def sample_buffer_def NewTxBuffer_def sample_pool_fields)
  ultimately show ?thesis using getMissingHashes_exact [of sample_waiting "TxiTx sample_grandchild"] by simp
qed

lemma sample_taken: "\<exists>p. AddRemoteTx sample_pool_orders id sample_pool (TxiTx sample_tx) = (None, p)"
proof -
  define p where "p = sample_pool\<lparr>txLookup := lookup_add (txLookup sample_pool) (new_event (TxiTx sample_tx) TxTypeRemote)\<rparr>"
  have f: "txLookup p = \<lparr>lkOrder = [1, 7], lkTxs = [(1, \<lparr>envTx = TxiSeq sample_genesis, envTxType = TxTypeGenesis, envStatus = TxStatusTip\<rparr>),
      (7, \<lparr>envTx = TxiTx sample_tx, envTxType = TxTypeRemote, envStatus = TxStatusQueue\<rparr>)]\<rparr>"
    "tips p = \<lparr>tmTxs = [(1, TxiSeq sample_genesis)]\<rparr>" "flows p = NewAccountFlows" "pdag p = sample_dag"
    by (simp_all add: p_def sample_pool_fields lookup_eval new_event_def)
  have "isBadTx p sample_tx = Some TxQualityIsGood"
    by (simp add: isBadTx_def pool_get_eq getStatus_eq f flow_eval sample_unread balance_state_def sample_balance Let_def)
  then obtain q where "pool_commit p sample_tx = (None, q)" "pdag q = sample_dag"
    by (simp add: pool_commit_def settle_parent_def getStatus_eq open_flow_def f lookup_eval map_eval flow_eval sample_balance)
  moreover have "pool_get sample_pool 7 = None" by (simp add: pool_get_eq sample_pool_fields)
  moreover have "latestSequencer sample_dag = Some sample_genesis" by (simp add: sample_dag_def)
  ultimately show ?thesis
    by (simp add: AddRemoteTx_def addTx_def loop_event_def Let_def raise_maxWeight_def new_event_def p_def)
qed

lemma sample_verified_tx: "run_verifiers [GraphVerifierRef] sample_pool (TxiTx sample_tx) = Some (True, sample_pool)"
proof -
  have "verifyWeight \<lparr>gvDag = sample_dag, gvTxPool = sample_pool\<rparr> (TxiTx sample_tx) = Some True"
    by (simp add: verifyWeight_def pool_get_eq sample_pool_fields CalculateWeight_def) (simp add: sample_genesis_def)
  then show ?thesis
    by (simp add: GraphVerifier_Verify_def verifyA3_def getMyPreviousTx_def verifyB1_def sample_pool_fields)
qed

theorem buffer_adds_verified_witness:
  "\<exists>b'. buffer_run sample_buffer_env sample_buffer [ReceivedNewTx (TxiTx sample_tx)] = Some (Inr b') \<and> announced b' = [TxiTx sample_tx]
     \<and> verified_adds sample_buffer_env [GraphVerifierRef] sample_pool [TxiTx sample_tx] (bPool b')"
proof -
  have p: "bPool sample_buffer = sample_pool" "bVerifiers sample_buffer = [GraphVerifierRef]" "announced sample_buffer = []"
    by (simp_all add: sample_buffer_def NewTxBuffer_def)
  obtain q where "AddRemoteTx sample_pool_orders id sample_pool (TxiTx sample_tx) = (None, q)" using sample_taken by blast
  then have "\<exists>b'. buffer_run sample_buffer_env sample_buffer [ReceivedNewTx (TxiTx sample_tx)] = Some (Inr b') \<and> announced b' = [TxiTx sample_tx]"
    using sample_verified_tx
    by (simp add: handleTx_def IsKnownHash_def sample_local isCachedHash_def GetFromBuffer_def sample_buffer_def NewTxBuffer_def
        admit_def with_known_def buildDependencies_def sample_buffer_env_def nice_fuel_def resolve_def is_panic_def Let_def del: run_verifiers.simps)
  then obtain b' where b': "buffer_run sample_buffer_env sample_buffer [ReceivedNewTx (TxiTx sample_tx)] = Some (Inr b')"
      "announced b' = [TxiTx sample_tx]" by blast
  from buffer_adds_verified [OF _ b'(1)] show ?thesis using b' p by simp
qed

end
