(* ===== verification/TrieNode.thy ===== *)
theory TrieNode
  imports StateDB Accessor
begin

text \<open>
  Keys, nodes and node encoding of the Merkle Patricia trie: \<^verbatim>\<open>src/trie/encoding.go\<close>, \<^verbatim>\<open>node.go\<close> and
  \<^verbatim>\<open>node_gen.go\<close>. A nil slice of bytes is \<open>None\<close> where the code tells it from an empty one. The primitives of the
  msgp package are the fields of \<open>msgp\<close>; what they promise is stated where it is used. Panics are values of
  \<open>trie_error\<close>.
\<close>

section \<open>Key encodings\<close>

datatype trie_error = MissingNodeError Hash "byte list" | TrieDecodeError string | TriePanic string

definition hasTerm :: "byte list \<Rightarrow> bool" where
  "hasTerm s \<longleftrightarrow> length s > 0 \<and> s ! (length s - 1) = 16"

text \<open>\<^verbatim>\<open>decodeNibbles\<close> writes one byte for each pair; an odd rest would be read out of range.\<close>

fun decodeNibbles :: "byte list \<Rightarrow> byte list" where
  "decodeNibbles (a # b # ns) = or (push_bit 4 a) b # decodeNibbles ns"
| "decodeNibbles _ = []"

definition hexToCompact :: "byte list \<Rightarrow> byte list" where
  "hexToCompact hex =
     (let terminator = (if hasTerm hex then 1 else 0 :: byte);
          hex1 = (if hasTerm hex then butlast hex else hex);
          buf0 = push_bit 5 terminator
      in if odd (length hex1) then or (or buf0 (push_bit 4 1)) (hd hex1) # decodeNibbles (tl hex1)
         else buf0 # decodeNibbles hex1)"

definition keybytesToHex :: "byte list \<Rightarrow> byte list" where
  "keybytesToHex str = concat (map (\<lambda>b. [b div 16, b mod 16]) str) @ [16]"

text \<open>\<open>None\<close> is the panic of \<^verbatim>\<open>base[0]\<close> or of the slice: an empty input has the base \<^verbatim>\<open>[16]\<close>, of which two bytes cannot
  be dropped.\<close>

definition compactToHex :: "byte list \<Rightarrow> byte list option" where
  "compactToHex compact =
     (let base = keybytesToHex compact;
          base1 = (if hd base < 2 then butlast base else base);
          chop = 2 - unat (and (hd base) 1)
      in if chop \<le> length base1 then Some (drop chop base1) else None)"

definition hexToKeybytes :: "byte list \<Rightarrow> byte list option" where
  "hexToKeybytes hex =
     (let hex1 = (if hasTerm hex then butlast hex else hex) in
      if odd (length hex1) then None else Some (decodeNibbles hex1))"

fun prefixLen :: "byte list \<Rightarrow> byte list \<Rightarrow> nat" where
  "prefixLen (x # a) (y # b) = (if x = y then Suc (prefixLen a b) else 0)"
| "prefixLen _ _ = 0"

section \<open>Nodes\<close>

record nodeFlag =
  fhash :: "byte list option"
  fgen :: "16 word"
  fdirty :: bool

text \<open>\<open>NilNode\<close> is the nil interface value. A nil \<^verbatim>\<open>ValueNode\<close> is not the nil node.\<close>

datatype Node =
    NilNode
  | FullNode (Children: "Node list") (FullFlags: nodeFlag)
  | ShortNode (Key: "byte list") (Val: Node) (ShortFlags: nodeFlag)
  | HashNode "byte list"
  | ValueNode "byte list option"

definition no_flag :: nodeFlag where
  "no_flag = \<lparr>fhash = None, fgen = 0, fdirty = False\<rparr>"

definition flag_canUnload :: "nodeFlag \<Rightarrow> 16 word \<Rightarrow> 16 word \<Rightarrow> bool" where
  "flag_canUnload f cachegen cachelimit \<longleftrightarrow> \<not> fdirty f \<and> cachegen - fgen f \<ge> cachelimit"

fun node_canUnload :: "Node \<Rightarrow> 16 word \<Rightarrow> 16 word \<Rightarrow> bool" where
  "node_canUnload (FullNode _ f) gen limit = flag_canUnload f gen limit"
| "node_canUnload (ShortNode _ _ f) gen limit = flag_canUnload f gen limit"
| "node_canUnload _ _ _ = False"

fun node_cache :: "Node \<Rightarrow> byte list option \<times> bool" where
  "node_cache (FullNode _ f) = (fhash f, fdirty f)"
| "node_cache (ShortNode _ _ f) = (fhash f, fdirty f)"
| "node_cache _ = (None, True)"

text \<open>The tag \<^verbatim>\<open>detectNodeType\<close> appends: the decimal digit of the node type.\<close>

fun nodetypebyte :: "Node \<Rightarrow> byte" where
  "nodetypebyte NilNode = 48"
| "nodetypebyte (FullNode _ _) = 49"
| "nodetypebyte (ShortNode _ _ _) = 50"
| "nodetypebyte (HashNode _) = 51"
| "nodetypebyte (ValueNode _) = 52"

definition detectNodeType :: "Node \<Rightarrow> byte list \<Rightarrow> byte list" where
  "detectNodeType n b = b @ [nodetypebyte n]"

section \<open>Node encoding\<close>

record msgp =
  AppendBytes :: "byte list \<Rightarrow> byte list \<Rightarrow> byte list"
  AppendArrayHeader :: "byte list \<Rightarrow> nat \<Rightarrow> byte list"
  ReadBytesBytes :: "byte list \<Rightarrow> error + (byte list \<times> byte list)"
  ReadArrayHeaderBytes :: "byte list \<Rightarrow> error + (nat \<times> byte list)"

definition slice_bytes :: "byte list option \<Rightarrow> byte list" where
  "slice_bytes v = (case v of None \<Rightarrow> [] | Some b \<Rightarrow> b)"

fun MarshalMsg :: "msgp \<Rightarrow> Node \<Rightarrow> byte list \<Rightarrow> byte list"
  and marshal_children :: "msgp \<Rightarrow> Node list \<Rightarrow> byte list \<Rightarrow> byte list" where
  "MarshalMsg M NilNode b = b"
| "MarshalMsg M (FullNode cs f) b = marshal_children M cs (AppendArrayHeader M (b @ [0x91]) 17)"
| "MarshalMsg M (ShortNode k v f) b =
     (let o1 = detectNodeType v (AppendBytes M (b @ [0x92]) k) in
      if v = NilNode then o1 else MarshalMsg M v o1)"
| "MarshalMsg M (HashNode h) b = AppendBytes M b h"
| "MarshalMsg M (ValueNode v) b = AppendBytes M b (slice_bytes v)"
| "marshal_children M [] b = b"
| "marshal_children M (c # cs) b =
     (let o1 = detectNodeType c b in
      marshal_children M cs (if c = NilNode then o1 else MarshalMsg M c o1))"

fun encodeNode :: "msgp \<Rightarrow> Node \<Rightarrow> byte list" where
  "encodeNode M (FullNode cs f) = 102 # MarshalMsg M (FullNode cs f) []"
| "encodeNode M (ShortNode k v f) = 115 # MarshalMsg M (ShortNode k v f) []"
| "encodeNode M (HashNode h) = 104 # MarshalMsg M (HashNode h) []"
| "encodeNode M (ValueNode v) = 118 # MarshalMsg M (ValueNode v) []"
| "encodeNode M NilNode = []"

text \<open>\<^verbatim>\<open>GenNode\<close>: the node the tag asks for, still empty.\<close>

definition GenNode :: "byte list \<Rightarrow> trie_error + (Node \<times> byte list)" where
  "GenNode b =
     (case b of
        [] \<Rightarrow> Inl (TriePanic ''index out of range'')
      | t # rest \<Rightarrow>
          if t < 48 \<or> 57 < t then Inl (TrieDecodeError ''convert byte to int error'')
          else if t = 48 then Inr (NilNode, rest)
          else if t = 49 then Inr (FullNode (replicate 17 NilNode) no_flag, rest)
          else if t = 50 then Inr (ShortNode [] NilNode no_flag, rest)
          else if t = 52 then Inr (ValueNode (Some []), rest)
          else if t = 51 then Inr (HashNode [], rest)
          else Inl (TrieDecodeError ''unknown nodetype''))"

text \<open>\<^verbatim>\<open>UnmarshalMsg\<close> into a fresh node, with the bytes left. The methods of \<^verbatim>\<open>HashNode\<close> and \<^verbatim>\<open>ValueNode\<close> have value
  receivers: they assign the bytes they read to a local variable. A nil child ends the loop of a full node, and
  no bytes are returned as left. The fuel bounds the nesting; each level consumes the tag of its node.\<close>

fun UnmarshalMsg :: "nat \<Rightarrow> msgp \<Rightarrow> Node \<Rightarrow> byte list \<Rightarrow> (trie_error + (Node \<times> byte list)) option"
  and unmarshal_children ::
    "nat \<Rightarrow> msgp \<Rightarrow> nat \<Rightarrow> Node list \<Rightarrow> byte list \<Rightarrow> (trie_error + (Node list \<times> byte list)) option" where
  "UnmarshalMsg 0 M z bts = None"
| "UnmarshalMsg (Suc fuel) M z bts =
     (case z of
        NilNode \<Rightarrow> Some (Inl (TriePanic ''nil pointer dereference''))
      | HashNode h \<Rightarrow>
          (case ReadBytesBytes M bts of
             Inl _ \<Rightarrow> Some (Inl (TrieDecodeError ''msgp''))
           | Inr (_, rest) \<Rightarrow> Some (Inr (HashNode h, rest)))
      | ValueNode v \<Rightarrow>
          (case ReadBytesBytes M bts of
             Inl _ \<Rightarrow> Some (Inl (TrieDecodeError ''msgp''))
           | Inr (_, rest) \<Rightarrow> Some (Inr (ValueNode v, rest)))
      | ShortNode k v f \<Rightarrow>
          (case ReadArrayHeaderBytes M bts of
             Inl _ \<Rightarrow> Some (Inl (TrieDecodeError ''msgp''))
           | Inr (sz, b1) \<Rightarrow>
               if sz \<noteq> 2 then Some (Inl (TrieDecodeError ''ArrayError''))
               else case ReadBytesBytes M b1 of
                 Inl _ \<Rightarrow> Some (Inl (TrieDecodeError ''msgp''))
               | Inr (key, b2) \<Rightarrow>
                   (case GenNode b2 of
                      Inl e \<Rightarrow> Some (Inl e)
                    | Inr (val, b3) \<Rightarrow>
                        if val = NilNode then Some (Inr (ShortNode key NilNode f, []))
                        else (case UnmarshalMsg fuel M val b3 of
                           None \<Rightarrow> None
                         | Some (Inl e) \<Rightarrow> Some (Inl e)
                         | Some (Inr (val', b4)) \<Rightarrow> Some (Inr (ShortNode key val' f, b4)))))
      | FullNode cs f \<Rightarrow>
          (case ReadArrayHeaderBytes M bts of
             Inl _ \<Rightarrow> Some (Inl (TrieDecodeError ''msgp''))
           | Inr (sz, b1) \<Rightarrow>
               if sz \<noteq> 1 then Some (Inl (TrieDecodeError ''ArrayError''))
               else case ReadArrayHeaderBytes M b1 of
                 Inl _ \<Rightarrow> Some (Inl (TrieDecodeError ''msgp''))
               | Inr (sz2, b2) \<Rightarrow>
                   if sz2 \<noteq> 17 then Some (Inl (TrieDecodeError ''ArrayError''))
                   else case unmarshal_children fuel M 17 cs b2 of
                     None \<Rightarrow> None
                   | Some (Inl e) \<Rightarrow> Some (Inl e)
                   | Some (Inr (cs', b3)) \<Rightarrow> Some (Inr (FullNode cs' f, b3))))"
| "unmarshal_children fuel M 0 cs bts = Some (Inr (cs, bts))"
| "unmarshal_children fuel M (Suc left) cs bts =
     (case GenNode bts of
        Inl e \<Rightarrow> Some (Inl e)
      | Inr (c, b1) \<Rightarrow>
          if c = NilNode then Some (Inr (cs[16 - left := NilNode], []))
          else (case UnmarshalMsg fuel M c b1 of
             None \<Rightarrow> None
           | Some (Inl e) \<Rightarrow> Some (Inl e)
           | Some (Inr (c', b2)) \<Rightarrow> unmarshal_children fuel M left (cs[16 - left := c']) b2))"

definition decodeFull :: "msgp \<Rightarrow> byte list \<Rightarrow> byte list \<Rightarrow> 16 word \<Rightarrow> trie_error + Node" where
  "decodeFull M hash bts cachegen =
     (case UnmarshalMsg (Suc (length bts)) M (FullNode (replicate 17 NilNode) no_flag) bts of
        Some (Inr (FullNode cs _, _)) \<Rightarrow> Inr (FullNode cs \<lparr>fhash = Some hash, fgen = cachegen, fdirty = False\<rparr>)
      | Some (Inl e) \<Rightarrow> Inl e
      | _ \<Rightarrow> Inl (TrieDecodeError ''out of fuel''))"

definition decodeShort :: "msgp \<Rightarrow> byte list \<Rightarrow> byte list \<Rightarrow> 16 word \<Rightarrow> trie_error + Node" where
  "decodeShort M hash bts cachegen =
     (case UnmarshalMsg (Suc (length bts)) M (ShortNode [] NilNode no_flag) bts of
        Some (Inr (ShortNode k v _, _)) \<Rightarrow>
          (case compactToHex k of
             None \<Rightarrow> Inl (TriePanic ''slice bounds out of range'')
           | Some key \<Rightarrow> Inr (ShortNode key v \<lparr>fhash = Some hash, fgen = cachegen, fdirty = False\<rparr>))
      | Some (Inl e) \<Rightarrow> Inl e
      | _ \<Rightarrow> Inl (TrieDecodeError ''out of fuel''))"

definition decodeNode :: "msgp \<Rightarrow> byte list \<Rightarrow> byte list \<Rightarrow> 16 word \<Rightarrow> trie_error + Node" where
  "decodeNode M hash buf cachegen =
     (case buf of
        [] \<Rightarrow> Inl (TrieDecodeError ''unexpected EOF'')
      | p # bts \<Rightarrow>
          if p = 102 then decodeFull M hash bts cachegen
          else if p = 115 then decodeShort M hash bts cachegen
          else Inl (TrieDecodeError ''invalid prefix of encoded node''))"

text \<open>Every error of \<^verbatim>\<open>decodeNode\<close> is a panic of \<^verbatim>\<open>mustDecodeNode\<close>.\<close>

definition mustDecodeNode :: "msgp \<Rightarrow> byte list \<Rightarrow> byte list \<Rightarrow> 16 word \<Rightarrow> trie_error + Node" where
  "mustDecodeNode M hash buf cachegen =
     (case decodeNode M hash buf cachegen of Inl _ \<Rightarrow> Inl (TriePanic ''node'') | Inr n \<Rightarrow> Inr n)"

section \<open>The encodings are inverse to each other\<close>

definition nibbles :: "byte list \<Rightarrow> bool" where
  "nibbles ns \<longleftrightarrow> (\<forall>x \<in> set ns. x < 16)"

lemma nibbles_simps [simp]:
  "nibbles []" "nibbles (x # ns) \<longleftrightarrow> x < 16 \<and> nibbles ns" "nibbles (ms @ ns) \<longleftrightarrow> nibbles ms \<and> nibbles ns"
  by (auto simp: nibbles_def)

lemma nibble_or:
  fixes a b :: byte
  assumes "b < 16"
  shows "or (push_bit 4 a) b = 16 * a + b"
proof -
  have "uint b < 16" using assms by (simp add: word_less_def)
  then have "uint (take_bit 4 b) = uint b" by (simp add: unsigned_take_bit_eq take_bit_int_eq_self)
  then have "take_bit 4 b = b" by (simp only: word_uint_eq_iff)
  then have "\<not> bit b n" if "4 \<le> n" for n using that by (metis bit_take_bit_iff not_less)
  then have "\<not> bit (push_bit 4 a) n \<or> \<not> bit b n" for n by (auto simp: bit_push_bit_iff not_le)
  then have "push_bit 4 a + b = or (push_bit 4 a) b" by (simp add: disjunctive_add)
  then show ?thesis by (simp add: push_bit_eq_mult mult.commute)
qed

lemma nibble_div:
  fixes a b :: byte
  assumes "a < 16" "b < 16"
  shows "(16 * a + b) div 16 = a" "(16 * a + b) mod 16 = b"
proof -
  have u: "unat a < 16" "unat b < 16" using assms by (simp_all add: word_less_nat_alt)
  then have v: "unat (16 * a + b) = 16 * unat a + unat b" by (simp add: unat_word_ariths)
  have "unat ((16 * a + b) div 16) = unat a" "unat ((16 * a + b) mod 16) = unat b"
    using u v by (simp_all add: unat_div unat_mod)
  then show "(16 * a + b) div 16 = a" "(16 * a + b) mod 16 = b" by (blast intro: unsigned_word_eqI)+
qed

lemma byte_nibbles:
  fixes b :: byte
  shows "b div 16 < 16" "b mod 16 < 16" "16 * (b div 16) + b mod 16 = b"
proof -
  have "unat b < 256" using unsigned_less [of b] by simp
  then show "b div 16 < 16" "b mod 16 < 16" by (simp_all add: word_less_nat_alt unat_div unat_mod div_less_iff_less_mult)
  show "16 * (b div 16) + b mod 16 = b" by (simp add: mult_div_mod_eq)
qed

definition split_nibbles :: "byte list \<Rightarrow> byte list" where
  "split_nibbles str = concat (map (\<lambda>b. [b div 16, b mod 16]) str)"

lemma split_decode: "nibbles ns \<Longrightarrow> even (length ns) \<Longrightarrow> split_nibbles (decodeNibbles ns) = ns"
  by (induction ns rule: decodeNibbles.induct) (auto simp: split_nibbles_def nibble_or nibble_div)

lemma decode_split: "decodeNibbles (split_nibbles str) = str"
  by (induction str) (simp_all add: split_nibbles_def nibble_or byte_nibbles)

lemma split_nibbles_props: "nibbles (split_nibbles str)" "length (split_nibbles str) = 2 * length str"
  by (induction str) (simp_all add: split_nibbles_def byte_nibbles)

lemma keybytesToHex_split: "keybytesToHex str = split_nibbles str @ [16]"
  by (simp add: keybytesToHex_def split_nibbles_def)

lemma hasTerm_append [simp]: "hasTerm (ns @ [x]) \<longleftrightarrow> x = 16"
  by (simp add: hasTerm_def)

lemma hasTerm_nibbles: "nibbles ns \<Longrightarrow> \<not> hasTerm ns"
  unfolding hasTerm_def nibbles_def by (metis One_nat_def diff_less nth_mem order_less_irrefl zero_less_one)

lemma hexToKeybytes_keybytesToHex: "hexToKeybytes (keybytesToHex str) = Some str"
  by (simp add: hexToKeybytes_def keybytesToHex_split split_nibbles_props decode_split)

text \<open>The flag byte: its high nibble is 0, 1, 2 or 3.\<close>

lemma flag_bytes:
  fixes x :: byte
  assumes "x < 16"
  shows "or (or 0 16) x = 16 * 1 + x" "or (or (push_bit 5 1) 16) x = 16 * 3 + x"
  using nibble_or [OF assms, of 1] nibble_or [OF assms, of 3] by simp_all

lemma compact_base:
  fixes f :: byte
  assumes "nibbles (f # ns)" "odd (length ns)"
  shows "keybytesToHex ((16 * f + hd ns) # decodeNibbles (tl ns)) = f # ns @ [16]"
  using assms by (cases ns) (simp_all add: keybytesToHex_split split_nibbles_def nibble_div split_decode [unfolded split_nibbles_def])

lemma compactToHex_base:
  "keybytesToHex c = 0 # x # ns @ [16] \<Longrightarrow> compactToHex c = Some ns"
  "keybytesToHex c = 1 # ns @ [16] \<Longrightarrow> compactToHex c = Some ns"
  "keybytesToHex c = 2 # x # ns @ [16] \<Longrightarrow> compactToHex c = Some (ns @ [16])"
  "keybytesToHex c = 3 # ns @ [16] \<Longrightarrow> compactToHex c = Some (ns @ [16])"
  by (simp_all add: compactToHex_def Let_def)

lemma compact_body:
  assumes "nibbles ns"
  shows "compactToHex (hexToCompact ns) = Some ns" "compactToHex (hexToCompact (ns @ [16])) = Some (ns @ [16])"
proof -
  have e: "keybytesToHex ((16 * f) # decodeNibbles ns) = f # (0 # ns) @ [16]" if "even (length ns)" "f < 16" for f
    using compact_base [of f "0 # ns"] assms that by simp
  have o: "keybytesToHex ((16 * f + hd ns) # decodeNibbles (tl ns)) = f # ns @ [16]" if "odd (length ns)" "f < 16" for f
    using compact_base [of f ns] assms that by simp
  have h: "hd ns < 16" if "odd (length ns)" using assms that by (cases ns) simp_all
  note c = hexToCompact_def Let_def hasTerm_nibbles [OF assms]
  show "compactToHex (hexToCompact ns) = Some ns"
    using e [of 0] compactToHex_base(1) [of _ 0 ns] o [of 1, THEN compactToHex_base(2)] h flag_bytes [of "hd ns"]
    by (cases "odd (length ns)") (simp_all add: c)
  show "compactToHex (hexToCompact (ns @ [16])) = Some (ns @ [16])"
    using e [of 2] compactToHex_base(3) [of _ 0 ns] o [of 3, THEN compactToHex_base(4)] h flag_bytes [of "hd ns"]
    by (cases "odd (length ns)") (simp_all add: c)
qed

end
