(* ===== verification/TrieStore.thy ===== *)
theory TrieStore
  imports TrieNode
begin

text \<open>
  The node database of the trie, \<^verbatim>\<open>src/trie/database.go\<close>: encoded nodes by hash with reference counts, the list in
  which they are flushed, and the store on disk behind it. Sizes are counted exactly. Timing, metrics and locks are
  left out; the batch is the one of the in-memory store, whose writes do not fail. An operation that can
  dereference a nil node returns an option, \<open>None\<close> being the panic. Recursion over references is bounded by fuel,
  an inner option.
\<close>

section \<open>Data\<close>

record cachedNode =
  blob :: "byte list option"
  parents :: int
  children :: "(Hash, int) gomap"
  flushPrev :: Hash
  flushNext :: Hash

record TrieDatabase =
  diskdb :: KvDB
  tnodes :: "(Hash, cachedNode) gomap"
  oldest :: Hash
  newest :: Hash
  preimages :: "(Hash, byte list) gomap"
  gcnodes :: int
  gcsize :: int
  flushnodes :: int
  flushsize :: int
  nodesSize :: int
  preimagesSize :: int

definition NewDatabase :: "KvDB \<Rightarrow> TrieDatabase" where
  "NewDatabase disk =
     \<lparr>diskdb = disk, tnodes = [(0, \<lparr>blob = None, parents = 0, children = [], flushPrev = 0, flushNext = 0\<rparr>)],
      oldest = 0, newest = 0, preimages = [], gcnodes = 0, gcsize = 0, flushnodes = 0, flushsize = 0,
      nodesSize = 0, preimagesSize = 0\<rparr>"

definition blob_len :: "cachedNode \<Rightarrow> int" where
  "blob_len node = int (length (slice_bytes (blob node)))"

text \<open>An assignment through the pointer \<^verbatim>\<open>db.nodes[h]\<close>, which panics when there is no such node.\<close>

definition on_node :: "TrieDatabase \<Rightarrow> Hash \<Rightarrow> (cachedNode \<Rightarrow> cachedNode) \<Rightarrow> TrieDatabase option" where
  "on_node db h f =
     map_option (\<lambda>node. db\<lparr>tnodes := AList.update h (f node) (tnodes db)\<rparr>) (map_of (tnodes db) h)"

section \<open>Nodes and preimages\<close>

definition db_insert :: "TrieDatabase \<Rightarrow> Hash \<Rightarrow> byte list \<Rightarrow> TrieDatabase option" where
  "db_insert db hash b =
     (if map_of (tnodes db) hash \<noteq> None then Some db
      else
        let db1 = db\<lparr>tnodes := AList.update hash
                      \<lparr>blob = Some b, parents = 0, children = [], flushPrev = newest db, flushNext = 0\<rparr> (tnodes db)\<rparr>;
            linked = (if oldest db1 = 0 then Some (db1\<lparr>oldest := hash, newest := hash\<rparr>)
                      else map_option (\<lambda>db2. db2\<lparr>newest := hash\<rparr>) (on_node db1 (newest db1) (\<lambda>n. n\<lparr>flushNext := hash\<rparr>)))
        in map_option (\<lambda>db2. db2\<lparr>nodesSize := nodesSize db2 + 32 + int (length b)\<rparr>) linked)"

definition db_Insert :: "TrieDatabase \<Rightarrow> Hash \<Rightarrow> byte list \<Rightarrow> TrieDatabase option" where
  "db_Insert db hash b = db_insert db hash b"

definition insertPreimage :: "TrieDatabase \<Rightarrow> Hash \<Rightarrow> byte list \<Rightarrow> TrieDatabase" where
  "insertPreimage db hash preimage =
     (if map_of (preimages db) hash \<noteq> None then db
      else db\<lparr>preimages := AList.update hash preimage (preimages db),
              preimagesSize := preimagesSize db + 32 + int (length preimage)\<rparr>)"

definition db_Node :: "TrieDatabase \<Rightarrow> Hash \<Rightarrow> error + byte list option" where
  "db_Node db hash =
     (case map_of (tnodes db) hash of
        Some node \<Rightarrow> Inr (blob node)
      | None \<Rightarrow> map_sum id Some (Get (diskdb db) (Hash_ToBytes hash)))"

definition secureKeyPrefix :: "byte list" where
  "secureKeyPrefix = str_bytes ''secure-key-''"

definition secureKey :: "byte list \<Rightarrow> byte list" where
  "secureKey key = secureKeyPrefix @ key"

definition db_preimage :: "TrieDatabase \<Rightarrow> Hash \<Rightarrow> error + byte list" where
  "db_preimage db hash =
     (case map_of (preimages db) hash of
        Some preimage \<Rightarrow> Inr preimage
      | None \<Rightarrow> Get (diskdb db) (secureKey (Hash_ToBytes hash)))"

definition db_Nodes :: "TrieDatabase \<Rightarrow> Hash list" where
  "db_Nodes db = filter (\<lambda>h. h \<noteq> 0) (map fst (tnodes db))"

definition db_Size :: "TrieDatabase \<Rightarrow> int \<times> int" where
  "db_Size db = (nodesSize db + (int (length (tnodes db)) - 1) * 2 * 32, preimagesSize db)"

section \<open>References\<close>

definition db_reference :: "TrieDatabase \<Rightarrow> Hash \<Rightarrow> Hash \<Rightarrow> TrieDatabase option" where
  "db_reference db child parent =
     (case map_of (tnodes db) child of
        None \<Rightarrow> Some db
      | Some _ \<Rightarrow>
          (case map_of (tnodes db) parent of
             None \<Rightarrow> None
           | Some p \<Rightarrow>
               if map_of (children p) child \<noteq> None \<and> parent \<noteq> 0 then Some db
               else
                 Option.bind (on_node db child (\<lambda>n. n\<lparr>parents := parents n + 1\<rparr>))
                   (\<lambda>db1. on_node db1 parent (\<lambda>n. n\<lparr>children := AList.update child
                      ((case map_of (children n) child of Some c \<Rightarrow> c | None \<Rightarrow> 0) + 1) (children n)\<rparr>))))"

definition db_Reference :: "TrieDatabase \<Rightarrow> Hash \<Rightarrow> Hash \<Rightarrow> TrieDatabase option" where
  "db_Reference db child parent = db_reference db child parent"

definition drop_child :: "Hash \<Rightarrow> cachedNode \<Rightarrow> cachedNode" where
  "drop_child child n =
     (let c = (case map_of (children n) child of Some c \<Rightarrow> c | None \<Rightarrow> 0) - 1 in
      n\<lparr>children := if c = 0 then AList.delete child (children n) else AList.update child c (children n)\<rparr>)"

text \<open>Taking a node out of the flush list; the end of the list is not adjusted.\<close>

definition unlink :: "TrieDatabase \<Rightarrow> Hash \<Rightarrow> cachedNode \<Rightarrow> TrieDatabase option" where
  "unlink db h node =
     (if h = oldest db then Some (db\<lparr>oldest := flushNext node\<rparr>)
      else
        Option.bind (on_node db (flushPrev node) (\<lambda>n. n\<lparr>flushNext := flushNext node\<rparr>))
          (\<lambda>db1. on_node db1 (flushNext node) (\<lambda>n. n\<lparr>flushPrev := flushPrev node\<rparr>)))"

definition forget :: "TrieDatabase \<Rightarrow> Hash \<Rightarrow> TrieDatabase" where
  "forget db h =
     db\<lparr>tnodes := AList.delete h (tnodes db),
        nodesSize := nodesSize db - (32 + (case map_of (tnodes db) h of Some n \<Rightarrow> blob_len n | None \<Rightarrow> 0))\<rparr>"

text \<open>\<open>ord\<close> is the order in which the children are visited. The result is \<open>None\<close> when the fuel is used up, and
  \<open>Some None\<close> for a panic.\<close>

fun dereference ::
    "nat \<Rightarrow> (Hash list \<Rightarrow> Hash list) \<Rightarrow> TrieDatabase \<Rightarrow> Hash \<Rightarrow> Hash \<Rightarrow> TrieDatabase option option"
  and dereference_all ::
    "nat \<Rightarrow> (Hash list \<Rightarrow> Hash list) \<Rightarrow> TrieDatabase \<Rightarrow> Hash list \<Rightarrow> Hash \<Rightarrow> TrieDatabase option option" where
  "dereference 0 ord db child parent = None"
| "dereference (Suc fuel) ord db child parent =
     (case on_node db parent (drop_child child) of
        None \<Rightarrow> Some None
      | Some db1 \<Rightarrow>
          (case map_of (tnodes db1) child of
             None \<Rightarrow> Some (Some db1)
           | Some node \<Rightarrow>
               let node1 = node\<lparr>parents := parents node - 1\<rparr>;
                   db2 = db1\<lparr>tnodes := AList.update child node1 (tnodes db1)\<rparr>
               in if parents node1 \<noteq> 0 then Some (Some db2)
                  else case unlink db2 child node1 of
                    None \<Rightarrow> Some None
                  | Some db3 \<Rightarrow>
                      (case dereference_all fuel ord db3 (ord (map fst (children node1))) child of
                         None \<Rightarrow> None
                       | Some None \<Rightarrow> Some None
                       | Some (Some db4) \<Rightarrow> Some (Some (forget db4 child)))))"
| "dereference_all fuel ord db [] child = Some (Some db)"
| "dereference_all fuel ord db (h # hs) child =
     (case dereference fuel ord db h child of
        None \<Rightarrow> None
      | Some None \<Rightarrow> Some None
      | Some (Some db1) \<Rightarrow> dereference_all fuel ord db1 hs child)"

definition Dereference ::
    "nat \<Rightarrow> (Hash list \<Rightarrow> Hash list) \<Rightarrow> TrieDatabase \<Rightarrow> Hash \<Rightarrow> Hash \<Rightarrow> TrieDatabase option option" where
  "Dereference fuel ord db child parent =
     map_option (map_option (\<lambda>db1.
       db1\<lparr>gcnodes := gcnodes db1 + (int (length (tnodes db)) - int (length (tnodes db1))),
           gcsize := gcsize db1 + (nodesSize db - nodesSize db1)\<rparr>))
       (dereference fuel ord db child parent)"

section \<open>Flushing\<close>

definition IdealBatchSize :: nat where
  "IdealBatchSize = 100 * 1024"

text \<open>A batch and the store it is written to. A full batch is written and emptied, after a preimage when it exceeds
  the ideal size, after a node when it reaches it.\<close>

definition put_node :: "KvDB \<times> memBatch \<Rightarrow> Hash \<Rightarrow> cachedNode \<Rightarrow> KvDB \<times> memBatch" where
  "put_node w h node =
     (let b = memBatch_Put (snd w) (Hash_ToBytes h) (slice_bytes (blob node)) in
      if bsize b \<ge> IdealBatchSize then (memBatch_Write (fst w) b, memBatch_Reset b) else (fst w, b))"

definition put_preimage :: "KvDB \<times> memBatch \<Rightarrow> Hash \<times> byte list \<Rightarrow> KvDB \<times> memBatch" where
  "put_preimage w x =
     (let b = memBatch_Put (snd w) (secureKey (Hash_ToBytes (fst x))) (snd x) in
      if bsize b > IdealBatchSize then (memBatch_Write (fst w) b, memBatch_Reset b) else (fst w, b))"

fun db_commit ::
    "nat \<Rightarrow> (Hash list \<Rightarrow> Hash list) \<Rightarrow> TrieDatabase \<Rightarrow> Hash \<Rightarrow> KvDB \<times> memBatch \<Rightarrow> (KvDB \<times> memBatch) option"
  and db_commit_all ::
    "nat \<Rightarrow> (Hash list \<Rightarrow> Hash list) \<Rightarrow> TrieDatabase \<Rightarrow> Hash list \<Rightarrow> KvDB \<times> memBatch \<Rightarrow> (KvDB \<times> memBatch) option" where
  "db_commit 0 ord db hash w = None"
| "db_commit (Suc fuel) ord db hash w =
     (case map_of (tnodes db) hash of
        None \<Rightarrow> Some w
      | Some node \<Rightarrow>
          map_option (\<lambda>w1. put_node w1 hash node) (db_commit_all fuel ord db (ord (map fst (children node))) w))"
| "db_commit_all fuel ord db [] w = Some w"
| "db_commit_all fuel ord db (h # hs) w =
     (case db_commit fuel ord db h w of None \<Rightarrow> None | Some w1 \<Rightarrow> db_commit_all fuel ord db hs w1)"

fun uncache ::
    "nat \<Rightarrow> (Hash list \<Rightarrow> Hash list) \<Rightarrow> TrieDatabase \<Rightarrow> Hash \<Rightarrow> TrieDatabase option option"
  and uncache_all ::
    "nat \<Rightarrow> (Hash list \<Rightarrow> Hash list) \<Rightarrow> TrieDatabase \<Rightarrow> Hash list \<Rightarrow> TrieDatabase option option" where
  "uncache 0 ord db hash = None"
| "uncache (Suc fuel) ord db hash =
     (case map_of (tnodes db) hash of
        None \<Rightarrow> Some (Some db)
      | Some node \<Rightarrow>
          (case unlink db hash node of
             None \<Rightarrow> Some None
           | Some db1 \<Rightarrow>
               (case uncache_all fuel ord db1 (ord (map fst (children node))) of
                  None \<Rightarrow> None
                | Some None \<Rightarrow> Some None
                | Some (Some db2) \<Rightarrow> Some (Some (forget db2 hash)))))"
| "uncache_all fuel ord db [] = Some (Some db)"
| "uncache_all fuel ord db (h # hs) =
     (case uncache fuel ord db h of
        None \<Rightarrow> None
      | Some None \<Rightarrow> Some None
      | Some (Some db1) \<Rightarrow> uncache_all fuel ord db1 hs)"

definition db_Commit ::
    "nat \<Rightarrow> (Hash list \<Rightarrow> Hash list) \<Rightarrow> ((Hash \<times> byte list) list \<Rightarrow> (Hash \<times> byte list) list) \<Rightarrow> TrieDatabase \<Rightarrow> Hash
      \<Rightarrow> TrieDatabase option option" where
  "db_Commit fuel ord ordp db node =
     (let w0 = foldl put_preimage (diskdb db, NewBatch) (ordp (preimages db)) in
      case db_commit fuel ord db node w0 of
        None \<Rightarrow> None
      | Some (disk, b) \<Rightarrow>
          let db1 = db\<lparr>diskdb := memBatch_Write disk b, preimages := [], preimagesSize := 0\<rparr> in
          map_option (map_option (\<lambda>db2. db2\<lparr>gcnodes := 0, gcsize := 0, flushnodes := 0, flushsize := 0\<rparr>))
            (uncache fuel ord db1 node))"

text \<open>The flush list is followed from the oldest node until the size is below the limit; the result is what was
  written and the node at which the walk stopped.\<close>

fun cap_loop ::
    "nat \<Rightarrow> TrieDatabase \<Rightarrow> int \<Rightarrow> int \<Rightarrow> Hash \<Rightarrow> KvDB \<times> memBatch \<Rightarrow> ((KvDB \<times> memBatch) \<times> Hash) option option" where
  "cap_loop 0 db limit sz old w = None"
| "cap_loop (Suc fuel) db limit sz old w =
     (if sz > limit \<and> old \<noteq> 0 then
        case map_of (tnodes db) old of
          None \<Rightarrow> Some None
        | Some node \<Rightarrow> cap_loop fuel db limit (sz - (3 * 32 + blob_len node)) (flushNext node) (put_node w old node)
      else Some (Some (w, old)))"

fun cap_clear :: "nat \<Rightarrow> TrieDatabase \<Rightarrow> Hash \<Rightarrow> TrieDatabase option option" where
  "cap_clear 0 db old = None"
| "cap_clear (Suc fuel) db old =
     (if oldest db \<noteq> old then
        case map_of (tnodes db) (oldest db) of
          None \<Rightarrow> Some None
        | Some node \<Rightarrow> cap_clear fuel ((forget db (oldest db))\<lparr>oldest := flushNext node\<rparr>) old
      else Some (Some db))"

definition Cap ::
    "nat \<Rightarrow> ((Hash \<times> byte list) list \<Rightarrow> (Hash \<times> byte list) list) \<Rightarrow> TrieDatabase \<Rightarrow> int \<Rightarrow> TrieDatabase option option" where
  "Cap fuel ordp db limit =
     (let sz = nodesSize db + (int (length (tnodes db)) - 1) * 2 * 32;
          flushPreimages = preimagesSize db > 4 * 1024 * 1024;
          w0 = (if flushPreimages then foldl put_preimage (diskdb db, NewBatch) (ordp (preimages db)) else (diskdb db, NewBatch))
      in case cap_loop fuel db limit sz (oldest db) w0 of
        None \<Rightarrow> None
      | Some None \<Rightarrow> Some None
      | Some (Some ((disk, b), old)) \<Rightarrow>
          let db1 = db\<lparr>diskdb := memBatch_Write disk b\<rparr>;
              db2 = (if flushPreimages then db1\<lparr>preimages := [], preimagesSize := 0\<rparr> else db1)
          in case cap_clear fuel db2 old of
            None \<Rightarrow> None
          | Some None \<Rightarrow> Some None
          | Some (Some db3) \<Rightarrow>
              Some (map_option (\<lambda>db4. db4\<lparr>
                  flushnodes := flushnodes db4 + (int (length (tnodes db)) - int (length (tnodes db4))),
                  flushsize := flushsize db4 + (nodesSize db - nodesSize db4)\<rparr>)
                (if oldest db3 \<noteq> 0 then on_node db3 (oldest db3) (\<lambda>n. n\<lparr>flushPrev := 0\<rparr>) else Some db3)))"

end
