(* ===== verification/MerkleTrie.thy ===== *)
theory MerkleTrie
  imports TrieStore
begin

text \<open>
  The Merkle Patricia trie: \<^verbatim>\<open>src/trie/trie.go\<close>, \<^verbatim>\<open>hasher.go\<close> and \<^verbatim>\<open>secure_trie.go\<close>. Nodes are values; the code copies a
  node before it changes it. The recursion follows hash nodes into the node database, so it takes fuel; \<open>None\<close> is fuel
  that is used up, and panics are values of \<open>trie_error\<close>. Counters of cache misses are left out.
\<close>

section \<open>Tries\<close>

record trie_env =
  tmsgp :: msgp
  tsha :: "byte list \<Rightarrow> byte list"

record MerkleTrie =
  mtdb :: TrieDatabase
  mtroot :: Node
  originalRoot :: Hash
  mtcachegen :: "16 word"
  mtcachelimit :: "16 word"

type_synonym 'a run = "(trie_error + 'a) option"

definition SetCacheLimit :: "MerkleTrie \<Rightarrow> 16 word \<Rightarrow> MerkleTrie" where
  "SetCacheLimit t l = t\<lparr>mtcachelimit := l\<rparr>"

definition newFlag :: "MerkleTrie \<Rightarrow> nodeFlag" where
  "newFlag t = \<lparr>fhash = None, fgen = mtcachegen t, fdirty = True\<rparr>"

definition resolveHash :: "trie_env \<Rightarrow> MerkleTrie \<Rightarrow> byte list \<Rightarrow> byte list \<Rightarrow> trie_error + Node" where
  "resolveHash e t n prefix =
     (case BytesToHash n of
        None \<Rightarrow> Inl (TriePanic ''BytesToHash'')
      | Some hash \<Rightarrow>
          (case db_Node (mtdb t) hash of
             Inr (Some enc) \<Rightarrow> mustDecodeNode (tmsgp e) n enc (mtcachegen t)
           | _ \<Rightarrow> Inl (MissingNodeError hash prefix)))"

definition resolveNode :: "trie_env \<Rightarrow> MerkleTrie \<Rightarrow> Node \<Rightarrow> byte list \<Rightarrow> trie_error + Node" where
  "resolveNode e t n prefix = (case n of HashNode h \<Rightarrow> resolveHash e t h prefix | _ \<Rightarrow> Inr n)"

definition trie_New :: "trie_env \<Rightarrow> Hash \<Rightarrow> TrieDatabase \<Rightarrow> trie_error + MerkleTrie" where
  "trie_New e r db =
     (let t = \<lparr>mtdb = db, mtroot = NilNode, originalRoot = r, mtcachegen = 0, mtcachelimit = 0\<rparr> in
      if r \<noteq> 0 \<and> r \<noteq> emptyRoot then map_sum id (\<lambda>n. t\<lparr>mtroot := n\<rparr>) (resolveHash e t (Hash_ToBytes r) [])
      else Inr t)"

text \<open>\<^verbatim>\<open>n.Children[key[pos]]\<close>; \<open>None\<close> is an index out of range.\<close>

definition child_at :: "Node list \<Rightarrow> byte list \<Rightarrow> nat \<Rightarrow> Node option" where
  "child_at cs key pos = (if pos < length key \<and> unat (key ! pos) < length cs then Some (cs ! unat (key ! pos)) else None)"

fun tryGet :: "nat \<Rightarrow> trie_env \<Rightarrow> MerkleTrie \<Rightarrow> Node \<Rightarrow> byte list \<Rightarrow> nat \<Rightarrow> (byte list option \<times> Node \<times> bool) run" where
  "tryGet 0 e t origNode key pos = None"
| "tryGet (Suc fuel) e t origNode key pos =
     (case origNode of
        NilNode \<Rightarrow> Some (Inr (None, NilNode, False))
      | ValueNode v \<Rightarrow> Some (Inr (v, ValueNode v, False))
      | ShortNode k v f \<Rightarrow>
          if length key - pos < length k \<or> k \<noteq> take (length k) (drop pos key) then Some (Inr (None, origNode, False))
          else (case tryGet fuel e t v key (pos + length k) of
                  None \<Rightarrow> None
                | Some (Inl err) \<Rightarrow> Some (Inl err)
                | Some (Inr (val, newnode, didResolve)) \<Rightarrow>
                    Some (Inr (val, if didResolve then ShortNode k newnode (f\<lparr>fgen := mtcachegen t\<rparr>) else origNode, didResolve)))
      | FullNode cs f \<Rightarrow>
          (case child_at cs key pos of
             None \<Rightarrow> Some (Inl (TriePanic ''index out of range''))
           | Some c \<Rightarrow>
               (case tryGet fuel e t c key (pos + 1) of
                  None \<Rightarrow> None
                | Some (Inl err) \<Rightarrow> Some (Inl err)
                | Some (Inr (val, newnode, didResolve)) \<Rightarrow>
                    Some (Inr (val, if didResolve then FullNode (cs[unat (key ! pos) := newnode]) (f\<lparr>fgen := mtcachegen t\<rparr>) else origNode,
                      didResolve))))
      | HashNode h \<Rightarrow>
          (case resolveHash e t h (take pos key) of
             Inl err \<Rightarrow> Some (Inl err)
           | Inr child \<Rightarrow>
               (case tryGet fuel e t child key pos of
                  None \<Rightarrow> None
                | Some (Inl err) \<Rightarrow> Some (Inl err)
                | Some (Inr (val, newnode, _)) \<Rightarrow> Some (Inr (val, newnode, True)))))"

text \<open>Two units of fuel for every nibble of the key: a hash node takes none.\<close>

definition trie_fuel :: "byte list \<Rightarrow> nat" where
  "trie_fuel key = 2 * length key + 2"

definition Trie_TryGet :: "trie_env \<Rightarrow> MerkleTrie \<Rightarrow> byte list \<Rightarrow> (byte list option \<times> MerkleTrie) run" where
  "Trie_TryGet e t key =
     (let k = keybytesToHex key in
      case tryGet (trie_fuel k) e t (mtroot t) k 0 of
        None \<Rightarrow> None
      | Some (Inl err) \<Rightarrow> Some (Inl err)
      | Some (Inr (val, newroot, didResolve)) \<Rightarrow> Some (Inr (val, if didResolve then t\<lparr>mtroot := newroot\<rparr> else t)))"

section \<open>Insertion\<close>

definition empty_branch :: "Node list" where
  "empty_branch = replicate 17 NilNode"

definition set_child :: "Node list \<Rightarrow> byte \<Rightarrow> Node \<Rightarrow> Node list option" where
  "set_child cs i n = (if unat i < length cs then Some (cs[unat i := n]) else None)"

fun mpt_insert :: "nat \<Rightarrow> trie_env \<Rightarrow> MerkleTrie \<Rightarrow> Node \<Rightarrow> byte list \<Rightarrow> byte list \<Rightarrow> Node \<Rightarrow> (bool \<times> Node) run" where
  "mpt_insert 0 e t n prefix key val = None"
| "mpt_insert (Suc fuel) e t n prefix key val =
     (if key = [] then
        (case n of
           ValueNode v \<Rightarrow>
             (case val of
                ValueNode w \<Rightarrow> Some (Inr (slice_bytes v \<noteq> slice_bytes w, val))
              | _ \<Rightarrow> Some (Inl (TriePanic ''interface conversion'')))
         | _ \<Rightarrow> Some (Inr (True, val)))
      else case n of
        ShortNode k v f \<Rightarrow>
          (let matchlen = prefixLen key k in
           if matchlen = length k then
             (case mpt_insert fuel e t v (prefix @ take matchlen key) (drop matchlen key) val of
                None \<Rightarrow> None
              | Some (Inl err) \<Rightarrow> Some (Inl err)
              | Some (Inr (dirty, nn)) \<Rightarrow>
                  Some (Inr (if \<not> dirty then (False, n) else (True, ShortNode k nn (newFlag t)))))
           else if matchlen \<ge> length key then Some (Inl (TriePanic ''index out of range''))
           else
             (case mpt_insert fuel e t NilNode (prefix @ take (matchlen + 1) k) (drop (matchlen + 1) k) v of
                None \<Rightarrow> None
              | Some (Inl err) \<Rightarrow> Some (Inl err)
              | Some (Inr (_, n1)) \<Rightarrow>
                  (case mpt_insert fuel e t NilNode (prefix @ take (matchlen + 1) key) (drop (matchlen + 1) key) val of
                     None \<Rightarrow> None
                   | Some (Inl err) \<Rightarrow> Some (Inl err)
                   | Some (Inr (_, n2)) \<Rightarrow>
                       (case Option.bind (set_child empty_branch (k ! matchlen) n1) (\<lambda>cs. set_child cs (key ! matchlen) n2) of
                          None \<Rightarrow> Some (Inl (TriePanic ''index out of range''))
                        | Some cs \<Rightarrow>
                            let branch = FullNode cs (newFlag t) in
                            Some (Inr (True, if matchlen = 0 then branch
                                             else ShortNode (take matchlen key) branch (newFlag t)))))))
      | FullNode cs f \<Rightarrow>
          (case child_at cs key 0 of
             None \<Rightarrow> Some (Inl (TriePanic ''index out of range''))
           | Some c \<Rightarrow>
               (case mpt_insert fuel e t c (prefix @ [key ! 0]) (drop 1 key) val of
                  None \<Rightarrow> None
                | Some (Inl err) \<Rightarrow> Some (Inl err)
                | Some (Inr (dirty, nn)) \<Rightarrow>
                    Some (Inr (if \<not> dirty then (False, n)
                               else (True, FullNode (cs[unat (key ! 0) := nn]) (newFlag t))))))
      | NilNode \<Rightarrow> Some (Inr (True, ShortNode key val (newFlag t)))
      | HashNode h \<Rightarrow>
          (case resolveHash e t h prefix of
             Inl err \<Rightarrow> Some (Inl err)
           | Inr rn \<Rightarrow>
               (case mpt_insert fuel e t rn prefix key val of
                  None \<Rightarrow> None
                | Some (Inl err) \<Rightarrow> Some (Inl err)
                | Some (Inr (dirty, nn)) \<Rightarrow> Some (Inr (if \<not> dirty then (False, rn) else (True, nn)))))
      | ValueNode v \<Rightarrow> Some (Inl (TriePanic ''invalid node'')))"

section \<open>Deletion\<close>

text \<open>The loop over the children: the index of the only child left, or \<open>None\<close> when there are none or several.\<close>

definition single_child :: "Node list \<Rightarrow> nat option" where
  "single_child cs = (case filter (\<lambda>i. cs ! i \<noteq> NilNode) [0..<length cs] of [i] \<Rightarrow> Some i | _ \<Rightarrow> None)"

fun mpt_delete :: "nat \<Rightarrow> trie_env \<Rightarrow> MerkleTrie \<Rightarrow> Node \<Rightarrow> byte list \<Rightarrow> byte list \<Rightarrow> (bool \<times> Node) run" where
  "mpt_delete 0 e t n prefix key = None"
| "mpt_delete (Suc fuel) e t n prefix key =
     (case n of
        ShortNode k v f \<Rightarrow>
          (let matchlen = prefixLen key k in
           if matchlen < length k then Some (Inr (False, n))
           else if matchlen = length key then Some (Inr (True, NilNode))
           else (case mpt_delete fuel e t v (prefix @ take (length k) key) (drop (length k) key) of
                   None \<Rightarrow> None
                 | Some (Inl err) \<Rightarrow> Some (Inl err)
                 | Some (Inr (dirty, child)) \<Rightarrow>
                     Some (Inr (if \<not> dirty then (False, n)
                                else (case child of
                                        ShortNode ck cv cf \<Rightarrow> (True, ShortNode (k @ ck) cv (newFlag t))
                                      | _ \<Rightarrow> (True, ShortNode k child (newFlag t)))))))
      | FullNode cs f \<Rightarrow>
          (case child_at cs key 0 of
             None \<Rightarrow> Some (Inl (TriePanic ''index out of range''))
           | Some c \<Rightarrow>
               (case mpt_delete fuel e t c (prefix @ [key ! 0]) (drop 1 key) of
                  None \<Rightarrow> None
                | Some (Inl err) \<Rightarrow> Some (Inl err)
                | Some (Inr (dirty, nn)) \<Rightarrow>
                    if \<not> dirty then Some (Inr (False, n))
                    else
                      let cs1 = cs[unat (key ! 0) := nn] in
                      case single_child cs1 of
                        None \<Rightarrow> Some (Inr (True, FullNode cs1 (newFlag t)))
                      | Some pos \<Rightarrow>
                          if pos \<noteq> 16 then
                            (case resolveNode e t (cs1 ! pos) prefix of
                               Inl err \<Rightarrow> Some (Inl err)
                             | Inr (ShortNode ck cv cf) \<Rightarrow> Some (Inr (True, ShortNode (of_nat pos # ck) cv (newFlag t)))
                             | Inr _ \<Rightarrow> Some (Inr (True, ShortNode [of_nat pos] (cs1 ! pos) (newFlag t))))
                          else Some (Inr (True, ShortNode [of_nat pos] (cs1 ! pos) (newFlag t)))))
      | ValueNode v \<Rightarrow> Some (Inr (True, NilNode))
      | NilNode \<Rightarrow> Some (Inr (False, NilNode))
      | HashNode h \<Rightarrow>
          (case resolveHash e t h prefix of
             Inl err \<Rightarrow> Some (Inl err)
           | Inr rn \<Rightarrow>
               (case mpt_delete fuel e t rn prefix key of
                  None \<Rightarrow> None
                | Some (Inl err) \<Rightarrow> Some (Inl err)
                | Some (Inr (dirty, nn)) \<Rightarrow> Some (Inr (if \<not> dirty then (False, rn) else (True, nn))))))"

definition set_root :: "MerkleTrie \<Rightarrow> (bool \<times> Node) run \<Rightarrow> MerkleTrie run" where
  "set_root t r = map_option (map_sum id (\<lambda>(_, n). t\<lparr>mtroot := n\<rparr>)) r"

definition Trie_TryDelete :: "trie_env \<Rightarrow> MerkleTrie \<Rightarrow> byte list \<Rightarrow> MerkleTrie run" where
  "Trie_TryDelete e t key =
     (let k = keybytesToHex key in set_root t (mpt_delete (trie_fuel k) e t (mtroot t) [] k))"

definition Trie_TryUpdate :: "trie_env \<Rightarrow> MerkleTrie \<Rightarrow> byte list \<Rightarrow> byte list \<Rightarrow> MerkleTrie run" where
  "Trie_TryUpdate e t key val =
     (let k = keybytesToHex key in
      if length val \<noteq> 0 then set_root t (mpt_insert (trie_fuel k) e t (mtroot t) [] k (ValueNode (Some val)))
      else set_root t (mpt_delete (trie_fuel k) e t (mtroot t) [] k))"

text \<open>\<^verbatim>\<open>Get\<close>, \<^verbatim>\<open>Update\<close> and \<^verbatim>\<open>Delete\<close> log an error and go on.\<close>

definition Trie_Get :: "trie_env \<Rightarrow> MerkleTrie \<Rightarrow> byte list \<Rightarrow> (byte list option \<times> MerkleTrie) option" where
  "Trie_Get e t key = map_option (\<lambda>r. case r of Inl _ \<Rightarrow> (None, t) | Inr x \<Rightarrow> x) (Trie_TryGet e t key)"

definition Trie_Update :: "trie_env \<Rightarrow> MerkleTrie \<Rightarrow> byte list \<Rightarrow> byte list \<Rightarrow> MerkleTrie option" where
  "Trie_Update e t key val = map_option (\<lambda>r. case r of Inl _ \<Rightarrow> t | Inr t' \<Rightarrow> t') (Trie_TryUpdate e t key val)"

definition Trie_Delete :: "trie_env \<Rightarrow> MerkleTrie \<Rightarrow> byte list \<Rightarrow> MerkleTrie option" where
  "Trie_Delete e t key = map_option (\<lambda>r. case r of Inl _ \<Rightarrow> t | Inr t' \<Rightarrow> t') (Trie_TryDelete e t key)"

section \<open>Hashing\<close>

text \<open>The leaf callback may change the node database. \<^verbatim>\<open>db == nil\<close> is \<open>None\<close>: hash only. The outer option is a
  panic.\<close>

record hasher =
  hcachegen :: "16 word"
  hcachelimit :: "16 word"
  onleaf :: "(byte list \<Rightarrow> Hash \<Rightarrow> TrieDatabase \<Rightarrow> TrieDatabase) option"

fun reference_all :: "Node list \<Rightarrow> Hash \<Rightarrow> TrieDatabase \<Rightarrow> TrieDatabase option" where
  "reference_all [] parent db = Some db"
| "reference_all (HashNode h # cs) parent db =
     Option.bind (BytesToHash h) (\<lambda>child. Option.bind (db_reference db child parent) (reference_all cs parent))"
| "reference_all (_ # cs) parent db = reference_all cs parent db"

fun leaf_all :: "(byte list \<Rightarrow> Hash \<Rightarrow> TrieDatabase \<Rightarrow> TrieDatabase) \<Rightarrow> Node list \<Rightarrow> Hash \<Rightarrow> TrieDatabase \<Rightarrow> TrieDatabase" where
  "leaf_all f [] parent db = db"
| "leaf_all f (ValueNode (Some v) # cs) parent db = leaf_all f cs parent (f v parent db)"
| "leaf_all f (_ # cs) parent db = leaf_all f cs parent db"

fun linked_nodes :: "Node \<Rightarrow> Node list" where
  "linked_nodes (ShortNode k v f) = [v]"
| "linked_nodes (FullNode cs f) = take 16 cs"
| "linked_nodes _ = []"

definition hasher_store ::
    "trie_env \<Rightarrow> hasher \<Rightarrow> Node \<Rightarrow> TrieDatabase option \<Rightarrow> bool \<Rightarrow> (Node \<times> TrieDatabase option) option" where
  "hasher_store e h n db force =
     (case n of
        NilNode \<Rightarrow> Some (n, db)
      | HashNode _ \<Rightarrow> Some (n, db)
      | _ \<Rightarrow>
          let enc = encodeNode (tmsgp e) n in
          if length enc < 32 \<and> \<not> force then Some (n, db)
          else
            let hash = (case fst (node_cache n) of Some x \<Rightarrow> x | None \<Rightarrow> tsha e enc) in
            case db of
              None \<Rightarrow> Some (HashNode hash, None)
            | Some d \<Rightarrow>
                map_option (\<lambda>d1. (HashNode hash, Some d1))
                  (Option.bind (BytesToHash hash) (\<lambda>hs.
                   Option.bind (db_insert d hs enc) (\<lambda>d1.
                   map_option (\<lambda>d2. case onleaf h of None \<Rightarrow> d2 | Some f \<Rightarrow> leaf_all f (linked_nodes n) hs d2)
                     (reference_all (linked_nodes n) hs d1)))))"

definition with_hash :: "Node \<Rightarrow> byte list option \<Rightarrow> bool \<Rightarrow> Node" where
  "with_hash n h clean =
     (let upd = (\<lambda>f. if clean then f\<lparr>fhash := h, fdirty := False\<rparr> else f\<lparr>fhash := h\<rparr>) in
      case n of ShortNode k v f \<Rightarrow> ShortNode k v (upd f) | FullNode cs f \<Rightarrow> FullNode cs (upd f) | _ \<Rightarrow> n)"

definition use_cached :: "hasher \<Rightarrow> Node \<Rightarrow> TrieDatabase option \<Rightarrow> (Node \<times> Node) option" where
  "use_cached h n db =
     (case node_cache n of
        (None, _) \<Rightarrow> None
      | (Some hash, dirty) \<Rightarrow>
          if db = None then Some (HashNode hash, n)
          else if node_canUnload n (hcachegen h) (hcachelimit h) then Some (HashNode hash, HashNode hash)
          else if \<not> dirty then Some (HashNode hash, n)
          else None)"

text \<open>The end of \<^verbatim>\<open>hash\<close>: the collapsed node is stored, and its hash is remembered in the cached one.\<close>

definition finish_hash ::
    "trie_env \<Rightarrow> hasher \<Rightarrow> bool \<Rightarrow> Node \<Rightarrow> Node \<Rightarrow> TrieDatabase option \<Rightarrow> (Node \<times> Node \<times> TrieDatabase option) option" where
  "finish_hash e h force collapsed cached db =
     map_option (\<lambda>(hashed, db1).
       (hashed, with_hash cached (case hashed of HashNode x \<Rightarrow> Some x | _ \<Rightarrow> None) (db \<noteq> None), db1))
       (hasher_store e h collapsed db force)"

text \<open>\<^verbatim>\<open>hash\<close> with \<^verbatim>\<open>hashChildren\<close>: the hashed node, the cached one and the database. The first sixteen children are
  hashed, the value in the last place is kept.\<close>

fun hash_node ::
    "trie_env \<Rightarrow> hasher \<Rightarrow> Node \<Rightarrow> TrieDatabase option \<Rightarrow> bool \<Rightarrow> (Node \<times> Node \<times> TrieDatabase option) option"
  and hash_children ::
    "trie_env \<Rightarrow> hasher \<Rightarrow> nat \<Rightarrow> Node list \<Rightarrow> TrieDatabase option \<Rightarrow> (Node list \<times> Node list \<times> TrieDatabase option) option" where
  "hash_node e h n db force =
     (case use_cached h n db of
        Some (hashed, cached) \<Rightarrow> Some (hashed, cached, db)
      | None \<Rightarrow>
          (case n of
             NilNode \<Rightarrow> None
           | ShortNode k v f \<Rightarrow>
               (case (case v of ValueNode _ \<Rightarrow> Some (v, v, db) | _ \<Rightarrow> hash_node e h v db False) of
                  None \<Rightarrow> None
                | Some (hv, cv, db1) \<Rightarrow>
                    finish_hash e h force (ShortNode (hexToCompact k) (if hv = NilNode then ValueNode None else hv) f)
                      (ShortNode k cv f) db1)
           | FullNode cs f \<Rightarrow>
               (case hash_children e h 16 cs db of
                  None \<Rightarrow> None
                | Some (hs, cvs, db1) \<Rightarrow>
                    finish_hash e h force
                      (FullNode (hs @ map (\<lambda>v. if v = NilNode then ValueNode None else v) (drop 16 cs)) f)
                      (FullNode (cvs @ drop 16 cs) f) db1)
           | _ \<Rightarrow> finish_hash e h force n n db))"
| "hash_children e h left [] db = Some ([], [], db)"
| "hash_children e h left (c # cs) db =
     (if left = 0 then Some ([], [], db)
      else case (if c = NilNode then Some (ValueNode None, NilNode, db) else hash_node e h c db False) of
        None \<Rightarrow> None
      | Some (hc, cc, db1) \<Rightarrow>
          (case hash_children e h (left - 1) cs db1 of
             None \<Rightarrow> None
           | Some (hs, ccs, db2) \<Rightarrow> Some (hc # hs, cc # ccs, db2)))"

definition hashRoot ::
    "trie_env \<Rightarrow> MerkleTrie \<Rightarrow> TrieDatabase option \<Rightarrow> (byte list \<Rightarrow> Hash \<Rightarrow> TrieDatabase \<Rightarrow> TrieDatabase) option
      \<Rightarrow> (Node \<times> Node \<times> TrieDatabase option) option" where
  "hashRoot e t db leaf =
     (if mtroot t = NilNode then Some (HashNode (Hash_ToBytes emptyRoot), NilNode, db)
      else hash_node e \<lparr>hcachegen = mtcachegen t, hcachelimit = mtcachelimit t, onleaf = leaf\<rparr> (mtroot t) db True)"

definition hash_of :: "Node \<Rightarrow> Hash option" where
  "hash_of n = (case n of HashNode h \<Rightarrow> BytesToHash h | _ \<Rightarrow> None)"

definition Trie_Hash :: "trie_env \<Rightarrow> MerkleTrie \<Rightarrow> (Hash \<times> MerkleTrie) option" where
  "Trie_Hash e t =
     Option.bind (hashRoot e t None None) (\<lambda>(hash, cached, _).
       map_option (\<lambda>r. (r, t\<lparr>mtroot := cached\<rparr>)) (hash_of hash))"

definition MerkleTrie_Commit ::
    "trie_env \<Rightarrow> MerkleTrie \<Rightarrow> (byte list \<Rightarrow> Hash \<Rightarrow> TrieDatabase \<Rightarrow> TrieDatabase) option \<Rightarrow> (Hash \<times> MerkleTrie) option" where
  "MerkleTrie_Commit e t leaf =
     Option.bind (hashRoot e t (Some (mtdb t)) leaf) (\<lambda>(hash, cached, db).
       map_option (\<lambda>r. (r, t\<lparr>mtdb := (case db of Some d \<Rightarrow> d | None \<Rightarrow> mtdb t), mtroot := cached, mtcachegen := mtcachegen t + 1\<rparr>))
         (hash_of hash))"

section \<open>The secure trie\<close>

text \<open>\<open>ownsCache\<close> is \<^verbatim>\<open>t == t.secKeyCacheOwner\<close>: a copy shares the cache of its original until it first uses it.\<close>

record SecureTrie =
  secTrie :: MerkleTrie
  secKeyCache :: "(byte list, byte list) gomap"
  ownsCache :: bool

definition NewSecure :: "trie_env \<Rightarrow> Hash \<Rightarrow> TrieDatabase \<Rightarrow> 16 word \<Rightarrow> trie_error + SecureTrie" where
  "NewSecure e r db limit =
     map_sum id (\<lambda>t. \<lparr>secTrie = SetCacheLimit t limit, secKeyCache = [], ownsCache = False\<rparr>) (trie_New e r db)"

definition hashKey :: "trie_env \<Rightarrow> byte list \<Rightarrow> byte list" where
  "hashKey e key = tsha e key"

definition getSecKeyCache :: "SecureTrie \<Rightarrow> SecureTrie" where
  "getSecKeyCache s = (if \<not> ownsCache s then s\<lparr>ownsCache := True, secKeyCache := []\<rparr> else s)"

definition Secure_TryGet :: "trie_env \<Rightarrow> SecureTrie \<Rightarrow> byte list \<Rightarrow> (byte list option \<times> SecureTrie) run" where
  "Secure_TryGet e s key =
     map_option (map_sum id (\<lambda>(v, t). (v, s\<lparr>secTrie := t\<rparr>))) (Trie_TryGet e (secTrie s) (hashKey e key))"

definition Secure_TryUpdate :: "trie_env \<Rightarrow> SecureTrie \<Rightarrow> byte list \<Rightarrow> byte list \<Rightarrow> SecureTrie run" where
  "Secure_TryUpdate e s key val =
     (let hk = hashKey e key in
      map_option (map_sum id (\<lambda>t.
        let s1 = getSecKeyCache (s\<lparr>secTrie := t\<rparr>) in s1\<lparr>secKeyCache := AList.update hk key (secKeyCache s1)\<rparr>))
        (Trie_TryUpdate e (secTrie s) hk val))"

definition Secure_TryDelete :: "trie_env \<Rightarrow> SecureTrie \<Rightarrow> byte list \<Rightarrow> SecureTrie run" where
  "Secure_TryDelete e s key =
     (let hk = hashKey e key;
          s1 = getSecKeyCache s;
          s2 = s1\<lparr>secKeyCache := AList.delete hk (secKeyCache s1)\<rparr>
      in map_option (map_sum id (\<lambda>t. s2\<lparr>secTrie := t\<rparr>)) (Trie_TryDelete e (secTrie s2) hk))"

text \<open>\<open>None\<close> is the panic of a key longer than a hash; inside it, \<open>None\<close> is nil.\<close>

definition Secure_GetKey :: "SecureTrie \<Rightarrow> byte list \<Rightarrow> byte list option option" where
  "Secure_GetKey s shaKey =
     (case map_of (secKeyCache (getSecKeyCache s)) shaKey of
        Some key \<Rightarrow> Some (Some key)
      | None \<Rightarrow>
          map_option (\<lambda>h. case db_preimage (mtdb (secTrie s)) h of Inl _ \<Rightarrow> None | Inr key \<Rightarrow> Some key) (BytesToHash shaKey))"

fun insert_preimages :: "TrieDatabase \<Rightarrow> (byte list \<times> byte list) list \<Rightarrow> TrieDatabase option" where
  "insert_preimages db [] = Some db"
| "insert_preimages db ((hk, key) # ks) =
     Option.bind (BytesToHash hk) (\<lambda>h. insert_preimages (insertPreimage db h key) ks)"

definition Secure_Commit ::
    "trie_env \<Rightarrow> ((byte list \<times> byte list) list \<Rightarrow> (byte list \<times> byte list) list) \<Rightarrow> SecureTrie
      \<Rightarrow> (byte list \<Rightarrow> Hash \<Rightarrow> TrieDatabase \<Rightarrow> TrieDatabase) option \<Rightarrow> (Hash \<times> SecureTrie) option" where
  "Secure_Commit e ord s leaf =
     (let s1 = getSecKeyCache s;
          db1 = (if length (secKeyCache s1) > 0 then insert_preimages (mtdb (secTrie s1)) (ord (secKeyCache s1))
                 else Some (mtdb (secTrie s1)))
      in Option.bind db1 (\<lambda>db.
           map_option (\<lambda>(r, t). (r, s1\<lparr>secTrie := t, secKeyCache := []\<rparr>))
             (MerkleTrie_Commit e ((secTrie s1)\<lparr>mtdb := db\<rparr>) leaf)))"

definition Secure_Hash :: "trie_env \<Rightarrow> SecureTrie \<Rightarrow> (Hash \<times> SecureTrie) option" where
  "Secure_Hash e s = map_option (\<lambda>(r, t). (r, s\<lparr>secTrie := t\<rparr>)) (Trie_Hash e (secTrie s))"

definition Secure_Copy :: "SecureTrie \<Rightarrow> SecureTrie" where
  "Secure_Copy s = s\<lparr>ownsCache := False\<rparr>"

end
