(* ===== verification/TrieShape.thy ===== *)
theory TrieShape
  imports MerkleTrie
begin

text \<open>
  What a Merkle Patricia trie holds and the shape the code keeps it in. \<open>holds\<close> is the content of a node as a relation of
  keys and values; \<open>good\<close> is the invariant: a short node ends in a value or leads to a full node, a full node has at
  least two children, and hash nodes resolve. \<open>rs\<close> is what the node database resolves a hash to.
\<close>

section \<open>Keys\<close>

definition hexkey :: "byte list \<Rightarrow> bool" where
  "hexkey k \<longleftrightarrow> (\<exists>ns. nibbles ns \<and> k = ns @ [16])"

lemma hexkey_keybytes [simp]: "hexkey (keybytesToHex str)"
  unfolding hexkey_def keybytesToHex_split using split_nibbles_props by blast

lemma hexkey_Nil [simp]: "\<not> hexkey []"
  by (simp add: hexkey_def)

lemma hexkey_Cons: "hexkey (x # k) \<longleftrightarrow> (if k = [] then x = 16 else x < 16 \<and> hexkey k)"
proof (cases k rule: rev_cases)
  case (snoc ys y)
  have "x # ys @ [y] = ns @ [16] \<longleftrightarrow> ns = x # ys \<and> y = 16" for ns
    by (metis append_Cons append1_eq_conv)
  then show ?thesis using snoc by (auto simp: hexkey_def)
qed (auto simp: hexkey_def)

lemma hexkey_append: "nibbles k \<Longrightarrow> hexkey (k @ r) \<longleftrightarrow> hexkey r"
  by (induction k) (auto simp: hexkey_Cons)

lemma hexkey_prefix: "hexkey k \<Longrightarrow> hexkey (k @ r) \<longleftrightarrow> r = []"
  by (induction k) (auto simp: hexkey_Cons split: if_splits)

lemma hexkey_not_nibbles: "hexkey k \<Longrightarrow> \<not> nibbles (k @ r)"
  by (auto simp: hexkey_def)

lemma hexkey_suffix: "hexkey (p @ r) \<Longrightarrow> r \<noteq> [] \<Longrightarrow> nibbles p \<and> hexkey r"
  by (induction p) (auto simp: hexkey_Cons split: if_splits)

lemma keybytesToHex_inject: "keybytesToHex a = keybytesToHex b \<longleftrightarrow> a = b"
  by (metis hexToKeybytes_keybytesToHex option.inject)

lemma prefixLen_split:
  "prefixLen a b \<le> length a \<and> prefixLen a b \<le> length b \<and> take (prefixLen a b) a = take (prefixLen a b) b
     \<and> (prefixLen a b < length a \<longrightarrow> prefixLen a b < length b \<longrightarrow> a ! prefixLen a b \<noteq> b ! prefixLen a b)"
  by (induction a b rule: prefixLen.induct) auto

lemma prefixLen_full: "prefixLen key k = length k \<longleftrightarrow> (\<exists>r. key = k @ r)"
  by (induction key k rule: prefixLen.induct) auto

text \<open>Two keys part at a first difference, or one is a prefix of the other.\<close>

lemma prefixLen_cases:
  assumes "prefixLen key k \<noteq> length k"
  obtains (shorter) r where "k = key @ r" "prefixLen key k = length key"
  | (differ) p x y a b where "key = p @ x # a" "k = p @ y # b" "x \<noteq> y" "prefixLen key k = length p"
proof (cases "prefixLen key k = length key")
  case True
  then show ?thesis using prefixLen_split [of key k] shorter [of "drop (length key) k"]
    by (metis append_take_drop_id take_all_iff order_refl)
next
  case False
  let ?m = "prefixLen key k"
  have m: "?m < length key" "?m < length k" "take ?m key = take ?m k" "key ! ?m \<noteq> k ! ?m"
    using prefixLen_split [of key k] False assms by auto
  show ?thesis
    using differ [of "take ?m key" "key ! ?m" "drop (Suc ?m) key" "k ! ?m" "drop (Suc ?m) k"] m id_take_nth_drop [OF m(1)]
      id_take_nth_drop [OF m(2)] by (simp add: min_def)
qed

section \<open>Content and shape\<close>

type_synonym resolver = "byte list \<Rightarrow> Node option"

inductive holds :: "resolver \<Rightarrow> Node \<Rightarrow> byte list \<Rightarrow> byte list \<Rightarrow> bool" for rs where
  holds_value: "holds rs (ValueNode (Some v)) [] v"
| holds_short: "holds rs c k v \<Longrightarrow> holds rs (ShortNode p c f) (p @ k) v"
| holds_full: "unat x < length cs \<Longrightarrow> holds rs (cs ! unat x) k v \<Longrightarrow> holds rs (FullNode cs f) (x # k) v"
| holds_hash: "rs h = Some n \<Longrightarrow> holds rs n k v \<Longrightarrow> holds rs (HashNode h) k v"

inductive_simps holds_NilNode [simp]: "holds rs NilNode k v"
inductive_simps holds_ValueNode [simp]: "holds rs (ValueNode w) k v"
inductive_simps holds_ShortNode: "holds rs (ShortNode p c f) k v"
inductive_simps holds_FullNode: "holds rs (FullNode cs f) k v"
inductive_simps holds_HashNode: "holds rs (HashNode h) k v"

definition branching :: "resolver \<Rightarrow> Node \<Rightarrow> bool" where
  "branching rs c \<longleftrightarrow> (\<exists>cs f. c = FullNode cs f) \<or> (\<exists>h cs f. c = HashNode h \<and> rs h = Some (FullNode cs f))"

definition filled :: "Node list \<Rightarrow> nat set" where
  "filled cs = {i. i < length cs \<and> cs ! i \<noteq> NilNode}"

inductive good :: "resolver \<Rightarrow> Node \<Rightarrow> bool" for rs where
  good_leaf: "hexkey k \<Longrightarrow> good rs (ShortNode k (ValueNode (Some v)) f)"
| good_ext: "k \<noteq> [] \<Longrightarrow> nibbles k \<Longrightarrow> branching rs c \<Longrightarrow> good rs c \<Longrightarrow> good rs (ShortNode k c f)"
| good_full: "length cs = 17 \<Longrightarrow> \<forall>i < 16. cs ! i = NilNode \<or> good rs (cs ! i) \<Longrightarrow>
    cs ! 16 = NilNode \<or> (\<exists>v. cs ! 16 = ValueNode (Some v)) \<Longrightarrow> 2 \<le> card (filled cs) \<Longrightarrow> good rs (FullNode cs f)"
| good_hash: "rs h = Some n \<Longrightarrow> \<forall>h'. n \<noteq> HashNode h' \<Longrightarrow> good rs n \<Longrightarrow> good rs (HashNode h)"

inductive_simps good_NilNode [simp]: "good rs NilNode"
inductive_simps good_ValueNode [simp]: "good rs (ValueNode w)"
inductive_simps good_ShortNode: "good rs (ShortNode p c f)"
inductive_simps good_FullNode: "good rs (FullNode cs f)"
inductive_simps good_HashNode: "good rs (HashNode h)"

text \<open>A node in the place that the rest of a key leads to.\<close>

definition fits :: "resolver \<Rightarrow> Node \<Rightarrow> byte list \<Rightarrow> bool" where
  "fits rs n key \<longleftrightarrow>
     (if key = [] then n = NilNode \<or> (\<exists>v. n = ValueNode (Some v)) else hexkey key \<and> (n = NilNode \<or> good rs n))"

lemma fits_short:
  assumes "good rs (ShortNode p c f)" "hexkey (p @ r)"
  shows "fits rs c r" "p \<noteq> []" "c \<noteq> NilNode"
  using assms hexkey_not_nibbles [of p "[]"] by (auto simp: good_ShortNode fits_def hexkey_append hexkey_prefix)

lemma fits_full:
  assumes "good rs (FullNode cs f)" "hexkey (x # r)"
  shows "fits rs (cs ! unat x) r" "unat x < 17" "length cs = 17"
proof -
  have "unat (16 :: byte) = 16" by simp
  then show "fits rs (cs ! unat x) r" "unat x < 17"
    using assms by (auto simp: good_FullNode fits_def hexkey_Cons word_less_nat_alt split: if_splits)
  show "length cs = 17" using assms(1) by (simp add: good_FullNode)
qed

lemma fits_hash:
  assumes "fits rs (HashNode h) key"
  obtains n where "rs h = Some n" "fits rs n key" "\<forall>h'. n \<noteq> HashNode h'" "good rs n" "hexkey key"
  using assms by (auto simp: fits_def good_HashNode split: if_splits)

section \<open>Replacing a node by an equivalent one\<close>

text \<open>\<open>n'\<close> can stand where \<open>n\<close> stood.\<close>

definition equiv_node :: "resolver \<Rightarrow> Node \<Rightarrow> Node \<Rightarrow> bool" where
  "equiv_node rs n n' \<longleftrightarrow>
     (\<forall>k v. holds rs n' k v \<longleftrightarrow> holds rs n k v) \<and> (good rs n \<longrightarrow> good rs n') \<and> (branching rs n \<longrightarrow> branching rs n')
     \<and> (n' = NilNode \<longleftrightarrow> n = NilNode) \<and> (\<forall>w. n = ValueNode w \<longrightarrow> n' = n)"

lemma equiv_node_refl [simp]: "equiv_node rs n n"
  by (simp add: equiv_node_def)

lemma equiv_short:
  assumes "good rs (ShortNode p c f)" "equiv_node rs c c'"
  shows "equiv_node rs (ShortNode p c f) (ShortNode p c' f')"
  using assms by (auto simp: equiv_node_def holds_ShortNode good_ShortNode branching_def)

lemma filled_update: "filled (cs[i := n]) = (if i < length cs \<and> n \<noteq> NilNode then insert i (filled cs) else filled cs - {i})"
  by (cases "i < length cs") (auto simp: filled_def nth_list_update)

lemma filled_finite [simp]: "finite (filled cs)"
  by (simp add: filled_def)

lemma equiv_full:
  assumes "good rs (FullNode cs f)" "equiv_node rs (cs ! i) n'" "i < 17"
  shows "equiv_node rs (FullNode cs f) (FullNode (cs[i := n']) f')"
proof -
  have l: "length cs = 17" using assms(1) by (simp add: good_FullNode)
  have e: "n' = NilNode \<longleftrightarrow> cs ! i = NilNode" "good rs (cs ! i) \<Longrightarrow> good rs n'" "cs ! i = ValueNode w \<Longrightarrow> n' = cs ! i" for w
    using assms(2) unfolding equiv_node_def by blast+
  have "filled (cs[i := n']) = filled cs" using e(1) l assms(3) unfolding filled_update by (auto simp: filled_def)
  moreover have "cs[i := n'] ! j = NilNode \<or> good rs (cs[i := n'] ! j)" if "j < 16" for j
    using assms(1) that e(1,2) l by (cases "j = i") (auto simp: good_FullNode)
  moreover have "cs[i := n'] ! 16 = NilNode \<or> (\<exists>v. cs[i := n'] ! 16 = ValueNode (Some v))"
    using assms(1) e(1,3) l by (cases "i = 16") (auto simp: good_FullNode)
  ultimately have "good rs (FullNode (cs[i := n']) f')" using assms(1) by (simp add: good_FullNode)
  moreover have "holds rs (cs[i := n'] ! j) k v \<longleftrightarrow> holds rs (cs ! j) k v" for j k v
    using assms(2,3) l by (cases "j = i") (simp_all add: equiv_node_def)
  ultimately show ?thesis by (auto simp: equiv_node_def holds_FullNode branching_def)
qed

lemma equiv_hash:
  assumes "rs h = Some n" "good rs (HashNode h)" "equiv_node rs n n'"
  shows "equiv_node rs (HashNode h) n'"
  using assms by (auto simp: equiv_node_def holds_HashNode good_HashNode branching_def)

section \<open>Lookup\<close>

definition loads :: "trie_env \<Rightarrow> MerkleTrie \<Rightarrow> resolver" where
  "loads e t h = (case resolveHash e t h [] of Inr n \<Rightarrow> Some n | Inl _ \<Rightarrow> None)"

lemma loads_resolveHash: "loads e t h = Some n \<Longrightarrow> resolveHash e t h prefix = Inr n"
  by (auto simp: loads_def resolveHash_def split: option.splits sum.splits)

lemma loads_root [simp]: "loads e (t\<lparr>mtroot := n\<rparr>) = loads e t"
  by (simp add: loads_def resolveHash_def fun_eq_iff cong: option.case_cong sum.case_cong)

definition node_fuel :: "Node \<Rightarrow> byte list \<Rightarrow> nat" where
  "node_fuel n key = 2 * length key + (case n of HashNode _ \<Rightarrow> 2 | _ \<Rightarrow> 1)"

lemma node_fuel_bound: "node_fuel n key \<le> 2 * length key + 2"
  by (simp add: node_fuel_def split: Node.split)

text \<open>What each operation promises of its result.\<close>

definition got :: "resolver \<Rightarrow> Node \<Rightarrow> byte list \<Rightarrow> (byte list option \<times> Node \<times> bool) run \<Rightarrow> bool" where
  "got rs n key r \<longleftrightarrow> (\<exists>val n' d. r = Some (Inr (val, n', d)) \<and> (\<forall>v. val = Some v \<longleftrightarrow> holds rs n key v) \<and> equiv_node rs n n')"

lemma gotI: "r = Some (Inr (val, n', d)) \<Longrightarrow> (\<And>v. val = Some v \<longleftrightarrow> holds rs n key v) \<Longrightarrow> equiv_node rs n n' \<Longrightarrow> got rs n key r"
  unfolding got_def by blast

lemma gotE:
  assumes "got rs n key r"
  obtains val n' d where "r = Some (Inr (val, n', d))" "\<forall>v. val = Some v \<longleftrightarrow> holds rs n key v" "equiv_node rs n n'"
  using assms unfolding got_def by blast

lemma child_at_append [simp]: "child_at cs (pre @ x # key) (length pre) = (if unat x < length cs then Some (cs ! unat x) else None)"
  by (simp add: child_at_def)

lemma fuel_short:
  assumes "node_fuel (ShortNode p c f) (p @ r) \<le> Suc fuel" "p \<noteq> []"
  shows "node_fuel m r \<le> fuel"
  using assms node_fuel_bound [of m r] by (cases p) (auto simp: node_fuel_def)

lemma fuel_full:
  assumes "node_fuel (FullNode cs f) (x # r) \<le> Suc fuel"
  shows "node_fuel m r \<le> fuel"
  using assms node_fuel_bound [of m r] by (simp add: node_fuel_def)

lemma fuel_hash:
  assumes "node_fuel (HashNode h) key \<le> Suc fuel" "\<forall>h'. m \<noteq> HashNode h'"
  shows "node_fuel m key \<le> fuel"
  using assms by (cases m) (simp_all add: node_fuel_def)

lemma fuel_zero: "\<not> node_fuel n key \<le> 0"
  by (cases n) (simp_all add: node_fuel_def)

lemma fits_good: "fits rs n key \<Longrightarrow> n \<noteq> NilNode \<Longrightarrow> \<forall>w. n \<noteq> ValueNode w \<Longrightarrow> good rs n \<and> hexkey key"
  by (auto simp: fits_def split: if_splits)

lemma tryGet_got:
  assumes "fits (loads e t) n key" "node_fuel n key \<le> fuel"
  shows "got (loads e t) n key (tryGet fuel e t n (pre @ key) (length pre))"
  using assms
proof (induction fuel arbitrary: n key pre)
  case 0
  then show ?case using fuel_zero by blast
next
  case (Suc fuel)
  let ?rs = "loads e t"
  show ?case
  proof (cases n)
    case (ShortNode p c f)
    then have g: "good ?rs (ShortNode p c f)" "hexkey key" using fits_good [OF Suc.prems(1)] by auto
    show ?thesis
    proof (cases "\<exists>r. key = p @ r")
      case True
      then obtain r where r: "key = p @ r" by blast
      note sub = fits_short [OF g(1) g(2) [unfolded r]]
      from Suc.IH [OF sub(1) fuel_short [OF Suc.prems(2) [unfolded ShortNode r] sub(2)], of "pre @ p"]
      obtain val n' d where i: "tryGet fuel e t c ((pre @ p) @ r) (length (pre @ p)) = Some (Inr (val, n', d))"
          "\<forall>v. val = Some v \<longleftrightarrow> holds ?rs c r v" "equiv_node ?rs c n'" by (rule gotE)
      show ?thesis
      proof (rule gotI)
        show "tryGet (Suc fuel) e t n (pre @ key) (length pre)
            = Some (Inr (val, if d then ShortNode p n' (f\<lparr>fgen := mtcachegen t\<rparr>) else n, d))"
          using i(1) by (simp add: ShortNode r)
        show "val = Some v \<longleftrightarrow> holds ?rs n key v" for v using i(2) [rule_format, of v] by (simp add: ShortNode r holds_ShortNode)
      qed (simp add: ShortNode equiv_short [OF g(1) i(3)])
    next
      case False
      then have "\<not> (length p \<le> length key \<and> p = take (length p) key)" by (metis append_take_drop_id)
      then have "tryGet (Suc fuel) e t n (pre @ key) (length pre) = Some (Inr (None, n, False))" by (auto simp: ShortNode)
      then show ?thesis by (rule gotI) (use False in \<open>auto simp: ShortNode holds_ShortNode\<close>)
    qed
  next
    case (FullNode cs f)
    then have g: "good ?rs (FullNode cs f)" "hexkey key" using fits_good [OF Suc.prems(1)] by auto
    then obtain x r where r: "key = x # r" by (cases key) auto
    note sub = fits_full [OF g(1) g(2) [unfolded r]]
    from Suc.IH [OF sub(1) fuel_full [OF Suc.prems(2) [unfolded FullNode r]], of "pre @ [x]"]
    obtain val n' d where i: "tryGet fuel e t (cs ! unat x) ((pre @ [x]) @ r) (length (pre @ [x])) = Some (Inr (val, n', d))"
        "\<forall>v. val = Some v \<longleftrightarrow> holds ?rs (cs ! unat x) r v" "equiv_node ?rs (cs ! unat x) n'" by (rule gotE)
    show ?thesis
    proof (rule gotI)
      show "tryGet (Suc fuel) e t n (pre @ key) (length pre)
          = Some (Inr (val, if d then FullNode (cs[unat x := n']) (f\<lparr>fgen := mtcachegen t\<rparr>) else n, d))"
        using i(1) sub(2,3) by (simp add: FullNode r)
      show "val = Some v \<longleftrightarrow> holds ?rs n key v" for v using i(2) [rule_format, of v] sub(2,3) by (simp add: FullNode r holds_FullNode)
    qed (simp add: FullNode equiv_full [OF g(1) i(3) sub(2)])
  next
    case (HashNode h)
    obtain m where m: "?rs h = Some m" "fits ?rs m key" "\<forall>h'. m \<noteq> HashNode h'" "good ?rs m"
      using Suc.prems(1) [unfolded HashNode] by (rule fits_hash)
    have g: "good ?rs (HashNode h)" using m by (intro good_hash)
    from Suc.IH [OF m(2) fuel_hash [OF Suc.prems(2) [unfolded HashNode] m(3)], of pre]
    obtain val n' d where i: "tryGet fuel e t m (pre @ key) (length pre) = Some (Inr (val, n', d))"
        "\<forall>v. val = Some v \<longleftrightarrow> holds ?rs m key v" "equiv_node ?rs m n'" by (rule gotE)
    show ?thesis
    proof (rule gotI)
      show "tryGet (Suc fuel) e t n (pre @ key) (length pre) = Some (Inr (val, n', True))"
        using i(1) loads_resolveHash [OF m(1)] by (simp add: HashNode)
      show "val = Some v \<longleftrightarrow> holds ?rs n key v" for v using i(2) [rule_format, of v] m(1) by (simp add: HashNode holds_HashNode)
    qed (simp add: HashNode equiv_hash [OF m(1) g i(3)])
  next
    case NilNode
    then show ?thesis by (intro gotI [of _ None NilNode False]) simp_all
  next
    case (ValueNode w)
    then have "key = []" using Suc.prems(1) by (auto simp: fits_def split: if_splits)
    then show ?thesis using ValueNode by (intro gotI [of _ w n False]) auto
  qed
qed

end
