(* ===== verification/TrieUpdate.thy ===== *)
theory TrieUpdate
  imports TrieShape
begin

text \<open>
  Insertion into and deletion from a Merkle Patricia trie keep the shape of \<open>TrieShape\<close> and change the content at one
  key; then the trie as a whole refines the map of keys and values that the world state works on.
\<close>

section \<open>Insertion\<close>

text \<open>A node under the rest of a key, as an insertion into nil builds it.\<close>

definition hang :: "MerkleTrie \<Rightarrow> byte list \<Rightarrow> Node \<Rightarrow> Node" where
  "hang t k n = (if k = [] then n else ShortNode k n (newFlag t))"

lemma mpt_insert_nil: "mpt_insert (Suc fuel) e t NilNode prefix k v = Some (Inr (True, hang t k v))"
  by (simp add: hang_def)

lemma holds_hang: "holds rs (hang t k n) r v \<longleftrightarrow> (\<exists>r'. r = k @ r' \<and> holds rs n r' v)"
  by (simp add: hang_def holds_ShortNode)

lemma hang_NilNode: "n \<noteq> NilNode \<Longrightarrow> hang t k n \<noteq> NilNode"
  by (simp add: hang_def)

text \<open>Both nodes that part at a branch find their place there.\<close>

lemma hang_rest:
  assumes "good rs (ShortNode (p @ y # b) c f)"
  shows "if y = 16 then \<exists>v. hang t b c = ValueNode (Some v) else y < 16 \<and> good rs (hang t b c)"
proof -
  consider (leaf) v where "hexkey (p @ y # b)" "c = ValueNode (Some v)"
    | (ext) "nibbles (p @ y # b)" "branching rs c" "good rs c"
    using assms by (auto simp: good_ShortNode)
  then show ?thesis
  proof cases
    case leaf
    then have "hexkey (y # b)" using hexkey_suffix by blast
    then show ?thesis using leaf by (auto simp: hexkey_Cons hang_def intro: good_leaf split: if_splits)
  next
    case ext
    then show ?thesis by (auto simp: hang_def intro: good_ext)
  qed
qed

text \<open>The content of a node after one of its children changed at one key.\<close>

lemma holds_short_upd:
  assumes "\<forall>k v. holds rs c' k v \<longleftrightarrow> (if k = r then P v else holds rs c k v)"
  shows "holds rs (ShortNode p c' f') k v \<longleftrightarrow> (if k = p @ r then P v else holds rs (ShortNode p c f) k v)"
  unfolding holds_ShortNode using assms by auto

lemma holds_full_upd:
  assumes "\<forall>k v. holds rs c' k v \<longleftrightarrow> (if k = r then P v else holds rs (cs ! unat x) k v)" "unat x < length cs"
  shows "holds rs (FullNode (cs[unat x := c']) f') k v \<longleftrightarrow> (if k = x # r then P v else holds rs (FullNode cs f) k v)"
proof (cases k)
  case (Cons y s)
  show ?thesis
  proof (cases "y = x")
    case True
    then show ?thesis using assms Cons by (simp add: holds_FullNode)
  next
    case False
    then have "unat x \<noteq> unat y" by (metis unsigned_word_eqI)
    then show ?thesis using False Cons by (simp add: holds_FullNode)
  qed
qed (simp add: holds_FullNode)

lemma good_short_upd:
  assumes "good rs (ShortNode p c f)" "hexkey (p @ r)" "fits rs c' r" "c' \<noteq> NilNode" "branching rs c \<longrightarrow> branching rs c'"
  shows "good rs (ShortNode p c' f')"
  using assms hexkey_not_nibbles [of p "[]"]
  by (auto simp: good_ShortNode fits_def hexkey_append hexkey_prefix split: if_splits)

lemma full_slots:
  assumes "good rs (FullNode cs f)" "hexkey (x # r)" "fits rs c' r"
  shows "\<forall>i < 16. cs[unat x := c'] ! i = NilNode \<or> good rs (cs[unat x := c'] ! i)"
    "cs[unat x := c'] ! 16 = NilNode \<or> (\<exists>v. cs[unat x := c'] ! 16 = ValueNode (Some v))"
proof -
  note full = fits_full [OF assms(1,2)]
  have u: "unat x = 16 \<longleftrightarrow> r = []" "r \<noteq> [] \<Longrightarrow> unat x < 16"
    using assms(2) by (auto simp: hexkey_Cons word_less_nat_alt split: if_splits)
  have "cs[unat x := c'] ! i = NilNode \<or> good rs (cs[unat x := c'] ! i)" if "i < 16" for i
    using that assms(1,3) u full(3) by (cases "i = unat x") (auto simp: good_FullNode fits_def split: if_splits)
  then show "\<forall>i < 16. cs[unat x := c'] ! i = NilNode \<or> good rs (cs[unat x := c'] ! i)" by blast
  show "cs[unat x := c'] ! 16 = NilNode \<or> (\<exists>v. cs[unat x := c'] ! 16 = ValueNode (Some v))"
    using assms(1,3) u full(3) by (cases "unat x = 16") (auto simp: good_FullNode fits_def split: if_splits)
qed

lemma good_full_set:
  assumes "good rs (FullNode cs f)" "hexkey (x # r)" "fits rs c' r" "2 \<le> card (filled (cs[unat x := c']))"
  shows "good rs (FullNode (cs[unat x := c']) f')"
  using full_slots [OF assms(1-3)] fits_full(3) [OF assms(1,2)] assms(4) by (intro good_full) simp_all

lemma filled_grows:
  assumes "c' \<noteq> NilNode" "i < length cs"
  shows "card (filled cs) \<le> card (filled (cs[i := c']))"
  using assms by (intro card_mono) (auto simp: filled_update)

text \<open>The branch at which an old and a new key part.\<close>

definition branch_of :: "byte \<Rightarrow> Node \<Rightarrow> byte \<Rightarrow> Node \<Rightarrow> Node list" where
  "branch_of y n1 x n2 = empty_branch[unat y := n1, unat x := n2]"

lemma branch_of_nth:
  assumes "x \<noteq> y" "unat x < 17" "unat y < 17" "i < 17"
  shows "branch_of y n1 x n2 ! i = (if i = unat x then n2 else if i = unat y then n1 else NilNode)"
  using assms by (simp add: branch_of_def empty_branch_def nth_list_update)

lemma holds_branch:
  assumes "x \<noteq> y" "unat x < 17" "unat y < 17"
  shows "holds rs (FullNode (branch_of y n1 x n2) f) k v \<longleftrightarrow>
    (\<exists>s. k = x # s \<and> holds rs n2 s v) \<or> (\<exists>s. k = y # s \<and> holds rs n1 s v)"
proof (cases k)
  case (Cons z s)
  have u: "z = x" if "unat z = unat x" for x using that by (metis unsigned_word_eqI)
  have l: "length (branch_of y n1 x n2) = 17" by (simp add: branch_of_def empty_branch_def)
  show ?thesis
  proof (cases "unat z < 17")
    case True
    then show ?thesis using branch_of_nth [OF assms True, of n1 n2] l u assms(1) Cons by (auto simp: holds_FullNode)
  next
    case False
    then show ?thesis using assms l Cons by (auto simp: holds_FullNode)
  qed
qed (simp add: holds_FullNode)

lemma good_branch:
  assumes "x \<noteq> y" "n1 \<noteq> NilNode" "n2 \<noteq> NilNode"
    and "if x = 16 then \<exists>v. n2 = ValueNode (Some v) else x < 16 \<and> good rs n2"
    and "if y = 16 then \<exists>v. n1 = ValueNode (Some v) else y < 16 \<and> good rs n1"
  shows "good rs (FullNode (branch_of y n1 x n2) f)" "unat x < 17" "unat y < 17"
proof -
  have w: "unat z < 17" "unat z = 16 \<longleftrightarrow> z = 16" if "z = 16 \<or> z < 16" for z :: byte
    using that by (auto simp: word_less_nat_alt)
  have x: "unat x < 17" "unat x = 16 \<longleftrightarrow> x = 16" using w [of x] assms(4) by (auto split: if_splits)
  have y: "unat y < 17" "unat y = 16 \<longleftrightarrow> y = 16" using w [of y] assms(5) by (auto split: if_splits)
  have d: "unat x \<noteq> unat y" using assms(1) by (metis unsigned_word_eqI)
  note nth = branch_of_nth [OF assms(1) x(1) y(1), of _ n1 n2]
  have l: "length (branch_of y n1 x n2) = 17" by (simp add: branch_of_def empty_branch_def)
  have "{unat x, unat y} \<subseteq> filled (branch_of y n1 x n2)" using x y nth l assms(2,3) by (auto simp: filled_def)
  from card_mono [OF filled_finite this] have "2 \<le> card (filled (branch_of y n1 x n2))" using d by simp
  moreover have "branch_of y n1 x n2 ! i = NilNode \<or> good rs (branch_of y n1 x n2 ! i)" if "i < 16" for i
    using nth [of i] that x(2) y(2) assms(4,5) by (auto split: if_splits)
  moreover have "branch_of y n1 x n2 ! 16 = NilNode \<or> (\<exists>v. branch_of y n1 x n2 ! 16 = ValueNode (Some v))"
    using nth [of 16] x(2) y(2) assms(4,5) by (auto split: if_splits)
  ultimately show "good rs (FullNode (branch_of y n1 x n2) f)" using l by (simp add: good_FullNode)
  show "unat x < 17" "unat y < 17" using x y by simp_all
qed

text \<open>What an insertion promises.\<close>

definition put_at :: "resolver \<Rightarrow> Node \<Rightarrow> byte list \<Rightarrow> byte list \<Rightarrow> (bool \<times> Node) run \<Rightarrow> bool" where
  "put_at rs n key w r \<longleftrightarrow>
     (\<exists>d n'. r = Some (Inr (d, n')) \<and> n' \<noteq> NilNode \<and> fits rs n' key
        \<and> (\<forall>k v. holds rs n' k v \<longleftrightarrow> (if k = key then v = w else holds rs n k v))
        \<and> (\<not> d \<longrightarrow> (\<forall>k v. holds rs n k v \<longleftrightarrow> (if k = key then v = w else holds rs n k v)) \<and> n \<noteq> NilNode)
        \<and> (branching rs n \<longrightarrow> branching rs n'))"

lemma put_atI:
  assumes "r = Some (Inr (d, n'))" "n' \<noteq> NilNode" "fits rs n' key"
    "\<forall>k v. holds rs n' k v \<longleftrightarrow> (if k = key then v = w else holds rs n k v)"
    "\<not> d \<Longrightarrow> (\<forall>k v. holds rs n k v \<longleftrightarrow> (if k = key then v = w else holds rs n k v)) \<and> n \<noteq> NilNode"
    "branching rs n \<Longrightarrow> branching rs n'"
  shows "put_at rs n key w r"
  using assms unfolding put_at_def by blast

lemma put_atE:
  assumes "put_at rs n key w r"
  obtains d n' where "r = Some (Inr (d, n'))" "n' \<noteq> NilNode" "fits rs n' key"
    "\<forall>k v. holds rs n' k v \<longleftrightarrow> (if k = key then v = w else holds rs n k v)"
    "\<not> d \<longrightarrow> (\<forall>k v. holds rs n k v \<longleftrightarrow> (if k = key then v = w else holds rs n k v)) \<and> n \<noteq> NilNode"
    "branching rs n \<longrightarrow> branching rs n'"
  using assms unfolding put_at_def by blast

lemma insert_short:
  assumes "good rs (ShortNode p c f)" "hexkey (p @ r)" "put_at rs c r w (mpt_insert fuel e t c (prefix @ p) r (ValueNode (Some w)))"
  shows "put_at rs (ShortNode p c f) (p @ r) w (mpt_insert (Suc fuel) e t (ShortNode p c f) prefix (p @ r) (ValueNode (Some w)))"
proof -
  note sub = fits_short [OF assms(1,2)]
  obtain d n' where i: "mpt_insert fuel e t c (prefix @ p) r (ValueNode (Some w)) = Some (Inr (d, n'))" "n' \<noteq> NilNode" "fits rs n' r"
      "\<forall>k v. holds rs n' k v \<longleftrightarrow> (if k = r then v = w else holds rs c k v)"
      "\<not> d \<longrightarrow> (\<forall>k v. holds rs c k v \<longleftrightarrow> (if k = r then v = w else holds rs c k v)) \<and> c \<noteq> NilNode"
      "branching rs c \<longrightarrow> branching rs n'"
    using assms(3) by (rule put_atE)
  let ?n = "ShortNode p c f" and ?n' = "if d then ShortNode p n' (newFlag t) else ShortNode p c f"
  have "prefixLen (p @ r) p = length p" using prefixLen_full by blast
  then have r: "mpt_insert (Suc fuel) e t ?n prefix (p @ r) (ValueNode (Some w)) = Some (Inr (d, ?n'))"
    using i(1) sub(2) by simp
  have same: "\<forall>k v. holds rs ?n k v \<longleftrightarrow> (if k = p @ r then v = w else holds rs ?n k v)" if "\<not> d"
    using holds_short_upd [of rs c r "\<lambda>v. v = w" c p f _ _ f] i(5) that by blast
  have "good rs ?n'" using good_short_upd [OF assms(1,2) i(3,2,6)] assms(1) by simp
  then have "fits rs ?n' (p @ r)" using assms(2) sub(2) by (simp add: fits_def)
  moreover have "\<forall>k v. holds rs ?n' k v \<longleftrightarrow> (if k = p @ r then v = w else holds rs ?n k v)"
  proof (cases d)
    case True
    then show ?thesis using holds_short_upd [OF i(4), of p "newFlag t" _ _ f] by (simp only: if_True) blast
  next
    case False
    show ?thesis unfolding if_not_P [OF False] by (rule same [OF False])
  qed
  ultimately show ?thesis using r same by (intro put_atI [of _ d ?n']) (simp_all add: branching_def)
qed

lemma insert_full:
  assumes "good rs (FullNode cs f)" "hexkey (x # r)"
    "put_at rs (cs ! unat x) r w (mpt_insert fuel e t (cs ! unat x) (prefix @ [x]) r (ValueNode (Some w)))"
  shows "put_at rs (FullNode cs f) (x # r) w (mpt_insert (Suc fuel) e t (FullNode cs f) prefix (x # r) (ValueNode (Some w)))"
proof -
  note sub = fits_full [OF assms(1,2)]
  let ?c = "cs ! unat x" and ?n = "FullNode cs f"
  obtain d n' where i: "mpt_insert fuel e t ?c (prefix @ [x]) r (ValueNode (Some w)) = Some (Inr (d, n'))" "n' \<noteq> NilNode" "fits rs n' r"
      "\<forall>k v. holds rs n' k v \<longleftrightarrow> (if k = r then v = w else holds rs ?c k v)"
      "\<not> d \<longrightarrow> (\<forall>k v. holds rs ?c k v \<longleftrightarrow> (if k = r then v = w else holds rs ?c k v)) \<and> ?c \<noteq> NilNode"
      "branching rs ?c \<longrightarrow> branching rs n'"
    using assms(3) by (rule put_atE)
  let ?n' = "if d then FullNode (cs[unat x := n']) (newFlag t) else ?n"
  have l: "unat x < length cs" using sub by simp
  have r: "mpt_insert (Suc fuel) e t ?n prefix (x # r) (ValueNode (Some w)) = Some (Inr (d, ?n'))"
    using i(1) l by (simp add: child_at_def)
  have same: "\<forall>k v. holds rs ?n k v \<longleftrightarrow> (if k = x # r then v = w else holds rs ?n k v)" if "\<not> d"
    using holds_full_upd [of rs ?c r "\<lambda>v. v = w" cs x f _ _ f, OF _ l] i(5) that by (simp only: list_update_id) blast
  have "2 \<le> card (filled (cs[unat x := n']))"
    using filled_grows [OF i(2) l] assms(1) by (simp add: good_FullNode)
  then have "good rs ?n'" using good_full_set [OF assms(1,2) i(3)] assms(1) by simp
  then have "fits rs ?n' (x # r)" using assms(2) by (simp add: fits_def)
  moreover have "\<forall>k v. holds rs ?n' k v \<longleftrightarrow> (if k = x # r then v = w else holds rs ?n k v)"
  proof (cases d)
    case True
    then show ?thesis using holds_full_upd [OF i(4) l, of "newFlag t" _ _ f] by (simp only: if_True) blast
  next
    case False
    show ?thesis unfolding if_not_P [OF False] by (rule same [OF False])
  qed
  ultimately show ?thesis using r same by (intro put_atI [of _ d ?n']) (simp_all add: branching_def)
qed

lemma insert_split:
  assumes "good rs (ShortNode k c f)" "hexkey key" "prefixLen key k \<noteq> length k"
  shows "put_at rs (ShortNode k c f) key w (mpt_insert (Suc (Suc fuel)) e t (ShortNode k c f) prefix key (ValueNode (Some w)))"
  using assms(3)
proof (cases rule: prefixLen_cases)
  case (shorter r)
  then show ?thesis using assms hexkey_not_nibbles [of key r] by (auto simp: good_ShortNode hexkey_prefix)
next
  case (differ p x y a b)
  let ?n1 = "hang t b c" and ?n2 = "hang t a (ValueNode (Some w))" and ?n = "ShortNode k c f"
  let ?branch = "FullNode (branch_of y ?n1 x ?n2) (newFlag t)"
  have c: "c \<noteq> NilNode" using assms(1) by (auto simp: good_ShortNode)
  have n1: "if y = 16 then \<exists>v. ?n1 = ValueNode (Some v) else y < 16 \<and> good rs ?n1"
    using hang_rest assms(1) differ(2) by blast
  have n2: "if x = 16 then \<exists>v. ?n2 = ValueNode (Some v) else x < 16 \<and> good rs ?n2"
    by (rule hang_rest [of rs p x a "ValueNode (Some w)" no_flag]) (use assms(2) differ(1) in \<open>simp add: good_leaf\<close>)
  note g = good_branch [OF differ(3) hang_NilNode [OF c] hang_NilNode n2 n1]
  have u: "unat x < 17" "unat y < 17" and gb: "good rs ?branch" using g by simp_all
  have "set_child empty_branch y ?n1 = Some (empty_branch[unat y := ?n1])"
    "set_child (empty_branch[unat y := ?n1]) x ?n2 = Some (branch_of y ?n1 x ?n2)"
    using u by (simp_all add: set_child_def empty_branch_def branch_of_def)
  then have r: "mpt_insert (Suc (Suc fuel)) e t ?n prefix key (ValueNode (Some w)) = Some (Inr (True, hang t p ?branch))"
    using differ(1,2,4) assms(3) by (subst mpt_insert.simps(2)) (simp add: mpt_insert_nil nth_append hang_def Let_def del: mpt_insert.simps)
  have "nibbles p" using hexkey_suffix assms(2) differ(1) by blast
  then have "good rs (hang t p ?branch)" using gb by (auto simp: hang_def branching_def intro: good_ext)
  then have f: "fits rs (hang t p ?branch) key" using assms(2) by (auto simp: fits_def)
  have h: "holds rs (hang t p ?branch) s v \<longleftrightarrow> (if s = key then v = w else holds rs ?n s v)" for s v
    unfolding holds_hang holds_branch [OF differ(3) u] using differ(1-3) by (auto simp: holds_hang holds_ShortNode)
  have "hang t p ?branch \<noteq> NilNode" by (rule hang_NilNode) simp
  then show ?thesis using r f h by (intro put_atI [of _ True "hang t p ?branch"]) (simp_all add: branching_def)
qed

lemma mpt_insert_put:
  assumes "fits (loads e t) n key" "node_fuel n key \<le> fuel"
  shows "put_at (loads e t) n key w (mpt_insert fuel e t n prefix key (ValueNode (Some w)))"
  using assms
proof (induction fuel arbitrary: n key prefix)
  case 0
  then show ?case using fuel_zero by blast
next
  case (Suc fuel)
  let ?rs = "loads e t"
  show ?case
  proof (cases n)
    case NilNode
    have "fits ?rs (hang t key (ValueNode (Some w))) key" using Suc.prems(1) by (auto simp: fits_def hang_def intro: good_leaf)
    then show ?thesis using mpt_insert_nil [of fuel e t prefix key "ValueNode (Some w)"] hang_NilNode [of "ValueNode (Some w)" t key]
      by (intro put_atI [of _ True "hang t key (ValueNode (Some w))"]) (auto simp: NilNode holds_hang branching_def)
  next
    case (ValueNode u)
    then obtain v where v: "key = []" "u = Some v" using Suc.prems(1) by (auto simp: fits_def split: if_splits)
    have "mpt_insert (Suc fuel) e t n prefix key (ValueNode (Some w)) = Some (Inr (v \<noteq> w, ValueNode (Some w)))"
      by (simp add: ValueNode v slice_bytes_def)
    then show ?thesis by (rule put_atI) (auto simp: ValueNode v fits_def branching_def)
  next
    case (ShortNode k c f)
    then have g: "good ?rs (ShortNode k c f)" "hexkey key" using fits_good [OF Suc.prems(1)] by auto
    show ?thesis
    proof (cases "prefixLen key k = length k")
      case True
      then obtain r where r: "key = k @ r" by (auto simp: prefixLen_full)
      note sub = fits_short [OF g(1) g(2) [unfolded r]]
      from insert_short [OF g(1) g(2) [unfolded r] Suc.IH [OF sub(1) fuel_short [OF Suc.prems(2) [unfolded ShortNode r] sub(2)]]]
      show ?thesis unfolding ShortNode r .
    next
      case False
      obtain fuel' where fuel': "fuel = Suc fuel'" using Suc.prems(2) g(2) by (cases key; cases fuel) (auto simp: ShortNode node_fuel_def)
      from insert_split [OF g False] show ?thesis unfolding fuel' ShortNode .
    qed
  next
    case (FullNode cs f)
    then have g: "good ?rs (FullNode cs f)" "hexkey key" using fits_good [OF Suc.prems(1)] by auto
    then obtain x r where r: "key = x # r" by (cases key) auto
    from insert_full [OF g(1) g(2) [unfolded r]
        Suc.IH [OF fits_full(1) [OF g(1) g(2) [unfolded r]] fuel_full [OF Suc.prems(2) [unfolded FullNode r]]]]
    show ?thesis unfolding FullNode r .
  next
    case (HashNode h)
    obtain m where m: "?rs h = Some m" "fits ?rs m key" "\<forall>h'. m \<noteq> HashNode h'" "good ?rs m" "hexkey key"
      using Suc.prems(1) [unfolded HashNode] by (rule fits_hash)
    from Suc.IH [OF m(2) fuel_hash [OF Suc.prems(2) [unfolded HashNode] m(3)], of prefix]
    obtain d n' where i: "mpt_insert fuel e t m prefix key (ValueNode (Some w)) = Some (Inr (d, n'))" "n' \<noteq> NilNode" "fits ?rs n' key"
        "\<forall>k v. holds ?rs n' k v \<longleftrightarrow> (if k = key then v = w else holds ?rs m k v)"
        "\<not> d \<longrightarrow> (\<forall>k v. holds ?rs m k v \<longleftrightarrow> (if k = key then v = w else holds ?rs m k v)) \<and> m \<noteq> NilNode"
        "branching ?rs m \<longrightarrow> branching ?rs n'"
      by (rule put_atE)
    let ?n' = "if d then n' else m"
    have "key \<noteq> []" using m(5) by auto
    then have r: "mpt_insert (Suc fuel) e t n prefix key (ValueNode (Some w)) = Some (Inr (d, ?n'))"
      using i(1) loads_resolveHash [OF m(1)] by (simp add: HashNode)
    have eq: "holds ?rs n = holds ?rs m" by (intro ext) (simp add: HashNode holds_HashNode m(1))
    have br: "branching ?rs n \<Longrightarrow> branching ?rs m" using m(1,3) by (auto simp: HashNode branching_def)
    show ?thesis
    proof (cases d)
      case True
      show ?thesis by (rule put_atI [OF r]) (use True i(2,3,4,6) br in \<open>simp_all add: eq\<close>)
    next
      case False
      then have "m \<noteq> NilNode" "\<forall>k v. holds ?rs m k v \<longleftrightarrow> (if k = key then v = w else holds ?rs m k v)" using i(5) by blast+
      then show ?thesis by (intro put_atI [OF r]) (simp_all only: False if_False eq m(2), simp_all add: HashNode br)
    qed
  qed
qed

section \<open>Deletion\<close>

definition cut_at :: "resolver \<Rightarrow> Node \<Rightarrow> byte list \<Rightarrow> (bool \<times> Node) run \<Rightarrow> bool" where
  "cut_at rs n key r \<longleftrightarrow>
     (\<exists>d n'. r = Some (Inr (d, n')) \<and> fits rs n' key
        \<and> (\<forall>k v. holds rs n' k v \<longleftrightarrow> (if k = key then False else holds rs n k v))
        \<and> (\<not> d \<longrightarrow> (\<forall>k v. holds rs n k v \<longleftrightarrow> (if k = key then False else holds rs n k v)))
        \<and> (d \<longrightarrow> (\<forall>h. n' \<noteq> HashNode h)) \<and> (branching rs n \<longrightarrow> n' \<noteq> NilNode \<and> (\<not> d \<longrightarrow> branching rs n')))"

lemma cut_atI:
  assumes "r = Some (Inr (d, n'))" "fits rs n' key"
    "\<forall>k v. holds rs n' k v \<longleftrightarrow> (if k = key then False else holds rs n k v)"
    "\<not> d \<Longrightarrow> \<forall>k v. holds rs n k v \<longleftrightarrow> (if k = key then False else holds rs n k v)"
    "d \<Longrightarrow> \<forall>h. n' \<noteq> HashNode h" "branching rs n \<Longrightarrow> n' \<noteq> NilNode \<and> (\<not> d \<longrightarrow> branching rs n')"
  shows "cut_at rs n key r"
  using assms unfolding cut_at_def by blast

lemma cut_atE:
  assumes "cut_at rs n key r"
  obtains d n' where "r = Some (Inr (d, n'))" "fits rs n' key"
    "\<forall>k v. holds rs n' k v \<longleftrightarrow> (if k = key then False else holds rs n k v)"
    "\<not> d \<longrightarrow> (\<forall>k v. holds rs n k v \<longleftrightarrow> (if k = key then False else holds rs n k v))"
    "d \<longrightarrow> (\<forall>h. n' \<noteq> HashNode h)" "branching rs n \<longrightarrow> n' \<noteq> NilNode \<and> (\<not> d \<longrightarrow> branching rs n')"
  using assms unfolding cut_at_def by blast

text \<open>Merging two short nodes.\<close>

lemma good_prefix:
  assumes "nibbles p" "good rs (ShortNode ck cv cf)"
  shows "good rs (ShortNode (p @ ck) cv f)"
  using assms by (auto simp: good_ShortNode hexkey_append)

lemma holds_prefix: "holds rs (ShortNode (p @ ck) cv f) k v \<longleftrightarrow> holds rs (ShortNode p (ShortNode ck cv cf) f') k v"
  by (auto simp: holds_ShortNode)

lemma good_cases:
  assumes "good rs n" "\<forall>h. n \<noteq> HashNode h"
  obtains k c f where "n = ShortNode k c f" | cs f where "n = FullNode cs f"
  using assms by (cases n) auto

lemma delete_short:
  assumes "good rs (ShortNode p c f)" "hexkey (p @ r)" "r \<noteq> []" "cut_at rs c r (mpt_delete fuel e t c (prefix @ p) r)"
  shows "cut_at rs (ShortNode p c f) (p @ r) (mpt_delete (Suc fuel) e t (ShortNode p c f) prefix (p @ r))"
proof -
  obtain d n' where i: "mpt_delete fuel e t c (prefix @ p) r = Some (Inr (d, n'))" "fits rs n' r"
      "\<forall>k v. holds rs n' k v \<longleftrightarrow> (if k = r then False else holds rs c k v)"
      "\<not> d \<longrightarrow> (\<forall>k v. holds rs c k v \<longleftrightarrow> (if k = r then False else holds rs c k v))"
      "d \<longrightarrow> (\<forall>h. n' \<noteq> HashNode h)" "branching rs c \<longrightarrow> n' \<noteq> NilNode \<and> (\<not> d \<longrightarrow> branching rs n')"
    using assms(4) by (rule cut_atE)
  let ?n = "ShortNode p c f"
  let ?n' = "if d then (case n' of ShortNode ck cv cf \<Rightarrow> ShortNode (p @ ck) cv (newFlag t) | _ \<Rightarrow> ShortNode p n' (newFlag t)) else ?n"
  have p: "p \<noteq> []" "nibbles p" "hexkey r" using fits_short(2) [OF assms(1,2)] hexkey_suffix [OF assms(2,3)] by simp_all
  have br: "branching rs c" using assms(1,2,3) by (auto simp: good_ShortNode hexkey_prefix)
  then have n': "good rs n'" using i(2,6) assms(3) by (auto simp: fits_def)
  have "prefixLen (p @ r) p = length p" using prefixLen_full by blast
  then have run: "mpt_delete (Suc fuel) e t ?n prefix (p @ r) = Some (Inr (d, ?n'))"
    using i(1) assms(3) by (cases d) (simp_all split: Node.split)
  have same: "\<forall>k v. holds rs ?n k v \<longleftrightarrow> (if k = p @ r then False else holds rs ?n k v)" if "\<not> d"
    using holds_short_upd [of rs c r "\<lambda>v. False" c p f _ _ f] i(4) that by blast
  have step: "good rs ?n' \<and> (\<forall>k v. holds rs ?n' k v \<longleftrightarrow> holds rs (ShortNode p n' f) k v) \<and> (\<forall>h. ?n' \<noteq> HashNode h)" if d
    using n' i(5) [THEN mp, OF that]
  proof (cases rule: good_cases)
    case (1 ck cv cf)
    then show ?thesis using that n' good_prefix [OF p(2)] holds_prefix by simp
  next
    case (2 cs g)
    then show ?thesis using that n' p by (auto simp: holds_ShortNode branching_def intro!: good_ext)
  qed
  have "good rs ?n'" using step assms(1) by (cases d) simp_all
  then have "fits rs ?n' (p @ r)" using assms(2,3) by (simp add: fits_def)
  moreover have "\<forall>k v. holds rs ?n' k v \<longleftrightarrow> (if k = p @ r then False else holds rs ?n k v)"
  proof (cases d)
    case True
    show ?thesis using step [OF True] holds_short_upd [OF i(3), of p f _ _ f] by blast
  next
    case False
    show ?thesis unfolding if_not_P [OF False] by (rule same [OF False])
  qed
  ultimately show ?thesis using run same step by (intro cut_atI [of _ d ?n']) (simp_all add: branching_def)
qed

lemma filled_filter: "filled cs = set (filter (\<lambda>i. cs ! i \<noteq> NilNode) [0..<length cs])"
  by (auto simp: filled_def)

lemma single_child_Some: "single_child cs = Some i \<Longrightarrow> filled cs = {i}"
  unfolding filled_filter by (simp add: single_child_def split: list.splits del: set_filter)

lemma single_child_None: "single_child cs = None \<Longrightarrow> card (filled cs) \<noteq> 1"
  unfolding filled_filter by (subst distinct_card) (auto simp: single_child_def split: list.splits)

lemma holds_only_child:
  assumes "filled cs = {i}" "i < 256"
  shows "holds rs (FullNode cs f) k v \<longleftrightarrow> (\<exists>k'. k = of_nat i # k' \<and> holds rs (cs ! i) k' v)"
proof -
  have u: "unat (of_nat i :: byte) = i" using assms(2) by (simp add: unsigned_of_nat take_bit_nat_eq_self)
  have "x = of_nat i" if "unat x < length cs" "holds rs (cs ! unat x) k' v" for x :: byte and k' v
  proof -
    have "unat x \<in> filled cs" using that by (auto simp: filled_def)
    then have "unat x = unat (of_nat i :: byte)" using assms(1) u by simp
    then show ?thesis by (rule unsigned_word_eqI)
  qed
  moreover have "i < length cs" using assms(1) by (auto simp: filled_def)
  ultimately show ?thesis using u by (auto simp: holds_FullNode)
qed

text \<open>The only child that is left takes the place of the full node.\<close>

definition reduced :: "MerkleTrie \<Rightarrow> nat \<Rightarrow> Node \<Rightarrow> Node \<Rightarrow> Node" where
  "reduced t pos c m =
     (if pos = 16 then ShortNode [of_nat pos] c (newFlag t)
      else case m of ShortNode ck cv cf \<Rightarrow> ShortNode (of_nat pos # ck) cv (newFlag t) | _ \<Rightarrow> ShortNode [of_nat pos] c (newFlag t))"

lemma good_resolveNode:
  assumes "good (loads e t) c"
  obtains m where "resolveNode e t c prefix = Inr m" "good (loads e t) m" "\<forall>h. m \<noteq> HashNode h"
    "holds (loads e t) m = holds (loads e t) c" "\<And>cs f. m = FullNode cs f \<Longrightarrow> branching (loads e t) c"
proof (cases "\<exists>h. c = HashNode h")
  case True
  then obtain h m where h: "c = HashNode h" "loads e t h = Some m" "\<forall>h'. m \<noteq> HashNode h'" "good (loads e t) m"
    using assms by (auto simp: good_HashNode)
  have "holds (loads e t) m = holds (loads e t) c" using h(1,2) by (intro ext) (simp add: holds_HashNode)
  then show ?thesis using that [of m] h loads_resolveHash [OF h(2)] by (simp add: resolveNode_def branching_def)
next
  case False
  then have "resolveNode e t c prefix = Inr c" by (auto simp: resolveNode_def split: Node.split)
  then show ?thesis using that [of c] assms False by (auto simp: branching_def)
qed

lemma reduced_ok:
  assumes "pos < 17" "pos \<noteq> 16 \<Longrightarrow> good rs c \<and> good rs m \<and> (\<forall>h. m \<noteq> HashNode h) \<and> holds rs m = holds rs c
      \<and> (\<forall>cs f. m = FullNode cs f \<longrightarrow> branching rs c)"
    and "pos = 16 \<Longrightarrow> \<exists>v. c = ValueNode (Some v)"
  shows "good rs (reduced t pos c m)" "holds rs (reduced t pos c m) k v \<longleftrightarrow> (\<exists>k'. k = of_nat pos # k' \<and> holds rs c k' v)"
    "reduced t pos c m \<noteq> NilNode" "reduced t pos c m \<noteq> HashNode h"
proof -
  have small: "of_nat pos < (16 :: byte)" if "pos \<noteq> 16" using that assms(1)
    by (simp add: word_less_nat_alt unsigned_of_nat take_bit_nat_eq_self)
  have "good rs (reduced t pos c m) \<and> (holds rs (reduced t pos c m) k v \<longleftrightarrow> (\<exists>k'. k = of_nat pos # k' \<and> holds rs c k' v))"
  proof (cases "pos = 16")
    case True
    then show ?thesis using assms(3) by (auto simp: reduced_def holds_ShortNode hexkey_Cons intro!: good_leaf)
  next
    case False
    note a = assms(2) [OF False]
    then have "good rs m" "\<forall>h. m \<noteq> HashNode h" by simp_all
    then show ?thesis
    proof (cases rule: good_cases)
      case (1 ck cv cf)
      have "holds rs c k' v \<longleftrightarrow> holds rs (ShortNode ck cv cf) k' v" for k' using a 1 by simp
      then show ?thesis using a 1 False small good_prefix [of "[of_nat pos]" rs ck cv cf] by (auto simp: reduced_def holds_ShortNode)
    next
      case (2 cs f)
      then show ?thesis using a False small by (auto simp: reduced_def holds_ShortNode intro!: good_ext)
    qed
  qed
  then show "good rs (reduced t pos c m)" "holds rs (reduced t pos c m) k v \<longleftrightarrow> (\<exists>k'. k = of_nat pos # k' \<and> holds rs c k' v)"
    by simp_all
  show "reduced t pos c m \<noteq> NilNode" "reduced t pos c m \<noteq> HashNode h" by (simp_all add: reduced_def split: Node.split)
qed

lemma delete_full_clean:
  assumes "mpt_delete fuel e t (cs ! unat x) (prefix @ [x]) r = Some (Inr (False, nn))" "unat x < length cs"
  shows "mpt_delete (Suc fuel) e t (FullNode cs f) prefix (x # r) = Some (Inr (False, FullNode cs f))"
  using assms by (simp add: child_at_def)

text \<open>The end of a deletion below a full node: the children that are left.\<close>

lemma delete_full_dirty:
  fixes cs x nn defines "cs1 \<equiv> cs[unat x := nn]"
  assumes d: "mpt_delete fuel e t (cs ! unat x) (prefix @ [x]) r = Some (Inr (True, nn))"
    and g: "good (loads e t) (FullNode cs f)" "hexkey (x # r)" "fits (loads e t) nn r"
  shows "\<exists>n'. mpt_delete (Suc fuel) e t (FullNode cs f) prefix (x # r) = Some (Inr (True, n')) \<and> good (loads e t) n'
    \<and> (\<forall>k v. holds (loads e t) n' k v \<longleftrightarrow> holds (loads e t) (FullNode cs1 f) k v) \<and> (\<forall>h. n' \<noteq> HashNode h)"
proof -
  let ?rs = "loads e t"
  note sub = fits_full [OF g(1,2)]
  have l: "unat x < length cs" "length cs1 = 17" using sub by (simp_all add: cs1_def)
  note slots = full_slots [OF g, folded cs1_def]
  show ?thesis
  proof (cases "single_child cs1")
    case None
    then have run: "mpt_delete (Suc fuel) e t (FullNode cs f) prefix (x # r) = Some (Inr (True, FullNode cs1 (newFlag t)))"
      using d l by (simp add: child_at_def cs1_def Let_def)
    have "filled cs - {unat x} \<subseteq> filled cs1" by (auto simp: filled_update cs1_def)
    from card_mono [OF filled_finite this] have "1 \<le> card (filled cs1)"
      using g(1) card_Diff1_le [of "filled cs" "unat x"] by (auto simp: good_FullNode card_Diff_singleton_if split: if_splits)
    then have "2 \<le> card (filled cs1)" using single_child_None [OF None] by simp
    then have "good ?rs (FullNode cs1 (newFlag t))" using slots l(2) by (intro good_full)
    then show ?thesis using run by (auto simp: holds_FullNode)
  next
    case (Some pos)
    note only = single_child_Some [OF Some]
    have pos: "pos < 17" "cs1 ! pos \<noteq> NilNode" using only l(2) by (auto simp: filled_def)
    obtain m where m: "pos \<noteq> 16 \<Longrightarrow> resolveNode e t (cs1 ! pos) prefix = Inr m \<and> good ?rs m \<and> (\<forall>h. m \<noteq> HashNode h)
        \<and> holds ?rs m = holds ?rs (cs1 ! pos) \<and> (\<forall>cs f. m = FullNode cs f \<longrightarrow> branching ?rs (cs1 ! pos))"
    proof (cases "pos = 16")
      case False
      then have "good ?rs (cs1 ! pos)" using slots(1) [rule_format, of pos] pos by simp
      then show ?thesis by (rule good_resolveNode [where prefix = prefix]) (use that in blast)
    qed (use that in blast)
    let ?n' = "reduced t pos (cs1 ! pos) m"
    have run: "mpt_delete (Suc fuel) e t (FullNode cs f) prefix (x # r) = Some (Inr (True, ?n'))"
      using d l Some m by (cases "pos = 16"; cases m) (simp_all add: child_at_def cs1_def Let_def reduced_def)
    have "pos \<noteq> 16 \<Longrightarrow> good ?rs (cs1 ! pos) \<and> good ?rs m \<and> (\<forall>h. m \<noteq> HashNode h)
        \<and> holds ?rs m = holds ?rs (cs1 ! pos) \<and> (\<forall>cs f. m = FullNode cs f \<longrightarrow> branching ?rs (cs1 ! pos))"
      using m slots(1) [rule_format, of pos] pos by simp
    moreover have "pos = 16 \<Longrightarrow> \<exists>v. cs1 ! pos = ValueNode (Some v)" using slots(2) pos(2) by auto
    ultimately have "good ?rs ?n'" "\<forall>k v. holds ?rs ?n' k v \<longleftrightarrow> (\<exists>k'. k = of_nat pos # k' \<and> holds ?rs (cs1 ! pos) k' v)"
        "\<forall>h. ?n' \<noteq> HashNode h"
      using reduced_ok [OF pos(1), of ?rs "cs1 ! pos" m] by blast+
    then show ?thesis using run holds_only_child [OF only, of ?rs f] pos(1) by (intro exI [of _ ?n']) simp
  qed
qed

lemma delete_full:
  assumes "good (loads e t) (FullNode cs f)" "hexkey (x # r)"
    and "cut_at (loads e t) (cs ! unat x) r (mpt_delete fuel e t (cs ! unat x) (prefix @ [x]) r)"
  shows "cut_at (loads e t) (FullNode cs f) (x # r) (mpt_delete (Suc fuel) e t (FullNode cs f) prefix (x # r))"
proof -
  let ?rs = "loads e t" and ?c = "cs ! unat x" and ?n = "FullNode cs f"
  obtain d n' where i: "mpt_delete fuel e t ?c (prefix @ [x]) r = Some (Inr (d, n'))" "fits ?rs n' r"
      "\<forall>k v. holds ?rs n' k v \<longleftrightarrow> (if k = r then False else holds ?rs ?c k v)"
      "\<not> d \<longrightarrow> (\<forall>k v. holds ?rs ?c k v \<longleftrightarrow> (if k = r then False else holds ?rs ?c k v))"
    using assms(3) by (rule cut_atE)
  have l: "unat x < length cs" using fits_full [OF assms(1,2)] by simp
  show ?thesis
  proof (cases d)
    case True
    have "mpt_delete fuel e t ?c (prefix @ [x]) r = Some (Inr (True, n'))" using i(1) True by simp
    from delete_full_dirty [OF this assms(1,2) i(2)]
    obtain m where m: "mpt_delete (Suc fuel) e t ?n prefix (x # r) = Some (Inr (True, m))" "good ?rs m"
        "\<forall>k v. holds ?rs m k v \<longleftrightarrow> holds ?rs (FullNode (cs[unat x := n']) f) k v" "\<forall>h. m \<noteq> HashNode h"
      by blast
    have "\<forall>k v. holds ?rs m k v \<longleftrightarrow> (if k = x # r then False else holds ?rs ?n k v)"
      using m(3) holds_full_upd [OF i(3) l, of f _ _ f] by blast
    moreover have "m \<noteq> NilNode" using m(2) by auto
    ultimately show ?thesis using m assms(2) by (intro cut_atI [OF m(1)]) (simp_all add: fits_def)
  next
    case False
    then have "mpt_delete (Suc fuel) e t ?n prefix (x # r) = Some (Inr (False, ?n))"
      using delete_full_clean [OF _ l] i(1) by simp
    moreover have "\<forall>k v. holds ?rs ?n k v \<longleftrightarrow> (if k = x # r then False else holds ?rs ?n k v)"
      using holds_full_upd [of ?rs ?c r "\<lambda>v. False" cs x f _ _ f, OF _ l] i(4) False by (simp only: list_update_id) blast
    ultimately show ?thesis using assms(1,2) by (intro cut_atI [of _ False ?n]) (simp_all add: fits_def)
  qed
qed

lemma mpt_delete_cut:
  assumes "fits (loads e t) n key" "node_fuel n key \<le> fuel"
  shows "cut_at (loads e t) n key (mpt_delete fuel e t n prefix key)"
  using assms
proof (induction fuel arbitrary: n key prefix)
  case 0
  then show ?case using fuel_zero by blast
next
  case (Suc fuel)
  let ?rs = "loads e t"
  show ?case
  proof (cases n)
    case NilNode
    then show ?thesis using Suc.prems(1) by (intro cut_atI [of _ False NilNode]) (simp_all add: branching_def)
  next
    case (ValueNode u)
    then have "key = []" using Suc.prems(1) by (auto simp: fits_def split: if_splits)
    then show ?thesis using ValueNode by (intro cut_atI [of _ True NilNode]) (simp_all add: branching_def fits_def)
  next
    case (ShortNode k c f)
    then have g: "good ?rs (ShortNode k c f)" "hexkey key" using fits_good [OF Suc.prems(1)] by auto
    have le: "prefixLen key k \<le> length k" using prefixLen_split by blast
    consider (other) "\<nexists>r. key = k @ r" | (leaf) "key = k" | (below) r where "key = k @ r" "r \<noteq> []" by force
    then show ?thesis
    proof cases
      case other
      then have "prefixLen key k < length k" using le prefixLen_full [of key k] by auto
      then have "mpt_delete (Suc fuel) e t n prefix key = Some (Inr (False, n))" by (simp add: ShortNode)
      then show ?thesis using other Suc.prems(1)
        by (intro cut_atI [of _ False n]) (auto simp: ShortNode holds_ShortNode branching_def)
    next
      case leaf
      have "prefixLen key k = length k" using leaf prefixLen_full [of key k] by auto
      then have "mpt_delete (Suc fuel) e t n prefix key = Some (Inr (True, NilNode))" using leaf by (simp add: ShortNode)
      moreover have "\<exists>v. c = ValueNode (Some v)" using g leaf hexkey_not_nibbles [of k "[]"] by (auto simp: good_ShortNode)
      ultimately show ?thesis using leaf g(2)
        by (intro cut_atI [of _ True NilNode]) (auto simp: ShortNode holds_ShortNode branching_def fits_def)
    next
      case (below r)
      note sub = fits_short [OF g(1) g(2) [unfolded below(1)]]
      from delete_short [OF g(1) g(2) [unfolded below(1)] below(2)
          Suc.IH [OF sub(1) fuel_short [OF Suc.prems(2) [unfolded ShortNode below(1)] sub(2)]]]
      show ?thesis unfolding ShortNode below(1) .
    qed
  next
    case (FullNode cs f)
    then have g: "good ?rs (FullNode cs f)" "hexkey key" using fits_good [OF Suc.prems(1)] by auto
    then obtain x r where r: "key = x # r" by (cases key) auto
    from delete_full [OF g(1) g(2) [unfolded r]
        Suc.IH [OF fits_full(1) [OF g(1) g(2) [unfolded r]] fuel_full [OF Suc.prems(2) [unfolded FullNode r]]]]
    show ?thesis unfolding FullNode r .
  next
    case (HashNode h)
    obtain m where m: "?rs h = Some m" "fits ?rs m key" "\<forall>h'. m \<noteq> HashNode h'" "good ?rs m" "hexkey key"
      using Suc.prems(1) [unfolded HashNode] by (rule fits_hash)
    from Suc.IH [OF m(2) fuel_hash [OF Suc.prems(2) [unfolded HashNode] m(3)], of prefix]
    obtain d n' where i: "mpt_delete fuel e t m prefix key = Some (Inr (d, n'))" "fits ?rs n' key"
        "\<forall>k v. holds ?rs n' k v \<longleftrightarrow> (if k = key then False else holds ?rs m k v)"
        "\<not> d \<longrightarrow> (\<forall>k v. holds ?rs m k v \<longleftrightarrow> (if k = key then False else holds ?rs m k v))"
        "d \<longrightarrow> (\<forall>h. n' \<noteq> HashNode h)" "branching ?rs m \<longrightarrow> n' \<noteq> NilNode \<and> (\<not> d \<longrightarrow> branching ?rs n')"
      by (rule cut_atE)
    let ?n' = "if d then n' else m"
    have r: "mpt_delete (Suc fuel) e t n prefix key = Some (Inr (d, ?n'))"
      using i(1) loads_resolveHash [OF m(1)] by (simp add: HashNode)
    have eq: "holds ?rs n = holds ?rs m" by (intro ext) (simp add: HashNode holds_HashNode m(1))
    have br: "branching ?rs n \<Longrightarrow> branching ?rs m" using m(1,3) by (auto simp: HashNode branching_def)
    have nn: "m \<noteq> NilNode" using m(4) by auto
    show ?thesis
    proof (cases d)
      case True
      show ?thesis by (rule cut_atI [OF r]) (use True i(2,3,5,6) br in \<open>simp_all add: eq\<close>)
    next
      case False
      then have "\<forall>k v. holds ?rs m k v \<longleftrightarrow> (if k = key then False else holds ?rs m k v)" using i(4) by blast
      then show ?thesis by (intro cut_atI [OF r]) (simp_all only: False if_False eq m(2), simp_all add: br nn)
    qed
  qed
qed

section \<open>The trie as a map\<close>

definition trie_ok :: "trie_env \<Rightarrow> MerkleTrie \<Rightarrow> bool" where
  "trie_ok e t \<longleftrightarrow> mtroot t = NilNode \<or> good (loads e t) (mtroot t)"

text \<open>The view the world state has of a trie.\<close>

definition trie_view :: "trie_env \<Rightarrow> MerkleTrie \<Rightarrow> Trie" where
  "trie_view e t key = (case Trie_TryGet e t key of Some (Inr (v, _)) \<Rightarrow> Inr v | _ \<Rightarrow> Inl ErrDB)"

lemma keybytesToHex_not_Nil [simp]: "keybytesToHex key \<noteq> []"
  by (simp add: keybytesToHex_def)

lemma trie_ok_fits: "trie_ok e t \<Longrightarrow> fits (loads e t) (mtroot t) (keybytesToHex key)"
  by (simp add: trie_ok_def fits_def)

lemma fits_trie_ok:
  assumes "fits (loads e t) n (keybytesToHex key)"
  shows "trie_ok e (t\<lparr>mtroot := n\<rparr>)"
  using assms by (auto simp: trie_ok_def fits_def split: if_splits)

lemma trie_fuel_enough: "node_fuel n key \<le> trie_fuel key"
  using node_fuel_bound by (simp add: trie_fuel_def)

lemma equiv_trie_ok: "trie_ok e t \<Longrightarrow> equiv_node (loads e t) (mtroot t) n \<Longrightarrow> trie_ok e (t\<lparr>mtroot := n\<rparr>)"
  by (auto simp: trie_ok_def equiv_node_def)

lemma Trie_TryGet_spec:
  assumes "trie_ok e t"
  obtains v n where "Trie_TryGet e t key = Some (Inr (v, t\<lparr>mtroot := n\<rparr>))" "trie_view e t key = Inr v"
    "\<forall>w. v = Some w \<longleftrightarrow> holds (loads e t) (mtroot t) (keybytesToHex key) w" "equiv_node (loads e t) (mtroot t) n"
proof -
  let ?k = "keybytesToHex key"
  from tryGet_got [OF trie_ok_fits [OF assms] trie_fuel_enough, of key "[]"]
  obtain v n d where g: "tryGet (trie_fuel ?k) e t (mtroot t) ?k 0 = Some (Inr (v, n, d))"
      "\<forall>w. v = Some w \<longleftrightarrow> holds (loads e t) (mtroot t) ?k w" "equiv_node (loads e t) (mtroot t) n"
    by (auto elim!: gotE)
  have "Trie_TryGet e t key = Some (Inr (v, t\<lparr>mtroot := if d then n else mtroot t\<rparr>))" using g(1) by (simp add: Trie_TryGet_def Let_def)
  then show thesis using that [of v "if d then n else mtroot t"] g(2,3) by (simp add: trie_view_def)
qed

lemma trie_view_eqI:
  assumes "trie_ok e t" "trie_ok e t'"
    and "\<And>w. holds (loads e t') (mtroot t') (keybytesToHex key) w \<longleftrightarrow> holds (loads e t) (mtroot t) (keybytesToHex key) w"
  shows "trie_view e t' key = trie_view e t key"
proof -
  obtain v where v: "trie_view e t key = Inr v" "\<forall>w. v = Some w \<longleftrightarrow> holds (loads e t) (mtroot t) (keybytesToHex key) w"
    using assms(1) by (rule Trie_TryGet_spec [of e t key])
  obtain v' where v': "trie_view e t' key = Inr v'" "\<forall>w. v' = Some w \<longleftrightarrow> holds (loads e t') (mtroot t') (keybytesToHex key) w"
    using assms(2) by (rule Trie_TryGet_spec [of e t' key])
  have "v = Some w \<longleftrightarrow> v' = Some w" for w using v(2) v'(2) assms(3) by blast
  then show ?thesis using v(1) v'(1) by (metis option.exhaust)
qed

lemma trie_view_value:
  assumes "trie_ok e t" "\<And>w. holds (loads e t) (mtroot t) (keybytesToHex key) w \<longleftrightarrow> v = Some w"
  shows "trie_view e t key = Inr v"
proof -
  obtain u where u: "trie_view e t key = Inr u" "\<forall>w. u = Some w \<longleftrightarrow> holds (loads e t) (mtroot t) (keybytesToHex key) w"
    using assms(1) by (rule Trie_TryGet_spec [of e t key])
  have "u = Some w \<longleftrightarrow> v = Some w" for w using u(2) assms(2) by blast
  then show ?thesis using u(1) by (metis option.exhaust)
qed

text \<open>A changed root whose content differs at one key only.\<close>

lemma trie_view_upd:
  assumes "trie_ok e t" "trie_ok e (t\<lparr>mtroot := n\<rparr>)"
    and "\<forall>k w. holds (loads e t) n k w \<longleftrightarrow> (if k = keybytesToHex key then v = Some w else holds (loads e t) (mtroot t) k w)"
  shows "trie_view e (t\<lparr>mtroot := n\<rparr>) = (trie_view e t)(key := Inr v)"
proof
  fix k
  show "trie_view e (t\<lparr>mtroot := n\<rparr>) k = ((trie_view e t)(key := Inr v)) k"
  proof (cases "k = key")
    case True
    then show ?thesis using trie_view_value [OF assms(2), of key v] assms(3) by simp
  next
    case False
    then show ?thesis using trie_view_eqI [OF assms(1,2), of k] assms(3) by (simp add: keybytesToHex_inject)
  qed
qed

definition adds_key :: "trie_env \<Rightarrow> MerkleTrie \<Rightarrow> byte list \<Rightarrow> MerkleTrie \<Rightarrow> bool" where
  "adds_key e t key t' \<longleftrightarrow> (\<exists>n. t' = t\<lparr>mtroot := n\<rparr>)
     \<and> (\<forall>k w. holds (loads e t) (mtroot t') k w \<longrightarrow> k = keybytesToHex key \<or> holds (loads e t) (mtroot t) k w)"

lemma Trie_TryDelete_spec:
  assumes "trie_ok e t"
  shows "\<exists>t'. Trie_TryDelete e t key = Some (Inr t') \<and> Trie_TryUpdate e t key [] = Some (Inr t') \<and> trie_ok e t'
      \<and> trie_view e t' = (trie_view e t)(key := Inr None) \<and> adds_key e t key t'"
proof -
  let ?k = "keybytesToHex key" and ?rs = "loads e t"
  obtain d n where c: "mpt_delete (trie_fuel ?k) e t (mtroot t) [] ?k = Some (Inr (d, n))" "fits ?rs n ?k"
      "\<forall>k v. holds ?rs n k v \<longleftrightarrow> (if k = ?k then False else holds ?rs (mtroot t) k v)"
    using mpt_delete_cut [OF trie_ok_fits [OF assms, of key] trie_fuel_enough, of "[]"] by (rule cut_atE)
  have ok: "trie_ok e (t\<lparr>mtroot := n\<rparr>)" using fits_trie_ok c(2) by blast
  have "trie_view e (t\<lparr>mtroot := n\<rparr>) = (trie_view e t)(key := Inr None)"
    using trie_view_upd [OF assms ok, of key None] c(3) by simp
  moreover have "adds_key e t key (t\<lparr>mtroot := n\<rparr>)" using c(3) by (auto simp: adds_key_def split: if_splits)
  ultimately show ?thesis using c(1) ok
    by (intro exI [of _ "t\<lparr>mtroot := n\<rparr>"]) (simp add: Trie_TryDelete_def Trie_TryUpdate_def set_root_def Let_def)
qed

lemma Trie_TryUpdate_spec:
  assumes "trie_ok e t"
  shows "\<exists>t'. Trie_TryUpdate e t key val = Some (Inr t') \<and> trie_ok e t'
      \<and> trie_view e t' = (trie_view e t)(key := Inr (if val = [] then None else Some val)) \<and> adds_key e t key t'"
proof (cases "val = []")
  case True
  then show ?thesis using Trie_TryDelete_spec [OF assms, of key] by auto
next
  case False
  let ?k = "keybytesToHex key" and ?rs = "loads e t"
  obtain d n where p: "mpt_insert (trie_fuel ?k) e t (mtroot t) [] ?k (ValueNode (Some val)) = Some (Inr (d, n))" "fits ?rs n ?k"
      "\<forall>k v. holds ?rs n k v \<longleftrightarrow> (if k = ?k then v = val else holds ?rs (mtroot t) k v)"
    using mpt_insert_put [OF trie_ok_fits [OF assms, of key] trie_fuel_enough, of val "[]"] by (rule put_atE)
  have ok: "trie_ok e (t\<lparr>mtroot := n\<rparr>)" using fits_trie_ok p(2) by blast
  have "trie_view e (t\<lparr>mtroot := n\<rparr>) = (trie_view e t)(key := Inr (Some val))"
    using trie_view_upd [OF assms ok, of key "Some val"] p(3) by (simp add: eq_commute [of val])
  moreover have "adds_key e t key (t\<lparr>mtroot := n\<rparr>)" using p(3) by (auto simp: adds_key_def split: if_splits)
  ultimately show ?thesis using p(1) ok False
    by (intro exI [of _ "t\<lparr>mtroot := n\<rparr>"]) (simp add: Trie_TryUpdate_def set_root_def Let_def)
qed

end
