(* ===== verification/TrieRoot.thy ===== *)
theory TrieRoot
  imports TrieUpdate
begin

text \<open>
  The shape of a trie is determined by what it holds: two loaded tries with the same content are the same up to the
  flags of their nodes, so the root hash depends on the content only and not on the order of the updates.
\<close>

section \<open>Loaded tries\<close>

text \<open>A node all of whose descendants are in memory and have never been hashed.\<close>

fun fresh_node :: "Node \<Rightarrow> bool" where
  "fresh_node (FullNode cs f) \<longleftrightarrow> fhash f = None \<and> list_all fresh_node cs"
| "fresh_node (ShortNode k v f) \<longleftrightarrow> fhash f = None \<and> fresh_node v"
| "fresh_node (HashNode h) \<longleftrightarrow> False"
| "fresh_node _ \<longleftrightarrow> True"

fun skeleton :: "Node \<Rightarrow> Node" where
  "skeleton (FullNode cs f) = FullNode (map skeleton cs) no_flag"
| "skeleton (ShortNode k v f) = ShortNode k (skeleton v) no_flag"
| "skeleton n = n"

lemma newFlag_fresh [simp]: "fhash (newFlag t) = None"
  by (simp add: newFlag_def)

lemma fresh_update: "list_all fresh_node cs \<Longrightarrow> fresh_node n \<Longrightarrow> list_all fresh_node (cs[i := n])"
  using set_update_subset_insert [of cs i n] by (auto simp: list_all_iff)

lemma fresh_child: "list_all fresh_node cs \<Longrightarrow> child_at cs key pos = Some c \<Longrightarrow> fresh_node c"
  by (auto simp: child_at_def list_all_iff split: if_splits)

lemma fresh_branch:
  assumes "Option.bind (set_child empty_branch i n1) (\<lambda>cs. set_child cs j n2) = Some cs" "fresh_node n1" "fresh_node n2"
  shows "list_all fresh_node cs"
proof -
  have "list_all fresh_node empty_branch" by (simp add: empty_branch_def list_all_iff)
  then show ?thesis using assms by (auto simp: set_child_def fresh_update split: if_splits)
qed

lemma mpt_insert_fresh:
  "mpt_insert fuel e t n prefix key val = Some (Inr (d, n')) \<Longrightarrow> fresh_node n \<Longrightarrow> fresh_node val \<Longrightarrow> fresh_node n'"
proof (induction fuel arbitrary: n prefix key val d n')
  case (Suc fuel)
  show ?case
  proof (cases "key = []")
    case True
    then show ?thesis using Suc.prems by (auto split: Node.splits)
  next
    case False
    show ?thesis
    proof (cases n)
      case (ShortNode k v f)
      then show ?thesis using Suc.prems Suc.IH False fresh_branch
        by (auto simp: Let_def split: if_splits option.splits sum.splits)
    next
      case (FullNode cs f)
      then show ?thesis using Suc.prems Suc.IH False fresh_child fresh_update
        by (auto split: if_splits option.splits sum.splits)
    qed (use Suc.prems False in auto)
  qed
qed simp

lemma single_child_less: "single_child cs = Some i \<Longrightarrow> i < length cs"
  using single_child_Some [of cs i] by (auto simp: filled_def)

lemma mpt_delete_fresh:
  "mpt_delete fuel e t n prefix key = Some (Inr (d, n')) \<Longrightarrow> fresh_node n \<Longrightarrow> fresh_node n'"
proof (induction fuel arbitrary: n prefix key d n')
  case (Suc fuel)
  show ?case
  proof (cases n)
    case (ShortNode k v f)
    have "fresh_node c" if "mpt_delete fuel e t v (prefix @ take (length k) key) (drop (length k) key) = Some (Inr (b, c))" for b c
      using that Suc.IH Suc.prems(2) ShortNode by auto
    then show ?thesis using Suc.prems ShortNode
      by (auto simp: Let_def split: if_splits option.splits sum.splits Node.splits)
  next
    case (FullNode cs f)
    have l: "fresh_node (cs' ! i)" if "list_all fresh_node cs'" "single_child cs' = Some i" for cs' i
      using that single_child_less by (auto simp: list_all_iff)
    have c: "fresh_node c" if "child_at cs key 0 = Some b" "mpt_delete fuel e t b (prefix @ [key ! 0]) (drop 1 key) = Some (Inr (a, c))" for a b c
      using that Suc.IH Suc.prems(2) fresh_child FullNode by auto
    have r: "fresh_node cv" if "resolveNode e t (cs' ! i) prefix = Inr (ShortNode ck cv cf)" "list_all fresh_node cs'" "single_child cs' = Some i" for cs' i ck cv cf
      using that(1) l [OF that(2,3)] by (auto simp: resolveNode_def split: Node.splits)
    have u: "list_all fresh_node (cs[i := m])" if "fresh_node m" for i m using that Suc.prems(2) FullNode fresh_update by auto
    show ?thesis using Suc.prems FullNode l [OF u [OF c]] r [OF _ u [OF c]] u [OF c]
      by (auto simp: Let_def split: if_splits option.splits sum.splits Node.splits)
  qed (use Suc.prems in auto)
qed simp

section \<open>The shape is determined by the content\<close>

lemma fresh_rs: "fresh_node n \<Longrightarrow> holds rs n k v \<Longrightarrow> holds rs' n k v"
proof (induction n arbitrary: k v)
  case (FullNode cs f)
  then show ?case by (auto simp: holds_FullNode list_all_iff)
qed (auto simp: holds_ShortNode)

lemma good_inhabited: "good rs n \<Longrightarrow> \<exists>k v. k \<noteq> [] \<and> holds rs n k v"
proof (induction rule: good.induct)
  case (good_leaf k v f)
  then show ?case by (auto simp: holds_ShortNode)
next
  case (good_ext k c f)
  then show ?case by (auto simp: holds_ShortNode)
next
  case (good_full cs f)
  then have "filled cs \<noteq> {}" by (metis card.empty not_numeral_le_zero)
  then obtain i where i: "i < 17" "cs ! i \<noteq> NilNode" using good_full.hyps(1) by (auto simp: filled_def)
  have u: "unat (of_nat i :: byte) = i" using i(1) by (simp add: unsigned_of_nat take_bit_nat_eq_self)
  have "\<exists>k v. holds rs (cs ! i) k v"
  proof (cases "i = 16")
    case True
    then show ?thesis using good_full i(2) holds_value by metis
  next
    case False
    then have "i < 16" using i(1) by simp
    then show ?thesis using good_full i(2) by blast
  qed
  then show ?case using u i(1) good_full.hyps(1) by (metis holds_full list.distinct(1))
next
  case (good_hash h n)
  then show ?case by (auto simp: holds_HashNode)
qed

lemma slot_inhabited:
  assumes "good rs (FullNode cs f)" "i < 17" "cs ! i \<noteq> NilNode"
  shows "\<exists>k v. holds rs (FullNode cs f) (of_nat i # k) v"
proof -
  have u: "unat (of_nat i :: byte) = i" using assms(2) by (simp add: unsigned_of_nat take_bit_nat_eq_self)
  have "\<exists>k v. holds rs (cs ! i) k v"
  proof (cases "i = 16")
    case True
    then show ?thesis using assms holds_value unfolding good_FullNode by metis
  next
    case False
    then have "i < 16" using assms(2) by simp
    then have "good rs (cs ! i)" using assms(1,3) unfolding good_FullNode by blast
    then show ?thesis using good_inhabited by blast
  qed
  then show ?thesis using u assms(1,2) by (auto simp: holds_FullNode good_FullNode)
qed

lemma full_branches:
  assumes "good rs (FullNode cs f)"
  obtains x y k k' v v' where "x \<noteq> y" "holds rs (FullNode cs f) (x # k) v" "holds rs (FullNode cs f) (y # k') v'"
proof -
  have "2 \<le> card (filled cs)" "length cs = 17" using assms by (simp_all add: good_FullNode)
  then obtain i j where ij: "i \<noteq> j" "i \<in> filled cs" "j \<in> filled cs" by (metis card_2_iff' card_le_Suc0_iff_eq filled_finite not_less_eq_eq numeral_2_eq_2)
  then have b: "i < 17" "j < 17" "cs ! i \<noteq> NilNode" "cs ! j \<noteq> NilNode" using \<open>length cs = 17\<close> by (auto simp: filled_def)
  have "unat (of_nat i :: byte) = i" "unat (of_nat j :: byte) = j" using b by (simp_all add: unsigned_of_nat take_bit_nat_eq_self)
  then have "(of_nat i :: byte) \<noteq> of_nat j" using ij(1) by metis
  then show thesis using that slot_inhabited [OF assms b(1,3)] slot_inhabited [OF assms b(2,4)] by blast
qed

text \<open>The key of a short node is the longest common prefix of the keys below it.\<close>

lemma short_prefix:
  assumes "good rs (ShortNode p c f)" "good rs (ShortNode q d g)" "fresh_node c" "fresh_node d"
    "\<And>k v. holds rs (ShortNode p c f) k v \<longleftrightarrow> holds rs (ShortNode q d g) k v"
  shows "\<exists>r. p = q @ r"
proof (cases "\<exists>v. c = ValueNode (Some v)")
  case True
  then obtain v where "holds rs (ShortNode p c f) p v" by (auto simp: holds_ShortNode)
  then show ?thesis unfolding assms(5) by (auto simp: holds_ShortNode)
next
  case False
  then obtain cs h where c: "c = FullNode cs h" "good rs c" using assms(1,3) by (auto simp: good_ShortNode branching_def)
  obtain x y k k' v v' where b: "x \<noteq> y" "holds rs c (x # k) v" "holds rs c (y # k') v'"
    using full_branches c by metis
  have "holds rs (ShortNode p c f) (p @ x # k) v" "holds rs (ShortNode p c f) (p @ y # k') v'" using b by (auto simp: holds_ShortNode)
  then obtain s s' where s: "p @ x # k = q @ s" "p @ y # k' = q @ s'" unfolding assms(5) by (auto simp: holds_ShortNode)
  have "length q \<le> length p"
  proof (rule ccontr)
    assume "\<not> length q \<le> length p"
    then have "q ! length p = x" "q ! length p = y" using s by (metis nth_append nth_append_length not_le)+
    then show False using b(1) by simp
  qed
  then show ?thesis using s(1) by (metis append_eq_append_conv_if append_take_drop_id)
qed

definition slot :: "resolver \<Rightarrow> Node \<Rightarrow> bool" where
  "slot rs n \<longleftrightarrow> n = NilNode \<or> (\<exists>v. n = ValueNode (Some v)) \<or> good rs n"

definition same_content :: "resolver \<Rightarrow> Node \<Rightarrow> Node \<Rightarrow> bool" where
  "same_content rs n m \<longleftrightarrow> (\<forall>k v. holds rs n k v \<longleftrightarrow> holds rs m k v)"

lemma good_keys: "good rs n \<Longrightarrow> \<not> holds rs n [] v"
  by (induction rule: good.induct) (auto simp: holds_ShortNode holds_FullNode holds_HashNode)

lemma slot_short: "good rs (ShortNode p c f) \<Longrightarrow> slot rs c"
  by (auto simp: good_ShortNode slot_def)

lemma slot_full: "good rs (FullNode cs f) \<Longrightarrow> i < 17 \<Longrightarrow> slot rs (cs ! i)"
proof -
  assume "good rs (FullNode cs f)" "i < 17"
  then have "i = 16 \<or> i < 16" "cs ! 16 = NilNode \<or> (\<exists>v. cs ! 16 = ValueNode (Some v))" "\<forall>i < 16. cs ! i = NilNode \<or> good rs (cs ! i)"
    by (auto simp: good_FullNode)
  then show ?thesis unfolding slot_def by blast
qed

lemma slot_empty: "slot rs n \<Longrightarrow> \<nexists>k v. holds rs n k v \<Longrightarrow> n = NilNode"
  using good_inhabited [of rs n] holds_value unfolding slot_def by blast

lemma short_not_full:
  assumes "good rs (ShortNode p c f)" "good rs (FullNode cs g)"
  shows "\<not> same_content rs (ShortNode p c f) (FullNode cs g)"
proof
  assume s: "same_content rs (ShortNode p c f) (FullNode cs g)"
  have p: "p \<noteq> []" using assms(1) by (auto simp: good_ShortNode)
  obtain x y k k' v v' where b: "x \<noteq> y" "holds rs (FullNode cs g) (x # k) v" "holds rs (FullNode cs g) (y # k') v'"
    using assms(2) by (rule full_branches)
  then have "\<exists>r. x # k = p @ r" "\<exists>r. y # k' = p @ r" using s by (auto simp: same_content_def holds_ShortNode)
  then show False using b(1) p by (cases p) auto
qed

lemma canonical:
  assumes "slot rs n" "slot rs m" "fresh_node n" "fresh_node m" "same_content rs n m"
  shows "skeleton n = skeleton m"
  using assms
proof (induction n arbitrary: m)
  case NilNode
  then have "m = NilNode" by (intro slot_empty) (auto simp: same_content_def)
  then show ?case by simp
next
  case (ValueNode w)
  then obtain v where v: "w = Some v" by (auto simp: slot_def)
  have h: "holds rs m k u \<longleftrightarrow> k = [] \<and> u = v" for k u using ValueNode.prems(5) v by (auto simp: same_content_def)
  then have "holds rs m [] v" by simp
  then have "m \<noteq> NilNode" "\<not> good rs m" using good_keys [of rs m v] by auto
  then obtain u where u: "m = ValueNode (Some u)" using ValueNode.prems(2) by (auto simp: slot_def)
  then show ?case using h [of "[]" u] v by simp
next
  case (ShortNode p c f)
  then have g: "good rs (ShortNode p c f)" by (simp add: slot_def)
  obtain k v where k: "k \<noteq> []" "holds rs (ShortNode p c f) k v" using good_inhabited [OF g] by blast
  then have "holds rs m k v" using ShortNode.prems(5) by (simp add: same_content_def)
  then have gm: "good rs m" using ShortNode.prems(2) k(1) by (auto simp: slot_def)
  then have "\<forall>h. m \<noteq> HashNode h" using ShortNode.prems(4) by auto
  with gm show ?case
  proof (cases rule: good_cases)
    case (1 q d g')
    have same: "holds rs (ShortNode p c f) k v \<longleftrightarrow> holds rs (ShortNode q d g') k v" for k v
      using ShortNode.prems(5) 1 by (simp add: same_content_def)
    obtain r r' where "p = q @ r" "q = p @ r'"
      using short_prefix [OF g gm [unfolded 1] _ _ same] short_prefix [OF gm [unfolded 1] g _ _ same [symmetric]]
        ShortNode.prems(3,4) 1 by auto
    then have pq: "p = q" by simp
    then have "same_content rs c d" using same by (auto simp: same_content_def holds_ShortNode)
    then show ?thesis using ShortNode.IH [of d] slot_short [OF g] slot_short [OF gm [unfolded 1]] ShortNode.prems(3,4) 1 pq by simp
  next
    case (2 cs g')
    then show ?thesis using short_not_full [OF g gm [unfolded 2]] ShortNode.prems(5) by simp
  qed
next
  case (FullNode cs f)
  then have g: "good rs (FullNode cs f)" by (simp add: slot_def)
  obtain x k v where k: "holds rs (FullNode cs f) (x # k) v" using full_branches [OF g] by blast
  then have "holds rs m (x # k) v" using FullNode.prems(5) by (simp add: same_content_def)
  then have gm: "good rs m" using FullNode.prems(2) by (auto simp: slot_def)
  then have "\<forall>h. m \<noteq> HashNode h" using FullNode.prems(4) by auto
  with gm show ?case
  proof (cases rule: good_cases)
    case (1 q d g')
    then show ?thesis using short_not_full [OF gm [unfolded 1] g] FullNode.prems(5) by (auto simp: same_content_def)
  next
    case (2 ds g')
    have l: "length cs = 17" "length ds = 17" using g gm 2 by (simp_all add: good_FullNode)
    have "skeleton (cs ! i) = skeleton (ds ! i)" if i: "i < 17" for i
    proof (rule FullNode.IH)
      have u: "unat (of_nat i :: byte) = i" using i by (simp add: unsigned_of_nat take_bit_nat_eq_self)
      have "holds rs (FullNode cs f) (of_nat i # k) v \<longleftrightarrow> holds rs (cs ! i) k v" "holds rs m (of_nat i # k) v \<longleftrightarrow> holds rs (ds ! i) k v" for k v
        using u i l 2 by (simp_all add: holds_FullNode)
      then show "same_content rs (cs ! i) (ds ! i)" using FullNode.prems(5) unfolding same_content_def by blast
      show "slot rs (cs ! i)" "slot rs (ds ! i)" using slot_full g gm 2 i by blast+
      show "cs ! i \<in> set cs" "fresh_node (cs ! i)" "fresh_node (ds ! i)"
        using i l FullNode.prems(3,4) 2 by (auto simp: list_all_length)
    qed
    then show ?thesis using 2 l by (simp add: list_eq_iff_nth_eq)
  qed
qed (simp add: slot_def)

section \<open>The root hash is determined by the content\<close>

lemma skeleton_Nil [simp]: "skeleton n = NilNode \<longleftrightarrow> n = NilNode"
  by (cases n) auto

lemma MarshalMsg_skeleton:
  "MarshalMsg M (skeleton n) b = MarshalMsg M n b"
  "marshal_children M (map skeleton cs) b = marshal_children M cs b"
proof (induction M n b and M cs b rule: MarshalMsg_marshal_children.induct)
  case (3 M k v f b)
  have "nodetypebyte (skeleton v) = nodetypebyte v" by (cases v) auto
  then show ?case using 3 by (simp add: detectNodeType_def Let_def)
next
  case (7 M c cs b)
  have "nodetypebyte (skeleton c) = nodetypebyte c" by (cases c) auto
  then show ?case using 7 by (cases "c = NilNode") (simp_all add: detectNodeType_def Let_def)
qed simp_all

lemma encodeNode_skeleton: "encodeNode M (skeleton n) = encodeNode M n"
  using MarshalMsg_skeleton(1) [of M n "[]"] by (cases n) simp_all

text \<open>Two results of hashing without a database that differ in flags only.\<close>

inductive agree :: "(Node \<times> Node \<times> TrieDatabase option) option \<Rightarrow> (Node \<times> Node \<times> TrieDatabase option) option \<Rightarrow> bool" where
  agree_panic: "agree None None"
| agree_hashed: "skeleton a = skeleton a' \<Longrightarrow> agree (Some (a, b, None)) (Some (a', b', None))"

inductive agree_all :: "(Node list \<times> Node list \<times> TrieDatabase option) option \<Rightarrow> (Node list \<times> Node list \<times> TrieDatabase option) option \<Rightarrow> bool" where
  agree_all_panic: "agree_all None None"
| agree_all_hashed: "map skeleton as = map skeleton as' \<Longrightarrow> agree_all (Some (as, bs, None)) (Some (as', bs', None))"

lemma store_agree:
  assumes "skeleton n = skeleton m" "fst (node_cache n) = None" "fst (node_cache m) = None"
  shows "agree (finish_hash e h force n c None) (finish_hash e h force m c' None)"
proof -
  have "encodeNode M n = encodeNode M m" for M using assms(1) encodeNode_skeleton by metis
  then show ?thesis using assms
    by (cases n; cases m) (auto simp: finish_hash_def hasher_store_def Let_def intro: agree_hashed)
qed

lemma hash_children_agree:
  assumes "\<And>c d. c \<in> set cs \<Longrightarrow> d \<in> set ds \<Longrightarrow> skeleton c = skeleton d \<Longrightarrow> agree (hash_node e h c None False) (hash_node e h d None False)"
    and "map skeleton cs = map skeleton ds"
  shows "agree_all (hash_children e h left cs None) (hash_children e h left ds None)"
  using assms(2,1)
proof (induction cs ds arbitrary: left rule: list_induct2' )
  case (4 c cs d ds)
  have IH: "agree_all (hash_children e h (left - 1) cs None) (hash_children e h (left - 1) ds None)"
    using 4 by simp
  show ?case
  proof (cases "left = 0")
    case True
    then show ?thesis by (simp add: agree_all_hashed)
  next
    case False
    have nil: "c = NilNode \<longleftrightarrow> d = NilNode" using 4(2) by (metis list.inject list.simps(9) skeleton_Nil)
    have "agree (if c = NilNode then Some (ValueNode None, NilNode, None) else hash_node e h c None False)
        (if d = NilNode then Some (ValueNode None, NilNode, None) else hash_node e h d None False)"
      using 4(2,3) nil by (simp add: agree_hashed)
    then show ?thesis
    proof (cases rule: agree.cases)
      case agree_panic
      then show ?thesis using False by (simp add: agree_all_panic)
    next
      case (agree_hashed a a' b b')
      from IH show ?thesis
        by (cases rule: agree_all.cases) (use False agree_hashed in \<open>simp_all add: agree_all_panic agree_all_hashed\<close>)
    qed
  qed
qed (auto intro: agree_all.intros)

lemma use_cached_fresh: "fst (node_cache n) = None \<Longrightarrow> use_cached h n db = None"
  by (auto simp: use_cached_def split: prod.splits)

lemma hash_node_agree:
  assumes "fresh_node n" "fresh_node m" "skeleton n = skeleton m"
  shows "agree (hash_node e h n None force) (hash_node e h m None force)"
  using assms
proof (induction n arbitrary: m force)
  case (ShortNode p c f)
  then obtain d g where m: "m = ShortNode p d g" "skeleton c = skeleton d" "fresh_node d" "fhash g = None" by (cases m) auto
  have u: "use_cached h (ShortNode p c f) None = None" "use_cached h m None = None"
    using ShortNode.prems(1) m by (intro use_cached_fresh; simp)+
  have nil: "c = NilNode \<longleftrightarrow> d = NilNode" using m(2) by (metis skeleton_Nil)
  have "agree (case c of ValueNode _ \<Rightarrow> Some (c, c, None) | _ \<Rightarrow> hash_node e h c None False)
      (case d of ValueNode _ \<Rightarrow> Some (d, d, None) | _ \<Rightarrow> hash_node e h d None False)"
    using ShortNode.IH [of d False] ShortNode.prems(1) m(2,3) by (cases c; cases d) (auto intro: agree_hashed)
  then show ?case
  proof (cases rule: agree.cases)
    case agree_panic
    then show ?thesis using u m(1) by (simp add: agree.agree_panic)
  next
    case (agree_hashed a a' b b')
    have "a = NilNode \<longleftrightarrow> a' = NilNode" using agree_hashed(3) by (metis skeleton_Nil)
    then show ?thesis using u m agree_hashed ShortNode.prems(1) by (simp add: store_agree)
  qed
next
  case (FullNode cs f)
  then obtain ds g where m: "m = FullNode ds g" "map skeleton cs = map skeleton ds" "list_all fresh_node ds" "fhash g = None"
    by (cases m) auto
  have u: "use_cached h (FullNode cs f) None = None" "use_cached h m None = None"
    using FullNode.prems(1) m by (intro use_cached_fresh; simp)+
  have "agree_all (hash_children e h 16 cs None) (hash_children e h 16 ds None)"
    using FullNode m by (intro hash_children_agree) (auto simp: list_all_iff)
  then show ?case
  proof (cases rule: agree_all.cases)
    case agree_all_panic
    then show ?thesis using u m(1) by (simp add: agree_panic)
  next
    case (agree_all_hashed as as' bs bs')
    let ?fix = "\<lambda>v. if v = NilNode then ValueNode None else v"
    have fx: "map skeleton (map ?fix xs) = map ?fix (map skeleton xs)" for xs by simp
    have "map skeleton (drop 16 cs) = map skeleton (drop 16 ds)" using m(2) by (simp flip: drop_map)
    then have "map skeleton (map ?fix (drop 16 cs)) = map skeleton (map ?fix (drop 16 ds))" unfolding fx by (rule arg_cong)
    then show ?thesis using u m agree_all_hashed FullNode.prems(1) by (simp add: store_agree)
  qed
next
  case NilNode
  then have "m = NilNode" by (metis skeleton.simps(3) skeleton_Nil)
  then show ?case by (simp add: use_cached_def agree_panic)
next
  case (ValueNode w)
  then have "m = ValueNode w" by (cases m) auto
  then show ?case by (simp add: use_cached_def store_agree)
qed simp

lemma finish_hash_total:
  "\<exists>a b. finish_hash e h force n c None = Some (a, b, None) \<and> (force \<longrightarrow> (\<forall>x. n \<noteq> HashNode x) \<longrightarrow> n \<noteq> NilNode \<longrightarrow> fst (node_cache n) = None
      \<longrightarrow> a = HashNode (tsha e (encodeNode (tmsgp e) n)))"
  by (cases n) (auto simp: finish_hash_def hasher_store_def Let_def)

lemma hash_children_total:
  assumes "\<And>c. c \<in> set cs \<Longrightarrow> c \<noteq> NilNode \<Longrightarrow> \<exists>a b. hash_node e h c None False = Some (a, b, None)"
  shows "\<exists>as bs. hash_children e h left cs None = Some (as, bs, None)"
  using assms
proof (induction cs arbitrary: left)
  case (Cons c cs)
  obtain as bs where "hash_children e h (left - 1) cs None = Some (as, bs, None)" using Cons by force
  moreover obtain a b where "(if c = NilNode then Some (ValueNode None, NilNode, None) else hash_node e h c None False) = Some (a, b, None)"
    using Cons.prems [of c] by (cases "c = NilNode") auto
  ultimately show ?case by simp
qed simp

lemma hash_node_total:
  assumes "slot rs n" "fresh_node n" "n \<noteq> NilNode"
  shows "\<exists>a b. hash_node e h n None force = Some (a, b, None) \<and> (force \<longrightarrow> (\<exists>enc. a = HashNode (tsha e enc)))"
  using assms
proof (induction n arbitrary: force)
  case (ShortNode p c f)
  then have g: "good rs (ShortNode p c f)" by (simp add: slot_def)
  have u: "use_cached h (ShortNode p c f) None = None" using ShortNode.prems(2) by (intro use_cached_fresh) simp
  have "c \<noteq> NilNode" using g by (auto simp: good_ShortNode)
  then obtain a b where ab: "(case c of ValueNode _ \<Rightarrow> Some (c, c, None) | _ \<Rightarrow> hash_node e h c None False) = Some (a, b, None)"
    using ShortNode.IH [of False] slot_short [OF g] ShortNode.prems(2) by (cases c) auto
  then show ?case using u finish_hash_total [of e h force "ShortNode (hexToCompact p) (if a = NilNode then ValueNode None else a) f" "ShortNode p b f"]
      ShortNode.prems(2) by auto
next
  case (FullNode cs f)
  then have g: "good rs (FullNode cs f)" by (simp add: slot_def)
  have u: "use_cached h (FullNode cs f) None = None" using FullNode.prems(2) by (intro use_cached_fresh) simp
  have l: "length cs = 17" using g by (simp add: good_FullNode)
  have "\<exists>a b. hash_node e h c None False = Some (a, b, None)" if c: "c \<in> set cs" "c \<noteq> NilNode" for c
  proof -
    obtain i where "i < 17" "c = cs ! i" using c(1) l by (metis in_set_conv_nth)
    then have s: "slot rs c" using slot_full [OF g] by simp
    have "fresh_node c" using FullNode.prems(2) c(1) by (simp add: list_all_iff)
    from FullNode.IH [OF c(1) s this c(2), of False] show ?thesis by blast
  qed
  then obtain as bs where "hash_children e h 16 cs None = Some (as, bs, None)" using hash_children_total by blast
  then show ?case using u finish_hash_total [of e h force "FullNode (as @ map (\<lambda>v. if v = NilNode then ValueNode None else v) (drop 16 cs)) f" "FullNode (bs @ drop 16 cs) f"]
      FullNode.prems(2) by auto
next
  case (ValueNode w)
  then show ?case using finish_hash_total [of e h force "ValueNode w" "ValueNode w"] by (auto simp: use_cached_def)
qed simp_all

section \<open>What the world state relies on\<close>

text \<open>A provider of tries: an invariant, the map a trie stands for, and an update that keeps the one and changes the
  other at its key.\<close>

locale trie_provider =
  fixes ok :: "'t \<Rightarrow> bool" and view :: "'t \<Rightarrow> Trie" and upd :: "'t \<Rightarrow> byte list \<Rightarrow> byte list \<Rightarrow> 't run"
  assumes upd_ok: "ok t \<Longrightarrow> \<exists>t'. upd t k v = Some (Inr t') \<and> ok t' \<and> view t' = (view t)(k := Inr (if v = [] then None else Some v))"

fun run_updates :: "('t \<Rightarrow> byte list \<Rightarrow> byte list \<Rightarrow> 't run) \<Rightarrow> 't \<Rightarrow> (byte list \<times> byte list) list \<Rightarrow> 't run" where
  "run_updates upd t [] = Some (Inr t)"
| "run_updates upd t ((k, v) # us) = (case upd t k v of Some (Inr t1) \<Rightarrow> run_updates upd t1 us | r \<Rightarrow> r)"

text \<open>The value a sequence of updates leaves at a key, if it writes the key at all.\<close>

definition written :: "(byte list \<times> byte list) list \<Rightarrow> byte list \<Rightarrow> byte list option option" where
  "written us k = map_option (\<lambda>v. if v = [] then None else Some v) (map_of (rev us) k)"

context trie_provider
begin

lemma run_updates_ok:
  "ok t \<Longrightarrow> \<exists>t'. run_updates upd t us = Some (Inr t') \<and> ok t'
     \<and> view t' = (\<lambda>k. case written us k of Some v \<Rightarrow> Inr v | None \<Rightarrow> view t k)"
proof (induction us arbitrary: t)
  case Nil
  then show ?case by (simp add: written_def)
next
  case (Cons u us)
  obtain k v where u: "u = (k, v)" by (cases u)
  obtain t1 where t1: "upd t k v = Some (Inr t1)" "ok t1" "view t1 = (view t)(k := Inr (if v = [] then None else Some v))"
    using upd_ok [OF Cons.prems] by blast
  obtain t' where t': "run_updates upd t1 us = Some (Inr t')" "ok t'"
      "view t' = (\<lambda>k. case written us k of Some v \<Rightarrow> Inr v | None \<Rightarrow> view t1 k)"
    using Cons.IH [OF t1(2)] by blast
  have "view t' = (\<lambda>k. case written (u # us) k of Some v \<Rightarrow> Inr v | None \<Rightarrow> view t k)"
    unfolding t'(3) t1(3) u by (auto simp: written_def map_add_def fun_eq_iff split: option.split)
  then show ?case using t1(1) t' u by simp
qed

end

text \<open>A trie in memory that was never hashed, holds keys made of bytes, and differs from \<open>t0\<close> in its root only.\<close>

definition fresh_trie :: "trie_env \<Rightarrow> MerkleTrie \<Rightarrow> MerkleTrie \<Rightarrow> bool" where
  "fresh_trie e t0 t \<longleftrightarrow> trie_ok e t \<and> fresh_node (mtroot t) \<and> t = t0\<lparr>mtroot := mtroot t\<rparr>
     \<and> (\<forall>k v. holds (loads e t) (mtroot t) k v \<longrightarrow> (\<exists>key. k = keybytesToHex key))"

lemma Trie_TryUpdate_fresh:
  assumes "Trie_TryUpdate e t k v = Some (Inr t')" "fresh_node (mtroot t)"
  shows "fresh_node (mtroot t')"
proof -
  have r: "fresh_node (mtroot t')" if "set_root t r = Some (Inr t')" "\<And>d n. r = Some (Inr (d, n)) \<Longrightarrow> fresh_node n" for r
    using that by (cases r) (auto simp: set_root_def map_sum_def split: sum.splits)
  show ?thesis
  proof (cases "v = []")
    case True
    then show ?thesis using assms r [OF _ mpt_delete_fresh [OF _ assms(2)]] by (simp add: Trie_TryUpdate_def Let_def)
  next
    case False
    then show ?thesis using assms r [OF _ mpt_insert_fresh [OF _ assms(2)]] by (simp add: Trie_TryUpdate_def Let_def)
  qed
qed

interpretation mpt: trie_provider "fresh_trie e t0" "trie_view e" "Trie_TryUpdate e" for e t0
proof
  fix t k v
  assume t: "fresh_trie e t0 t"
  then obtain t' where t': "Trie_TryUpdate e t k v = Some (Inr t')" "trie_ok e t'"
      "trie_view e t' = (trie_view e t)(k := Inr (if v = [] then None else Some v))" "adds_key e t k t'"
    using Trie_TryUpdate_spec [of e t k v] by (auto simp: fresh_trie_def)
  then obtain n where n: "t' = t\<lparr>mtroot := n\<rparr>"
      "\<forall>key w. holds (loads e t) n key w \<longrightarrow> key = keybytesToHex k \<or> holds (loads e t) (mtroot t) key w"
    by (auto simp: adds_key_def)
  have t0: "t = t0\<lparr>mtroot := mtroot t\<rparr>" and keys: "\<forall>k v. holds (loads e t) (mtroot t) k v \<longrightarrow> (\<exists>key. k = keybytesToHex key)"
    and fr: "fresh_node (mtroot t)" using t unfolding fresh_trie_def by blast+
  have root: "mtroot t' = n" "loads e t' = loads e t" by (simp_all add: n(1))
  have "t' = t0\<lparr>mtroot := n\<rparr>" unfolding n(1) by (subst t0) simp
  then have "t' = t0\<lparr>mtroot := mtroot t'\<rparr>" by simp
  moreover have "\<forall>k v. holds (loads e t') (mtroot t') k v \<longrightarrow> (\<exists>key. k = keybytesToHex key)" unfolding root using n(2) keys by blast
  ultimately have "fresh_trie e t0 t'" using t'(2) Trie_TryUpdate_fresh [OF t'(1) fr] unfolding fresh_trie_def by blast
  then show "\<exists>t'. Trie_TryUpdate e t k v = Some (Inr t') \<and> fresh_trie e t0 t'
      \<and> trie_view e t' = (trie_view e t)(k := Inr (if v = [] then None else Some v))"
    using t' by blast
qed

text \<open>The map that \<open>StateDB\<close> works on is a provider, too.\<close>

interpretation state_trie: trie_provider "\<lambda>t. \<forall>k. \<exists>v. t k = Inr v" "\<lambda>t. t" "\<lambda>t k v. Some (Inr (snd (TryUpdate t k v)))"
proof
  fix t :: Trie and k v
  assume "\<forall>k. \<exists>v. t k = Inr v"
  then obtain w where "t k = Inr w" by blast
  then show "\<exists>t'. Some (Inr (snd (TryUpdate t k v))) = Some (Inr t') \<and> (\<forall>k. \<exists>v. t' k = Inr v)
      \<and> t' = t(k := Inr (if v = [] then None else Some v))"
    using \<open>\<forall>k. \<exists>v. t k = Inr v\<close> by (auto simp: TryUpdate_def)
qed

end
