(* ===== verification/TrieProps.thy ===== *)
theory TrieProps
  imports TrieRoot
begin

text \<open>
  The properties of the Merkle Patricia trie and of its node database, with a sample environment in which their
  hypotheses hold.
\<close>

section \<open>Properties of the trie\<close>

text \<open>C11: the trie implements the map the world state works on. In a trie of the right shape every lookup, update
  and deletion returns without an error within the fuel, gives what the map gives, and leaves a trie of the right
  shape that stands for the changed map; hash nodes that the database resolves are loaded on the way.\<close>

theorem trie_refines_map:
  assumes "trie_ok e t"
  shows "(\<exists>v t'. Trie_TryGet e t key = Some (Inr (v, t')) \<and> TryGet (trie_view e t) key = Inr v
        \<and> trie_ok e t' \<and> trie_view e t' = trie_view e t)
    \<and> (\<exists>t'. Trie_TryUpdate e t key val = Some (Inr t') \<and> trie_ok e t' \<and> TryUpdate (trie_view e t) key val = (None, trie_view e t'))
    \<and> (\<exists>t'. Trie_TryDelete e t key = Some (Inr t') \<and> trie_ok e t' \<and> TryDelete (trie_view e t) key = (None, trie_view e t'))"
proof -
  obtain v n where g: "Trie_TryGet e t key = Some (Inr (v, t\<lparr>mtroot := n\<rparr>))" "trie_view e t key = Inr v"
      "equiv_node (loads e t) (mtroot t) n"
    using assms by (rule Trie_TryGet_spec)
  have ok: "trie_ok e (t\<lparr>mtroot := n\<rparr>)" by (rule equiv_trie_ok [OF assms g(3)])
  have "trie_view e (t\<lparr>mtroot := n\<rparr>) = trie_view e t"
    using trie_view_eqI [OF assms ok] g(3) unfolding equiv_node_def by (intro ext) simp
  then have "\<exists>v t'. Trie_TryGet e t key = Some (Inr (v, t')) \<and> TryGet (trie_view e t) key = Inr v
      \<and> trie_ok e t' \<and> trie_view e t' = trie_view e t"
    using g(1,2) ok by (simp add: TryGet_def)
  moreover obtain tu where "Trie_TryUpdate e t key val = Some (Inr tu)" "trie_ok e tu"
      "trie_view e tu = (trie_view e t)(key := Inr (if val = [] then None else Some val))"
    using Trie_TryUpdate_spec [OF assms, of key val] by blast
  moreover obtain td where "Trie_TryDelete e t key = Some (Inr td)" "trie_ok e td" "trie_view e td = (trie_view e t)(key := Inr None)"
    using Trie_TryDelete_spec [OF assms, of key] by blast
  ultimately show ?thesis using g(2) by (simp add: TryUpdate_def TryDelete_def)
qed

lemma fresh_trie_same_root:
  assumes "fresh_trie e t0 t1" "fresh_trie e t0 t2" "trie_view e t1 = trie_view e t2"
  shows "skeleton (mtroot t1) = skeleton (mtroot t2)"
proof -
  let ?rs = "loads e t1"
  have l: "loads e t2 = ?rs" using assms(1,2) unfolding fresh_trie_def by (metis loads_root)
  have ok: "trie_ok e t1" "trie_ok e t2" using assms by (simp_all add: fresh_trie_def)
  have keys: "holds ?rs (mtroot t) k v \<Longrightarrow> \<exists>key. k = keybytesToHex key" if "t = t1 \<or> t = t2" for t k v
    using assms(1,2) that l by (auto simp: fresh_trie_def)
  have "holds ?rs (mtroot t1) (keybytesToHex key) v \<longleftrightarrow> holds ?rs (mtroot t2) (keybytesToHex key) v" for key v
  proof -
    obtain u where u: "trie_view e t1 key = Inr u" "\<forall>w. u = Some w \<longleftrightarrow> holds ?rs (mtroot t1) (keybytesToHex key) w"
      using ok(1) by (rule Trie_TryGet_spec)
    obtain u' where u': "trie_view e t2 key = Inr u'" "\<forall>w. u' = Some w \<longleftrightarrow> holds (loads e t2) (mtroot t2) (keybytesToHex key) w"
      using ok(2) by (rule Trie_TryGet_spec)
    have "u = u'" using u(1) u'(1) assms(3) by simp
    then show ?thesis using u(2) u'(2) l by simp
  qed
  then have "same_content ?rs (mtroot t1) (mtroot t2)" unfolding same_content_def using keys by blast
  moreover have "slot ?rs (mtroot t1)" "slot ?rs (mtroot t2)" using ok l by (auto simp: trie_ok_def slot_def)
  ultimately show ?thesis using assms(1,2) by (intro canonical [of ?rs]) (simp_all add: fresh_trie_def)
qed

lemma fresh_trie_same_hash:
  assumes "fresh_trie e t t1" "fresh_trie e t t2" and s: "skeleton (mtroot t1) = skeleton (mtroot t2)"
  shows "map_option fst (Trie_Hash e t1) = map_option fst (Trie_Hash e t2)"
proof (cases "mtroot t1 = NilNode")
  case True
  then have "mtroot t2 = NilNode" using s by (metis skeleton_Nil)
  then show ?thesis using True by (simp add: Trie_Hash_def hashRoot_def option.map_comp comp_def)
next
  case False
  then have n: "mtroot t2 \<noteq> NilNode" using s by (metis skeleton_Nil)
  let ?h = "\<lparr>hcachegen = mtcachegen t, hcachelimit = mtcachelimit t, onleaf = None\<rparr>"
  have g: "mtcachegen u = mtcachegen t" "mtcachelimit u = mtcachelimit t" if "u = t\<lparr>mtroot := m\<rparr>" for u m
    using that by simp_all
  have "u = t\<lparr>mtroot := mtroot u\<rparr>" if "fresh_trie e t u" for u using that unfolding fresh_trie_def by blast
  then have g12: "mtcachegen t1 = mtcachegen t" "mtcachelimit t1 = mtcachelimit t" "mtcachegen t2 = mtcachegen t" "mtcachelimit t2 = mtcachelimit t"
    using g assms(1,2) by blast+
  have "fresh_node (mtroot t1)" "fresh_node (mtroot t2)" using assms(1,2) unfolding fresh_trie_def by blast+
  then have "agree (hash_node e ?h (mtroot t1) None True) (hash_node e ?h (mtroot t2) None True)"
    using s by (rule hash_node_agree)
  then show ?thesis
  proof (cases rule: agree.cases)
    case agree_panic
    then show ?thesis using False n g12 by (simp add: Trie_Hash_def hashRoot_def del: hash_node.simps)
  next
    case (agree_hashed a a' b b')
    have "hash_of a = hash_of a'" using agree_hashed(3) by (cases a; cases a') (auto simp: hash_of_def)
    then show ?thesis using False n agree_hashed(1,2) g12
      by (simp add: Trie_Hash_def hashRoot_def option.map_comp comp_def del: hash_node.simps)
  qed
qed

lemma BytesToHash_digest: "length b = 32 \<Longrightarrow> \<exists>h. BytesToHash b = Some h"
  by (simp add: BytesToHash_def Hash_MustSetBytes_def HashLength_def)

lemma Trie_Hash_total:
  assumes "fresh_trie e t0 t" "\<forall>bs. length (tsha e bs) = 32"
  shows "\<exists>h. map_option fst (Trie_Hash e t) = Some h"
proof (cases "mtroot t = NilNode")
  case True
  then show ?thesis by (simp add: Trie_Hash_def hashRoot_def hash_of_def BytesToHash_ToBytes)
next
  case False
  have "slot (loads e t) (mtroot t)" "fresh_node (mtroot t)" using assms(1) by (auto simp: fresh_trie_def trie_ok_def slot_def)
  from hash_node_total [OF this False, of e _ True] obtain b enc where
    "hash_node e \<lparr>hcachegen = mtcachegen t, hcachelimit = mtcachelimit t, onleaf = None\<rparr> (mtroot t) None True
       = Some (HashNode (tsha e enc), b, None)" by blast
  moreover have "BytesToHash (tsha e enc) \<noteq> None" using BytesToHash_digest assms(2) by fastforce
  ultimately show ?thesis using False by (auto simp: Trie_Hash_def hashRoot_def hash_of_def)
qed

text \<open>C12: the root hash of a trie depends on what it holds only. Two sequences of updates, deletions among them, that
  leave the same value at every key build the same tree up to the flags of its nodes, and hashing both gives the
  same root.\<close>

theorem root_determined_by_content:
  assumes "\<forall>k. Option.bind (written us k) id = Option.bind (written ws k) id" "\<forall>bs. length (tsha e bs) = 32"
    and "trie_New e 0 db = Inr t"
  shows "\<exists>t1 t2 h. run_updates (Trie_TryUpdate e) t us = Some (Inr t1) \<and> run_updates (Trie_TryUpdate e) t ws = Some (Inr t2)
     \<and> skeleton (mtroot t1) = skeleton (mtroot t2)
     \<and> map_option fst (Trie_Hash e t1) = Some h \<and> map_option fst (Trie_Hash e t2) = Some h"
proof -
  have t: "mtroot t = NilNode" using assms(3) by (auto simp: trie_New_def Let_def)
  then have f: "fresh_trie e t t" by (simp add: fresh_trie_def trie_ok_def)
  then have empty: "trie_view e t k = Inr None" for k
    using trie_view_value [of e t k None] t by (simp add: fresh_trie_def)
  obtain t1 where t1: "run_updates (Trie_TryUpdate e) t us = Some (Inr t1)" "fresh_trie e t t1"
      "trie_view e t1 = (\<lambda>k. case written us k of Some v \<Rightarrow> Inr v | None \<Rightarrow> trie_view e t k)"
    using mpt.run_updates_ok [OF f, of us] by blast
  obtain t2 where t2: "run_updates (Trie_TryUpdate e) t ws = Some (Inr t2)" "fresh_trie e t t2"
      "trie_view e t2 = (\<lambda>k. case written ws k of Some v \<Rightarrow> Inr v | None \<Rightarrow> trie_view e t k)"
    using mpt.run_updates_ok [OF f, of ws] by blast
  have "(case written xs k of Some v \<Rightarrow> Inr v | None \<Rightarrow> trie_view e t k) = Inr (Option.bind (written xs k) id)" for xs k
    by (simp add: empty split: option.split)
  then have "trie_view e t1 = trie_view e t2" unfolding t1(3) t2(3) using assms(1) by simp
  then have s: "skeleton (mtroot t1) = skeleton (mtroot t2)" using fresh_trie_same_root t1(2) t2(2) by blast
  obtain h1 h2 where h: "map_option fst (Trie_Hash e t1) = Some h1" "map_option fst (Trie_Hash e t2) = Some h2"
    using Trie_Hash_total [OF _ assms(2)] t1(2) t2(2) by metis
  have "h1 = h2" using fresh_trie_same_hash [OF t1(2) t2(2) s] h by simp
  then show ?thesis using t1(1) t2(1) s h by blast
qed

text \<open>C19: the three encodings of a key are inverse to each other: the bytes of a key are recovered from its nibbles,
  and a list of nibbles, with or without the terminator, from its compact form.\<close>

theorem key_encodings_roundtrip:
  fixes bs key :: "byte list"
  defines "ns \<equiv> map (\<lambda>b. b mod 16) bs"
  shows "hexToKeybytes (keybytesToHex key) = Some key \<and> compactToHex (hexToCompact ns) = Some ns
    \<and> compactToHex (hexToCompact (ns @ [16])) = Some (ns @ [16])"
proof -
  have "nibbles ns" by (simp add: nibbles_def ns_def byte_nibbles)
  then show ?thesis using compact_body hexToKeybytes_keybytesToHex by blast
qed

section \<open>Reopening a committed trie\<close>

text \<open>What the code relies on of msgp: a string is appended to the output and read back with the rest of the input,
  and \<^verbatim>\<open>0x92\<close> is the header of an array of two.\<close>

definition msgp_ok :: "msgp \<Rightarrow> bool" where
  "msgp_ok M \<longleftrightarrow> (\<forall>pre b. AppendBytes M pre b = pre @ AppendBytes M [] b)
     \<and> (\<forall>b rest. ReadBytesBytes M (AppendBytes M [] b @ rest) = Inr (b, rest))
     \<and> (\<forall>rest. ReadArrayHeaderBytes M (0x92 # rest) = Inr (2, rest))"

lemma decode_leaf:
  assumes "msgp_ok M" "hexkey k"
  shows "mustDecodeNode M h (encodeNode M (ShortNode (hexToCompact k) (ValueNode v) f)) gen
    = Inr (ShortNode k (ValueNode (Some [])) \<lparr>fhash = Some h, fgen = gen, fdirty = False\<rparr>)"
proof -
  have app: "AppendBytes M pre b = pre @ AppendBytes M [] b" for pre b using assms(1) unfolding msgp_ok_def by blast
  have rd: "ReadBytesBytes M (AppendBytes M [] b @ rest) = Inr (b, rest)" "ReadBytesBytes M (AppendBytes M [] b) = Inr (b, [])" for b rest
    using assms(1) unfolding msgp_ok_def by (blast, metis append.right_neutral)
  have hd: "ReadArrayHeaderBytes M (0x92 # rest) = Inr (2, rest)" for rest using assms(1) unfolding msgp_ok_def by blast
  obtain ns where ns: "nibbles ns" "k = ns @ [16]" using assms(2) by (auto simp: hexkey_def)
  let ?body = "AppendBytes M [] (hexToCompact k) @ 52 # AppendBytes M [] (slice_bytes v)"
  have enc: "encodeNode M (ShortNode (hexToCompact k) (ValueNode v) f) = 115 # 0x92 # ?body"
    by (simp add: Let_def detectNodeType_def app [of "[146]"] app [of "(_ @ _)"]) (subst app, simp)
  show ?thesis unfolding enc mustDecodeNode_def decodeNode_def decodeShort_def
    using compact_body(2) [OF ns(1)] by (simp add: hd rd GenNode_def ns(2))
qed

text \<open>C31: what a trie holds is lost when it is committed and opened again. Decoding a value node assigns the bytes it
  reads to a copy of the node, so the only key of a committed trie is found with an empty value.\<close>

theorem reopened_value_empty:
  assumes "msgp_ok (tmsgp e)" "\<forall>bs. length (tsha e bs) = 32" "val \<noteq> []"
    and "trie_New e 0 (NewDatabase disk) = Inr t" "Trie_TryUpdate e t key val = Some (Inr t1)"
    and "MerkleTrie_Commit e t1 None = Some (r, t2)" "r \<noteq> 0" "r \<noteq> emptyRoot"
  shows "\<exists>t3. trie_New e r (mtdb t2) = Inr t3 \<and> trie_view e t1 key = Inr (Some val)
     \<and> Trie_TryGet e t3 key = Some (Inr (Some [], t3))"
proof -
  let ?k = "keybytesToHex key"
  have t: "t = \<lparr>mtdb = NewDatabase disk, mtroot = NilNode, originalRoot = 0, mtcachegen = 0, mtcachelimit = 0\<rparr>"
    using assms(4) by (simp add: trie_New_def)
  have t1: "t1 = t\<lparr>mtroot := ShortNode ?k (ValueNode (Some val)) (newFlag t)\<rparr>"
    using assms(3,5) by (simp add: Trie_TryUpdate_def set_root_def trie_fuel_def t Let_def)
  have "trie_ok e t" by (simp add: trie_ok_def t)
  from Trie_TryUpdate_spec [OF this, of key val] have view: "trie_view e t1 key = Inr (Some val)" using assms(3,5) by auto
  let ?n = "ShortNode (hexToCompact ?k) (ValueNode (Some val)) (newFlag t)"
  let ?enc = "encodeNode (tmsgp e) ?n"
  obtain hs where hs: "BytesToHash (tsha e ?enc) = Some hs" using BytesToHash_digest assms(2) by blast
  have c: "hs = r \<and> db_Node (mtdb t2) r = Inr (Some ?enc)"
    using assms(6,7) hs
    by (auto simp: MerkleTrie_Commit_def hashRoot_def t1 t use_cached_def newFlag_def finish_hash_def hasher_store_def Let_def
        hash_of_def db_insert_def NewDatabase_def db_Node_def split: if_splits option.splits bind_splits)
  let ?t = "\<lparr>mtdb = mtdb t2, mtroot = NilNode, originalRoot = r, mtcachegen = 0, mtcachelimit = 0\<rparr>"
  let ?leaf = "ShortNode ?k (ValueNode (Some [])) \<lparr>fhash = Some (Hash_ToBytes r), fgen = 0, fdirty = False\<rparr>"
  have "resolveHash e ?t (Hash_ToBytes r) [] = Inr ?leaf"
    using c decode_leaf [OF assms(1) hexkey_keybytes, of "Hash_ToBytes r" key "Some val" "newFlag t" 0] by (simp add: resolveHash_def)
  then have n: "trie_New e r (mtdb t2) = Inr (?t\<lparr>mtroot := ?leaf\<rparr>)" using assms(7,8) by (simp add: trie_New_def Let_def)
  have "Trie_TryGet e (?t\<lparr>mtroot := ?leaf\<rparr>) key = Some (Inr (Some [], ?t\<lparr>mtroot := ?leaf\<rparr>))"
    by (simp add: Trie_TryGet_def trie_fuel_def Let_def)
  then show ?thesis using n view by blast
qed

section \<open>The node database\<close>

lemma unlink_newest:
  assumes "h \<noteq> oldest db" "h \<noteq> 0" "flushPrev n \<noteq> 0" "flushPrev n \<noteq> h" "flushNext n = 0"
    "map_of (tnodes db) (flushPrev n) = Some p" "map_of (tnodes db) 0 = Some q"
  shows "\<exists>db1. unlink db h n = Some db1 \<and> newest db1 = newest db \<and> oldest db1 = oldest db \<and> diskdb db1 = diskdb db
     \<and> dom (map_of (tnodes db1)) = dom (map_of (tnodes db))"
  using assms by (auto simp: unlink_def on_node_def update_conv)

text \<open>C32: committing the node that was inserted last while an older one stays cached leaves the end of the flush list
  pointing to it, because only the head of the list is adjusted. The next insertion of a new node then dereferences
  a node that is gone and panics.\<close>

theorem insert_after_commit_panics:
  assumes "distinct [0, a, b, c]" "range_order ord"
  shows "\<exists>db1 db2 db3. db_insert (NewDatabase disk) a x = Some db1 \<and> db_insert db1 b y = Some db2
     \<and> db_Commit (Suc fuel) ord ordp db2 b = Some (Some db3) \<and> map_of (tnodes db3) b = None \<and> newest db3 = b
     \<and> db_insert db3 c z = None"
proof -
  have o: "ord [] = []" using range_order_set [OF assms(2), of "[]"] by simp
  have d: "a \<noteq> 0" "b \<noteq> 0" "c \<noteq> 0" "a \<noteq> b" "a \<noteq> c" "b \<noteq> c" using assms(1) by auto
  obtain db1 where db1: "db_insert (NewDatabase disk) a x = Some db1" "oldest db1 = a" "newest db1 = a"
      "map_of (tnodes db1) 0 \<noteq> None" "map_of (tnodes db1) a \<noteq> None"
      "map_of (tnodes db1) b = None" "map_of (tnodes db1) c = None"
    using d by (simp add: db_insert_def NewDatabase_def)
  obtain db2 where db2: "db_insert db1 b y = Some db2" "oldest db2 = a" "newest db2 = b"
      "map_of (tnodes db2) 0 \<noteq> None" "map_of (tnodes db2) a \<noteq> None" "map_of (tnodes db2) c = None"
      "map_of (tnodes db2) b = Some \<lparr>blob = Some y, parents = 0, children = [], flushPrev = a, flushNext = 0\<rparr>"
      (is "map_of _ b = Some ?n")
    using d db1 by (auto simp: db_insert_def on_node_def Let_def)
  obtain disk1 bt where w: "db_commit (Suc fuel) ord db2 b (foldl put_preimage (diskdb db2, NewBatch) (ordp (preimages db2)))
      = Some (disk1, bt)"
    using db2(7) o by (cases "put_node (foldl put_preimage (diskdb db2, NewBatch) (ordp (preimages db2))) b ?n") simp
  define dbw where "dbw = db2\<lparr>diskdb := memBatch_Write disk1 bt, preimages := [], preimagesSize := 0\<rparr>"
  obtain dbu where u: "unlink dbw b ?n = Some dbu" "newest dbu = b" "oldest dbu = a"
      "dom (map_of (tnodes dbu)) = dom (map_of (tnodes db2))"
    using unlink_newest [of b dbw ?n] d db2 by (fastforce simp: dbw_def)
  have c: "map_of (tnodes dbu) c = None" using u(4) db2(6) by (metis domIff)
  obtain db3 where db3: "db_Commit (Suc fuel) ord ordp db2 b = Some (Some db3)" "newest db3 = b" "oldest db3 = a"
      "map_of (tnodes db3) b = None" "map_of (tnodes db3) c = None"
    using u(1-3) c d o w db2(7) by (simp add: db_Commit_def dbw_def forget_def Let_def)
  have "db_insert db3 c z = None" using db3 d by (simp add: db_insert_def on_node_def Let_def)
  then show ?thesis using db1(1) db2(1) db3 by blast
qed

section \<open>Witnesses\<close>

text \<open>A sample of msgp in which a string is preceded by its length in unary, and a digest that is always the same.\<close>

fun split_unary :: "byte list \<Rightarrow> nat \<times> byte list" where
  "split_unary [] = (0, [])"
| "split_unary (x # xs) = (if x = 1 then (Suc (fst (split_unary xs)), snd (split_unary xs)) else (0, xs))"

definition sample_msgp :: msgp where
  "sample_msgp =
     \<lparr>AppendBytes = (\<lambda>pre b. pre @ replicate (length b) 1 @ 0 # b),
      AppendArrayHeader = (\<lambda>pre sz. pre @ [of_nat sz + 0x90]),
      ReadBytesBytes = (\<lambda>bts. case split_unary bts of (n, r) \<Rightarrow> Inr (take n r, drop n r)),
      ReadArrayHeaderBytes = (\<lambda>bts. case bts of [] \<Rightarrow> Inl ErrDB | x # r \<Rightarrow> Inr (unat x - 0x90, r))\<rparr>"

definition sample_trie_env :: trie_env where
  "sample_trie_env = \<lparr>tmsgp = sample_msgp, tsha = (\<lambda>_. Hash_ToBytes 7)\<rparr>"

definition sample_trie :: MerkleTrie where
  "sample_trie = \<lparr>mtdb = NewDatabase NewMemDatabase, mtroot = NilNode, originalRoot = 0, mtcachegen = 0, mtcachelimit = 0\<rparr>"

definition sample_leaf :: MerkleTrie where
  "sample_leaf = sample_trie\<lparr>mtroot := ShortNode (keybytesToHex [18]) (ValueNode (Some [5])) (newFlag sample_trie)\<rparr>"

lemma split_unary_replicate [simp]: "split_unary (replicate n 1 @ 0 # r) = (n, r)"
  by (induction n) simp_all

lemma sample_msgp_ok: "msgp_ok sample_msgp"
  by (simp add: msgp_ok_def sample_msgp_def)

lemma sample_digest: "\<forall>bs. length (tsha sample_trie_env bs) = 32"
  by (simp add: sample_trie_env_def)

lemma sample_trie_New: "trie_New sample_trie_env 0 (NewDatabase NewMemDatabase) = Inr sample_trie"
  by (simp add: trie_New_def sample_trie_def)

lemma sample_leaf_ok: "trie_ok sample_trie_env sample_leaf"
  by (simp add: trie_ok_def sample_leaf_def good_leaf)

lemma sample_update: "Trie_TryUpdate sample_trie_env sample_trie [18] [5] = Some (Inr sample_leaf)"
  by (simp add: Trie_TryUpdate_def set_root_def trie_fuel_def sample_trie_def sample_leaf_def Let_def)

lemma sample_trie_commit: "\<exists>t2. MerkleTrie_Commit sample_trie_env sample_leaf None = Some (7, t2)"
  by (simp add: MerkleTrie_Commit_def hashRoot_def sample_leaf_def sample_trie_def use_cached_def newFlag_def finish_hash_def
      hasher_store_def Let_def hash_of_def sample_trie_env_def db_insert_def NewDatabase_def BytesToHash_ToBytes)

theorem trie_refines_map_witness:
  "trie_ok sample_trie_env sample_leaf
   \<and> (\<exists>t'. Trie_TryUpdate sample_trie_env sample_leaf [19] [6] = Some (Inr t') \<and> trie_ok sample_trie_env t'
        \<and> TryUpdate (trie_view sample_trie_env sample_leaf) [19] [6] = (None, trie_view sample_trie_env t'))"
  using trie_refines_map [OF sample_leaf_ok, of "[19]" "[6]"] sample_leaf_ok by blast

theorem root_determined_by_content_witness:
  "\<exists>t1 t2 h. run_updates (Trie_TryUpdate sample_trie_env) sample_trie [([18], [5]), ([19], [6])] = Some (Inr t1)
     \<and> run_updates (Trie_TryUpdate sample_trie_env) sample_trie [([19], [1]), ([20], [2]), ([18], [5]), ([19], [6]), ([20], [])] = Some (Inr t2)
     \<and> skeleton (mtroot t1) = skeleton (mtroot t2)
     \<and> map_option fst (Trie_Hash sample_trie_env t1) = Some h \<and> map_option fst (Trie_Hash sample_trie_env t2) = Some h"
  by (rule root_determined_by_content [OF _ sample_digest sample_trie_New]) (simp add: written_def)

theorem reopened_value_empty_witness:
  "\<exists>t2 t3. MerkleTrie_Commit sample_trie_env sample_leaf None = Some (7, t2) \<and> trie_New sample_trie_env 7 (mtdb t2) = Inr t3
     \<and> trie_view sample_trie_env sample_leaf [18] = Inr (Some [5])
     \<and> Trie_TryGet sample_trie_env t3 [18] = Some (Inr (Some [], t3))"
proof -
  obtain t2 where t2: "MerkleTrie_Commit sample_trie_env sample_leaf None = Some (7, t2)" using sample_trie_commit by blast
  have "msgp_ok (tmsgp sample_trie_env)" by (simp add: sample_trie_env_def sample_msgp_ok)
  from reopened_value_empty [OF this sample_digest _ sample_trie_New sample_update t2] t2
  show ?thesis by (simp add: emptyRoot_def)
qed

theorem insert_after_commit_panics_witness:
  "\<exists>db1 db2 db3. db_insert (NewDatabase NewMemDatabase) 1 [10] = Some db1 \<and> db_insert db1 2 [11] = Some db2
     \<and> db_Commit 1 id id db2 2 = Some (Some db3) \<and> map_of (tnodes db3) 2 = None \<and> newest db3 = 2
     \<and> db_insert db3 3 [12] = None"
  using insert_after_commit_panics [of 1 2 3 id NewMemDatabase "[10]" "[11]" 0 id "[12]"] by simp

end
