(* ===== verification/VMBase.thy ===== *)
theory VMBase
  imports Snapshots "HOL-Library.Signed_Division"
begin

text \<open>
  The ground of the virtual machine: number and byte helpers (\<^verbatim>\<open>src/vm/eth/common\<close>), the stack, the memory and
  the analysis of jump destinations (\<^verbatim>\<open>src/vm/eth/core/vm\<close>, \<^verbatim>\<open>src/vm/common\<close>, \<^verbatim>\<open>src/vm/code\<close>).

  A \<^verbatim>\<open>big.Int\<close> is an integer; \<^verbatim>\<open>Bits\<close> is its list of 64-bit words, least first, as on a 64-bit platform. The pool of
  reusable integers is left out: no instruction keeps a number it has put there. The stack is a list with its
  top first. An operation that can panic returns an option, \<open>None\<close> being the panic.
\<close>

section \<open>Numbers (vm/eth/common/math)\<close>

definition BigMax :: "int \<Rightarrow> int \<Rightarrow> int" where
  "BigMax x y = (if x < y then y else x)"

definition BigMin :: "int \<Rightarrow> int \<Rightarrow> int" where
  "BigMin x y = (if x > y then y else x)"

definition U256 :: "int \<Rightarrow> int" where
  "U256 x = and x (2 ^ 256 - 1)"

definition S256 :: "int \<Rightarrow> int" where
  "S256 x = (if x < 2 ^ 255 then x else x - 2 ^ 256)"

fun nat_words :: "nat \<Rightarrow> uint64 list" where
  "nat_words n = (if n = 0 then [] else word_of_nat n # nat_words (n div 2 ^ 64))"

declare nat_words.simps [simp del]

definition big_Bits :: "int \<Rightarrow> uint64 list" where
  "big_Bits x = nat_words (nat \<bar>x\<bar>)"

fun exp_bits :: "nat \<Rightarrow> uint64 \<Rightarrow> int \<times> int \<Rightarrow> int \<times> int" where
  "exp_bits 0 w (result, base) = (result, base)"
| "exp_bits (Suc i) w (result, base) =
     exp_bits i (drop_bit 1 w) (if and w 1 = 1 then U256 (result * base) else result, U256 (base * base))"

definition Exp :: "int \<Rightarrow> int \<Rightarrow> int" where
  "Exp base exponent = fst (fold (exp_bits 64) (big_Bits exponent) (1, base))"

definition bigEndianByteAt :: "int \<Rightarrow> nat \<Rightarrow> byte" where
  "bigEndianByteAt bigint n =
     (let ws = big_Bits bigint; i = n div 8 in
      if i \<ge> length ws then 0 else ucast (drop_bit (8 * (n mod 8)) (ws ! i)))"

definition big_Byte :: "int \<Rightarrow> nat \<Rightarrow> nat \<Rightarrow> byte" where
  "big_Byte bigint padlength n = (if n \<ge> padlength then 0 else bigEndianByteAt bigint (padlength - 1 - n))"

text \<open>\<^verbatim>\<open>ReadBits\<close> fills the buffer from its end with the bytes of each word.\<close>

fun read_word :: "nat \<Rightarrow> uint64 \<Rightarrow> nat \<times> byte list \<Rightarrow> nat \<times> byte list" where
  "read_word 0 d (i, buf) = (i, buf)"
| "read_word (Suc j) d (i, buf) =
     (if i > 0 then read_word j (drop_bit 8 d) (i - 1, buf[i - 1 := ucast d]) else (i, buf))"

definition ReadBits :: "int \<Rightarrow> byte list \<Rightarrow> byte list" where
  "ReadBits bigint buf = snd (fold (read_word 8) (big_Bits bigint) (length buf, buf))"

fun bit_len :: "nat \<Rightarrow> nat" where
  "bit_len n = (if n = 0 then 0 else Suc (bit_len (n div 2)))"

declare bit_len.simps [simp del]

definition BitLen :: "int \<Rightarrow> nat" where
  "BitLen x = bit_len (nat \<bar>x\<bar>)"

definition big_Uint64 :: "int \<Rightarrow> uint64" where
  "big_Uint64 x = word_of_nat (nat \<bar>x\<bar>)"

definition PaddedBigBytes :: "int \<Rightarrow> nat \<Rightarrow> byte list" where
  "PaddedBigBytes bigint n =
     (if BitLen bigint div 8 \<ge> n then nat_bytes (nat \<bar>bigint\<bar>) else ReadBits bigint (replicate n 0))"

definition SafeSub :: "uint64 \<Rightarrow> uint64 \<Rightarrow> uint64 \<times> bool" where
  "SafeSub x y = (x - y, x < y)"

definition SafeAdd :: "uint64 \<Rightarrow> uint64 \<Rightarrow> uint64 \<times> bool" where
  "SafeAdd x y = (x + y, y > - 1 - x)"

definition SafeMul :: "uint64 \<Rightarrow> uint64 \<Rightarrow> uint64 \<times> bool" where
  "SafeMul x y = (if x = 0 \<or> y = 0 then (0, False) else (x * y, y > - 1 div x))"

section \<open>Bytes (vm/eth/common)\<close>

definition CalcMemSize :: "int \<Rightarrow> int \<Rightarrow> int" where
  "CalcMemSize off l = (if sgn l = 0 then 0 else off + l)"

definition RightPadBytes :: "byte list \<Rightarrow> nat \<Rightarrow> byte list" where
  "RightPadBytes sl l = (if l \<le> length sl then sl else sl @ replicate (l - length sl) 0)"

definition LeftPadBytes :: "byte list \<Rightarrow> nat \<Rightarrow> byte list" where
  "LeftPadBytes sl l = (if l \<le> length sl then sl else replicate (l - length sl) 0 @ sl)"

definition AllZero :: "byte list \<Rightarrow> bool" where
  "AllZero b = list_all (\<lambda>x. x = 0) b"

text \<open>\<^verbatim>\<open>data[start:end]\<close>; an inverted range is a panic.\<close>

definition slice_of :: "byte list \<Rightarrow> nat \<Rightarrow> nat \<Rightarrow> byte list option" where
  "slice_of d i j = (if i \<le> j \<and> j \<le> length d then Some (take (j - i) (drop i d)) else None)"

definition GetData :: "byte list \<Rightarrow> uint64 \<Rightarrow> uint64 \<Rightarrow> byte list option" where
  "GetData d start sz =
     (let len = word_of_nat (length d);
          start1 = (if start > len then len else start);
          end1 = start1 + sz;
          end2 = (if end1 > len then len else end1)
      in map_option (\<lambda>s. RightPadBytes s (unat sz)) (slice_of d (unat start1) (unat end2)))"

definition GetDataBig :: "byte list \<Rightarrow> int \<Rightarrow> int \<Rightarrow> byte list option" where
  "GetDataBig d start sz =
     (let dlen = int (length d); s = BigMin start dlen; e = BigMin (s + sz) dlen in
      map_option (\<lambda>b. RightPadBytes b (unat (big_Uint64 sz)))
        (slice_of d (unat (big_Uint64 s)) (unat (big_Uint64 e))))"

definition BigUint64 :: "int \<Rightarrow> uint64 \<times> bool" where
  "BigUint64 v = (big_Uint64 v, BitLen v > 64)"

definition ToWordSize :: "uint64 \<Rightarrow> uint64" where
  "ToWordSize sz = (if sz > - 1 - 31 then - 1 div 32 + 1 else (sz + 31) div 32)"

text \<open>Reading a stack item as a hash or an address (\<^verbatim>\<open>src/types\<close>). The bytes of a number have no leading zeros; an
  address is filled from its left end.\<close>

definition BigToHash :: "int \<Rightarrow> Hash option" where
  "BigToHash b = BytesToHash (nat_bytes (nat \<bar>b\<bar>))"

definition Hash_Big :: "Hash \<Rightarrow> int" where
  "Hash_Big h = int (bytes_val (Hash_ToBytes h))"

definition BigToAddress :: "int \<Rightarrow> Address option" where
  "BigToAddress b = BytesToAddress (nat_bytes (nat \<bar>b\<bar>))"

definition Address_Big :: "Address \<Rightarrow> int" where
  "Address_Big a = int (bytes_val (Address_ToBytes a))"

section \<open>The stack (stack.go)\<close>

type_synonym Stack = "int list"

definition st_push :: "Stack \<Rightarrow> int \<Rightarrow> Stack" where
  "st_push st d = d # st"

definition st_pop :: "Stack \<Rightarrow> (int \<times> Stack) option" where
  "st_pop st = (case st of [] \<Rightarrow> None | x # r \<Rightarrow> Some (x, r))"

definition st_swap :: "Stack \<Rightarrow> nat \<Rightarrow> Stack option" where
  "st_swap st n = (if 0 < n \<and> n \<le> length st then Some (list_swap st (n - 1) 0) else None)"

definition st_dup :: "Stack \<Rightarrow> nat \<Rightarrow> Stack option" where
  "st_dup st n = (if 0 < n \<and> n \<le> length st then Some (st_push st (st ! (n - 1))) else None)"

definition st_Back :: "Stack \<Rightarrow> nat \<Rightarrow> int option" where
  "st_Back st n = (if n < length st then Some (st ! n) else None)"

definition st_require :: "Stack \<Rightarrow> nat \<Rightarrow> bool" where
  "st_require st n \<longleftrightarrow> \<not> length st < n"

section \<open>The memory (memory.go)\<close>

record Memory =
  mstore :: "byte list"
  lastGasCost :: uint64

definition NewMemory :: Memory where
  "NewMemory = \<lparr>mstore = [], lastGasCost = 0\<rparr>"

text \<open>\<^verbatim>\<open>copy(store[i:i+n], value)\<close> for a range that lies in the store.\<close>

definition copy_into :: "byte list \<Rightarrow> nat \<Rightarrow> nat \<Rightarrow> byte list \<Rightarrow> byte list" where
  "copy_into st i n v = (let k = min n (length v) in take i st @ take k v @ drop (i + k) st)"

definition Memory_Set :: "Memory \<Rightarrow> uint64 \<Rightarrow> uint64 \<Rightarrow> byte list \<Rightarrow> Memory option" where
  "Memory_Set m offset sz v =
     (if sz > 0 then
        if offset + sz > word_of_nat (length (mstore m)) then None
        else if offset + sz < offset then None
        else Some (m\<lparr>mstore := copy_into (mstore m) (unat offset) (unat sz) v\<rparr>)
      else Some m)"

definition Memory_Set32 :: "Memory \<Rightarrow> uint64 \<Rightarrow> int \<Rightarrow> Memory option" where
  "Memory_Set32 m offset val =
     (if offset + 32 > word_of_nat (length (mstore m)) then None
      else if offset + 32 < offset then None
      else Some (m\<lparr>mstore := copy_into (mstore m) (unat offset) 32 (ReadBits val (replicate 32 0))\<rparr>))"

definition Memory_Resize :: "Memory \<Rightarrow> uint64 \<Rightarrow> Memory" where
  "Memory_Resize m sz =
     (if word_of_nat (length (mstore m)) < sz
      then m\<lparr>mstore := mstore m @ replicate (unat (sz - word_of_nat (length (mstore m)))) 0\<rparr> else m)"

text \<open>The arguments of \<^verbatim>\<open>Get\<close> are signed. A negative one, and a range past the end of the store, is a panic; the
  nil result is the empty list.\<close>

definition Memory_GetPtr :: "Memory \<Rightarrow> int \<Rightarrow> int \<Rightarrow> byte list option" where
  "Memory_GetPtr m offset sz =
     (if sz = 0 then Some []
      else if int (length (mstore m)) > offset then
        if offset < 0 \<or> sz < 0 then None else slice_of (mstore m) (nat offset) (nat (offset + sz))
      else Some [])"

definition Memory_Get :: "Memory \<Rightarrow> int \<Rightarrow> int \<Rightarrow> byte list option" where
  "Memory_Get m offset sz = Memory_GetPtr m offset sz"

section \<open>Memory sizes (memory_table.go)\<close>

definition mem_size :: "Stack \<Rightarrow> nat \<Rightarrow> nat \<Rightarrow> int option" where
  "mem_size st i j = Option.bind (st_Back st i) (\<lambda>x. map_option (CalcMemSize x) (st_Back st j))"

definition mem_size_const :: "Stack \<Rightarrow> nat \<Rightarrow> int \<Rightarrow> int option" where
  "mem_size_const st i l = map_option (\<lambda>x. CalcMemSize x l) (st_Back st i)"

definition mem_size_max :: "int option \<Rightarrow> int option \<Rightarrow> int option" where
  "mem_size_max x y = Option.bind x (\<lambda>a. map_option (BigMax a) y)"

definition memorySha3 :: "Stack \<Rightarrow> int option" where
  "memorySha3 st = mem_size st 0 1"

definition memoryCallDataCopy :: "Stack \<Rightarrow> int option" where
  "memoryCallDataCopy st = mem_size st 0 2"

definition memoryReturnDataCopy :: "Stack \<Rightarrow> int option" where
  "memoryReturnDataCopy st = mem_size st 0 2"

definition memoryCodeCopy :: "Stack \<Rightarrow> int option" where
  "memoryCodeCopy st = mem_size st 0 2"

definition memoryExtCodeCopy :: "Stack \<Rightarrow> int option" where
  "memoryExtCodeCopy st = mem_size st 1 3"

definition memoryMLoad :: "Stack \<Rightarrow> int option" where
  "memoryMLoad st = mem_size_const st 0 32"

definition memoryMStore8 :: "Stack \<Rightarrow> int option" where
  "memoryMStore8 st = mem_size_const st 0 1"

definition memoryMStore :: "Stack \<Rightarrow> int option" where
  "memoryMStore st = mem_size_const st 0 32"

definition memoryCreate :: "Stack \<Rightarrow> int option" where
  "memoryCreate st = mem_size st 1 2"

definition memoryCreate2 :: "Stack \<Rightarrow> int option" where
  "memoryCreate2 st = mem_size st 1 2"

definition memoryCall :: "Stack \<Rightarrow> int option" where
  "memoryCall st = mem_size_max (mem_size st 5 6) (mem_size st 3 4)"

definition memoryDelegateCall :: "Stack \<Rightarrow> int option" where
  "memoryDelegateCall st = mem_size_max (mem_size st 4 5) (mem_size st 2 3)"

definition memoryStaticCall :: "Stack \<Rightarrow> int option" where
  "memoryStaticCall st = mem_size_max (mem_size st 4 5) (mem_size st 2 3)"

definition memoryReturn :: "Stack \<Rightarrow> int option" where
  "memoryReturn st = mem_size st 0 1"

definition memoryRevert :: "Stack \<Rightarrow> int option" where
  "memoryRevert st = mem_size st 0 1"

definition memoryLog :: "Stack \<Rightarrow> int option" where
  "memoryLog st = mem_size st 0 1"

section \<open>Jump destinations (bitvec.go, analysis.go)\<close>

type_synonym Bitvec = "byte list"

definition or_byte :: "Bitvec \<Rightarrow> nat \<Rightarrow> byte \<Rightarrow> Bitvec option" where
  "or_byte bits i b = (if i < length bits then Some (bits[i := or (bits ! i) b]) else None)"

definition Bitvec_Set :: "Bitvec \<Rightarrow> nat \<Rightarrow> Bitvec option" where
  "Bitvec_Set bits pos = or_byte bits (pos div 8) (drop_bit (pos mod 8) 0x80)"

definition Bitvec_Set8 :: "Bitvec \<Rightarrow> nat \<Rightarrow> Bitvec option" where
  "Bitvec_Set8 bits pos =
     Option.bind (or_byte bits (pos div 8) (drop_bit (pos mod 8) 0xFF))
       (\<lambda>bits1. or_byte bits1 (pos div 8 + 1) (not (drop_bit (pos mod 8) 0xFF)))"

definition CodeSegment :: "Bitvec \<Rightarrow> nat \<Rightarrow> bool option" where
  "CodeSegment bits pos =
     (if pos div 8 < length bits then Some (and (bits ! (pos div 8)) (drop_bit (pos mod 8) 0x80) = 0) else None)"

definition is_push :: "byte \<Rightarrow> bool" where
  "is_push op \<longleftrightarrow> op \<ge> 0x60 \<and> op \<le> 0x7f"

fun mark_data :: "nat \<Rightarrow> nat \<Rightarrow> Bitvec \<Rightarrow> Bitvec option" where
  "mark_data numbits p bits =
     (if numbits \<ge> 8 then Option.bind (Bitvec_Set8 bits p) (mark_data (numbits - 8) (p + 8))
      else if numbits > 0 then Option.bind (Bitvec_Set bits p) (mark_data (numbits - 1) (p + 1))
      else Some bits)"

declare mark_data.simps [simp del]

function bitmap_loop :: "byte list \<Rightarrow> nat \<Rightarrow> Bitvec \<Rightarrow> Bitvec option" where
  "bitmap_loop prog p bits =
     (if p < length prog then
        if is_push (prog ! p) then
          (let numbits = unat (prog ! p - 0x60 + 1) in
           case mark_data numbits (p + 1) bits of
             None \<Rightarrow> None
           | Some bits1 \<Rightarrow> bitmap_loop prog (p + 1 + numbits) bits1)
        else bitmap_loop prog (p + 1) bits
      else Some bits)"
  by pat_completeness auto
termination by (relation "measure (\<lambda>(prog, p, _). length prog - p)") auto

declare bitmap_loop.simps [simp del]

definition CodeBitmap :: "byte list \<Rightarrow> Bitvec option" where
  "CodeBitmap prog = bitmap_loop prog 0 (replicate (length prog div 8 + 1 + 4) 0)"

end
