(* ===== verification/VMContext.thy ===== *)
theory VMContext
  imports VMBase "HOL-Library.Monad_Syntax"
begin

text \<open>
  What an execution of the virtual machine works on: gas prices (\<^verbatim>\<open>src/vm/eth/params\<close>), the interface to the
  world state (\<^verbatim>\<open>src/vm/types/statedb_interface.go\<close>), contracts (\<^verbatim>\<open>src/vm/types/contract.go\<close>), the frame of a running contract, and
  the gas functions (\<^verbatim>\<open>src/vm/eth/core/vm/gas.go\<close>, \<^verbatim>\<open>gas_table.go\<close>).

  The world state is the interface \<open>vm_db\<close>, a record of operations on a state of any type; each returns an
  option, \<open>None\<close> being a panic. Contracts of one call tree share the map of analysed codes, so that map is a field
  of the machine and not of the contract. Tracing and the abort flag set by another goroutine are left out of the
  frame: \<open>Abort\<close> is read only.
\<close>

named_theorems vm_params

section \<open>Gas prices (protocol_params.go, gas_table.go, gas.go)\<close>

definition CallValueTransferGas :: uint64 where [vm_params]: "CallValueTransferGas = 9000"
definition CallNewAccountGas :: uint64 where [vm_params]: "CallNewAccountGas = 25000"
definition QuadCoeffDiv :: uint64 where [vm_params]: "QuadCoeffDiv = 512"
definition LogDataGas :: uint64 where [vm_params]: "LogDataGas = 8"
definition CallStipend :: uint64 where [vm_params]: "CallStipend = 2300"
definition Sha3Gas :: uint64 where [vm_params]: "Sha3Gas = 30"
definition Sha3WordGas :: uint64 where [vm_params]: "Sha3WordGas = 6"
definition SstoreSetGas :: uint64 where [vm_params]: "SstoreSetGas = 20000"
definition SstoreResetGas :: uint64 where [vm_params]: "SstoreResetGas = 5000"
definition SstoreClearGas :: uint64 where [vm_params]: "SstoreClearGas = 5000"
definition SstoreRefundGas :: uint64 where [vm_params]: "SstoreRefundGas = 15000"
definition JumpdestGas :: uint64 where [vm_params]: "JumpdestGas = 1"
definition CreateDataGas :: uint64 where [vm_params]: "CreateDataGas = 200"
definition CallCreateDepth :: int where [vm_params]: "CallCreateDepth = 1024"
definition LogGas :: uint64 where [vm_params]: "LogGas = 375"
definition CopyGas :: uint64 where [vm_params]: "CopyGas = 3"
definition StackLimit :: nat where [vm_params]: "StackLimit = 1024"
definition LogTopicGas :: uint64 where [vm_params]: "LogTopicGas = 375"
definition CreateGas :: uint64 where [vm_params]: "CreateGas = 32000"
definition Create2Gas :: uint64 where [vm_params]: "Create2Gas = 32000"
definition SuicideRefundGas :: uint64 where [vm_params]: "SuicideRefundGas = 24000"
definition MemoryGas :: uint64 where [vm_params]: "MemoryGas = 3"
definition MaxCodeSize :: nat where [vm_params]: "MaxCodeSize = 24576"

definition GasQuickStep :: uint64 where [vm_params]: "GasQuickStep = 2"
definition GasFastestStep :: uint64 where [vm_params]: "GasFastestStep = 3"
definition GasFastStep :: uint64 where [vm_params]: "GasFastStep = 5"
definition GasMidStep :: uint64 where [vm_params]: "GasMidStep = 8"
definition GasSlowStep :: uint64 where [vm_params]: "GasSlowStep = 10"

record GasTable =
  ExtcodeSize :: uint64
  ExtcodeCopy :: uint64
  ExtcodeHash :: uint64
  gtBalance :: uint64
  SLoad :: uint64
  Calls :: uint64
  gtSuicide :: uint64
  ExpByte :: uint64
  CreateBySuicide :: uint64

definition GasTableConstantinople :: GasTable where
  "GasTableConstantinople =
     \<lparr>ExtcodeSize = 700, ExtcodeCopy = 700, ExtcodeHash = 400, gtBalance = 400, SLoad = 200, Calls = 700,
      gtSuicide = 5000, ExpByte = 50, CreateBySuicide = 25000\<rparr>"

definition GetGasTable :: "uint64 \<Rightarrow> GasTable" where
  "GetGasTable num = GasTableConstantinople"

section \<open>Errors, world state and transaction\<close>

datatype vm_error =
    errGasUintOverflow
  | ErrOutOfGas
  | ErrCodeStoreOutOfGas
  | ErrDepth
  | ErrInsufficientBalance
  | ErrContractAddressCollision
  | ErrNoCompatibleInterpreter
  | ErrWriteProtection
  | ErrReturnDataOutOfBounds
  | ErrExecutionReverted
  | ErrMaxCodeSizeExceeded
  | ErrInvalidOpcode byte
  | ErrStackUnderflow nat nat
  | ErrStackLimit nat
  | ErrInvalidJump byte int
  | ErrPrecompiled string

record vm_log =
  lAddress :: Address
  lTopics :: "Hash list"
  lData :: "byte list"
  lSequenceID :: uint64

record 's vm_db =
  vCreateAccount :: "'s \<Rightarrow> Address \<Rightarrow> 's option"
  vSubBalance :: "'s \<Rightarrow> Address \<Rightarrow> int \<Rightarrow> 's option"
  vAddBalance :: "'s \<Rightarrow> Address \<Rightarrow> int \<Rightarrow> 's option"
  vGetBalance :: "'s \<Rightarrow> Address \<Rightarrow> (int \<times> 's) option"
  vGetNonce :: "'s \<Rightarrow> Address \<Rightarrow> (uint64 \<times> 's) option"
  vSetNonce :: "'s \<Rightarrow> Address \<Rightarrow> uint64 \<Rightarrow> 's option"
  vGetCodeHash :: "'s \<Rightarrow> Address \<Rightarrow> (Hash \<times> 's) option"
  vGetCode :: "'s \<Rightarrow> Address \<Rightarrow> (byte list \<times> 's) option"
  vSetCode :: "'s \<Rightarrow> Address \<Rightarrow> byte list \<Rightarrow> 's option"
  vGetCodeSize :: "'s \<Rightarrow> Address \<Rightarrow> (nat \<times> 's) option"
  vAddRefund :: "'s \<Rightarrow> uint64 \<Rightarrow> 's option"
  vGetState :: "'s \<Rightarrow> Address \<Rightarrow> Hash \<Rightarrow> (Hash \<times> 's) option"
  vSetState :: "'s \<Rightarrow> Address \<Rightarrow> Hash \<Rightarrow> Hash \<Rightarrow> 's option"
  vSuicide :: "'s \<Rightarrow> Address \<Rightarrow> (bool \<times> 's) option"
  vHasSuicided :: "'s \<Rightarrow> Address \<Rightarrow> (bool \<times> 's) option"
  vExist :: "'s \<Rightarrow> Address \<Rightarrow> (bool \<times> 's) option"
  vEmpty :: "'s \<Rightarrow> Address \<Rightarrow> (bool \<times> 's) option"
  vSnapshot :: "'s \<Rightarrow> (int \<times> 's) option"
  vRevertToSnapshot :: "'s \<Rightarrow> int \<Rightarrow> 's option"
  vAddLog :: "'s \<Rightarrow> vm_log \<Rightarrow> 's option"
  vAddPreimage :: "'s \<Rightarrow> Hash \<Rightarrow> byte list \<Rightarrow> 's option"

record TxContext =
  txFrom :: Address
  txGasPrice :: int
  txSequenceID :: uint64

text \<open>The configuration of a run. \<open>keccak\<close> is the digest; a precompiled contract is its price and its function. All
  interpreters of the list are instances of the one modelled here.\<close>

record 's vm_env =
  vdb :: "'s vm_db"
  keccak :: "byte list \<Rightarrow> byte list"
  precompiled :: "Address \<Rightarrow> ((byte list \<Rightarrow> uint64) \<times> (byte list \<Rightarrow> vm_error + byte list)) option"
  txctx :: TxContext
  EnablePreimageRecording :: bool
  NoRecursion :: bool
  Interpreters :: nat

definition vgas :: "'s vm_env \<Rightarrow> GasTable" where
  "vgas e = GetGasTable (txSequenceID (txctx e))"

section \<open>Contracts (vm/types/contract.go)\<close>

text \<open>What a contract reads of the one that called it: its address, its own caller and its value.\<close>

datatype ContractRef = AccountRef Address | CallerContract Address Address int

fun Ref_Address :: "ContractRef \<Rightarrow> Address" where
  "Ref_Address (AccountRef a) = a"
| "Ref_Address (CallerContract a _ _) = a"

record Contract =
  CallerAddress :: Address
  ccaller :: ContractRef
  cself :: Address
  canalysis :: "Bitvec option"
  cCode :: "byte list"
  cCodeHash :: Hash
  cCodeAddr :: "Address option"
  cInput :: "byte list"
  cGas :: uint64
  cvalue :: int

definition NewContract :: "ContractRef \<Rightarrow> Address \<Rightarrow> int \<Rightarrow> uint64 \<Rightarrow> Contract" where
  "NewContract caller self val gas =
     \<lparr>CallerAddress = Ref_Address caller, ccaller = caller, cself = self, canalysis = None, cCode = [], cCodeHash = 0,
      cCodeAddr = None, cInput = [], cGas = gas, cvalue = val\<rparr>"

definition GetByte :: "Contract \<Rightarrow> uint64 \<Rightarrow> byte" where
  "GetByte c n = (if unat n < length (cCode c) then cCode c ! unat n else 0)"

definition GetOp :: "Contract \<Rightarrow> uint64 \<Rightarrow> byte" where
  "GetOp c n = GetByte c n"

definition UseGas :: "Contract \<Rightarrow> uint64 \<Rightarrow> bool \<times> Contract" where
  "UseGas c gas = (if cGas c < gas then (False, c) else (True, c\<lparr>cGas := cGas c - gas\<rparr>))"

definition AsDelegate :: "Contract \<Rightarrow> Contract option" where
  "AsDelegate c =
     (case ccaller c of
        AccountRef _ \<Rightarrow> None
      | CallerContract _ callersCaller val \<Rightarrow> Some (c\<lparr>CallerAddress := callersCaller, cvalue := val\<rparr>))"

definition SetCallCode :: "Contract \<Rightarrow> Address \<Rightarrow> Hash \<Rightarrow> byte list \<Rightarrow> Contract" where
  "SetCallCode c addr hash prog = c\<lparr>cCode := prog, cCodeHash := hash, cCodeAddr := Some addr\<rparr>"

definition SetCodeOptionalHash :: "Contract \<Rightarrow> Address \<Rightarrow> byte list \<Rightarrow> Hash \<Rightarrow> Contract" where
  "SetCodeOptionalHash c addr prog hash = c\<lparr>cCode := prog, cCodeHash := hash, cCodeAddr := Some addr\<rparr>"

definition ValidJumpdest ::
    "Contract \<Rightarrow> (Hash, Bitvec) gomap \<Rightarrow> int \<Rightarrow> (bool \<times> Contract \<times> (Hash, Bitvec) gomap) option" where
  "ValidJumpdest c jd dest =
     (let udest = unat (big_Uint64 dest) in
      if BitLen dest \<ge> 63 \<or> udest \<ge> length (cCode c) then Some (False, c, jd)
      else if cCode c ! udest \<noteq> 0x5b then Some (False, c, jd)
      else if cCodeHash c \<noteq> 0 then
        (case map_of jd (cCodeHash c) of
           Some analysis \<Rightarrow> map_option (\<lambda>b. (b, c, jd)) (CodeSegment analysis udest)
         | None \<Rightarrow>
             (case CodeBitmap (cCode c) of
                None \<Rightarrow> None
              | Some analysis \<Rightarrow>
                  map_option (\<lambda>b. (b, c, AList.update (cCodeHash c) analysis jd)) (CodeSegment analysis udest)))
      else
        (case canalysis c of
           Some analysis \<Rightarrow> map_option (\<lambda>b. (b, c, jd)) (CodeSegment analysis udest)
         | None \<Rightarrow>
             (case CodeBitmap (cCode c) of
                None \<Rightarrow> None
              | Some analysis \<Rightarrow> map_option (\<lambda>b. (b, c\<lparr>canalysis := Some analysis\<rparr>, jd)) (CodeSegment analysis udest))))"

section \<open>The frame of a running contract\<close>

record 's machine =
  mdb :: 's
  CallGasTemp :: uint64
  Depth :: int
  Abort :: int
  mreadOnly :: bool
  returnData :: "byte list"
  jumpdests :: "(Hash, Bitvec) gomap"

record 's vmframe =
  fpc :: uint64
  fstack :: Stack
  fmem :: Memory
  fcon :: Contract
  fvm :: "'s machine"

definition set_db :: "'s vmframe \<Rightarrow> 's \<Rightarrow> 's vmframe" where
  "set_db fr s = fr\<lparr>fvm := (fvm fr)\<lparr>mdb := s\<rparr>\<rparr>"

definition self_ref :: "Contract \<Rightarrow> ContractRef" where
  "self_ref c = CallerContract (cself c) (CallerAddress c) (cvalue c)"

section \<open>Gas (gas.go, gas_table.go)\<close>

definition callGas :: "GasTable \<Rightarrow> uint64 \<Rightarrow> uint64 \<Rightarrow> int \<Rightarrow> vm_error + uint64" where
  "callGas gt availableGas base callCost =
     (let available = availableGas - base; gas = available - available div 64 in
      if CreateBySuicide gt > 0 \<and> (BitLen callCost > 64 \<or> gas < big_Uint64 callCost) then Inr gas
      else if BitLen callCost > 64 then Inl errGasUintOverflow
      else Inr (big_Uint64 callCost))"

definition memoryGasCost :: "Memory \<Rightarrow> uint64 \<Rightarrow> (vm_error + uint64) \<times> Memory" where
  "memoryGasCost mem newMemSize =
     (if newMemSize = 0 then (Inr 0, mem)
      else if newMemSize > 0xffffffffe0 then (Inl errGasUintOverflow, mem)
      else
        let newMemSizeWords = ToWordSize newMemSize in
        if newMemSizeWords * 32 > word_of_nat (length (mstore mem)) then
          let square = newMemSizeWords * newMemSizeWords;
              newTotalFee = newMemSizeWords * MemoryGas + square div QuadCoeffDiv
          in (Inr (newTotalFee - lastGasCost mem), mem\<lparr>lastGasCost := newTotalFee\<rparr>)
        else (Inr 0, mem))"

text \<open>A gas function gets the memory size and gives the price or an error, with the frame it has changed.\<close>

type_synonym 's gas_fun = "'s vm_env \<Rightarrow> 's vmframe \<Rightarrow> uint64 \<Rightarrow> ((vm_error + uint64) \<times> 's vmframe) option"

definition checked :: "uint64 \<times> bool \<Rightarrow> vm_error + uint64" where
  "checked r = (if snd r then Inl errGasUintOverflow else Inr (fst r))"

definition then_gas :: "vm_error + uint64 \<Rightarrow> (uint64 \<Rightarrow> vm_error + uint64) \<Rightarrow> vm_error + uint64" where
  "then_gas x f = (case x of Inl err \<Rightarrow> Inl err | Inr g \<Rightarrow> f g)"

definition after_memory ::
    "'s vmframe \<Rightarrow> uint64 \<Rightarrow> (uint64 \<Rightarrow> (vm_error + uint64) option) \<Rightarrow> ((vm_error + uint64) \<times> 's vmframe) option" where
  "after_memory fr memorySize k =
     (case memoryGasCost (fmem fr) memorySize of
        (Inl err, mem) \<Rightarrow> Some (Inl err, fr\<lparr>fmem := mem\<rparr>)
      | (Inr gas, mem) \<Rightarrow> map_option (\<lambda>r. (r, fr\<lparr>fmem := mem\<rparr>)) (k gas))"

definition constGasFunc :: "uint64 \<Rightarrow> 's gas_fun" where
  "constGasFunc gas e fr memorySize = Some (Inr gas, fr)"

text \<open>The price of an operation on a range of bytes: memory, a base price, and a price for each word of the size that is
  the stack item \<open>i\<close>.\<close>

definition words_gas :: "uint64 \<Rightarrow> nat \<Rightarrow> uint64 \<Rightarrow> 's gas_fun" where
  "words_gas base i perWord e fr memorySize =
     after_memory fr memorySize (\<lambda>gas0.
       case checked (SafeAdd gas0 base) of
         Inl err \<Rightarrow> Some (Inl err)
       | Inr gas \<Rightarrow>
           map_option (\<lambda>x.
             then_gas (checked (BigUint64 x)) (\<lambda>ws.
             then_gas (checked (SafeMul (ToWordSize ws) perWord)) (\<lambda>wordGas.
             checked (SafeAdd gas wordGas)))) (st_Back (fstack fr) i))"

definition gasCallDataCopy :: "'s gas_fun" where
  "gasCallDataCopy = words_gas GasFastestStep 2 CopyGas"

definition gasReturnDataCopy :: "'s gas_fun" where
  "gasReturnDataCopy = words_gas GasFastestStep 2 CopyGas"

definition gasSStore :: "'s gas_fun" where
  "gasSStore e fr memorySize =
     do { y \<leftarrow> st_Back (fstack fr) 1;
          x \<leftarrow> st_Back (fstack fr) 0;
          key \<leftarrow> BigToHash x;
          (current, s) \<leftarrow> vGetState (vdb e) (mdb (fvm fr)) (cself (fcon fr)) key;
          if current = 0 \<and> sgn y \<noteq> 0 then Some (Inr SstoreSetGas, set_db fr s)
          else if current \<noteq> 0 \<and> sgn y = 0 then
            map_option (\<lambda>s1. (Inr SstoreClearGas, set_db fr s1)) (vAddRefund (vdb e) s SstoreRefundGas)
          else Some (Inr SstoreResetGas, set_db fr s) }"

definition makeGasLog :: "uint64 \<Rightarrow> 's gas_fun" where
  "makeGasLog n e fr memorySize =
     (case st_Back (fstack fr) 1 of
        None \<Rightarrow> None
      | Some x \<Rightarrow>
          (case checked (BigUint64 x) of
             Inl err \<Rightarrow> Some (Inl err, fr)
           | Inr requestedSize \<Rightarrow>
               after_memory fr memorySize (\<lambda>gas0. Some (
                 then_gas (checked (SafeAdd gas0 LogGas)) (\<lambda>gas1.
                 then_gas (checked (SafeAdd gas1 (n * LogTopicGas))) (\<lambda>gas2.
                 then_gas (checked (SafeMul requestedSize LogDataGas)) (\<lambda>memorySizeGas.
                 checked (SafeAdd gas2 memorySizeGas))))))))"

definition gasSha3 :: "'s gas_fun" where
  "gasSha3 = words_gas Sha3Gas 1 Sha3WordGas"

definition gasCodeCopy :: "'s gas_fun" where
  "gasCodeCopy = words_gas GasFastestStep 2 CopyGas"

definition gasExtCodeCopy :: "'s gas_fun" where
  "gasExtCodeCopy e = words_gas (ExtcodeCopy (vgas e)) 3 CopyGas e"

definition gasExtCodeHash :: "'s gas_fun" where
  "gasExtCodeHash e fr memorySize = Some (Inr (ExtcodeHash (vgas e)), fr)"

definition memory_plus :: "uint64 \<Rightarrow> 's gas_fun" where
  "memory_plus base e fr memorySize = after_memory fr memorySize (\<lambda>gas. Some (checked (SafeAdd gas base)))"

definition gasMLoad :: "'s gas_fun" where
  "gasMLoad = memory_plus GasFastestStep"

definition gasMStore8 :: "'s gas_fun" where
  "gasMStore8 = memory_plus GasFastestStep"

definition gasMStore :: "'s gas_fun" where
  "gasMStore = memory_plus GasFastestStep"

definition gasCreate :: "'s gas_fun" where
  "gasCreate = memory_plus CreateGas"

definition gasCreate2 :: "'s gas_fun" where
  "gasCreate2 = words_gas Create2Gas 2 Sha3WordGas"

definition gasBalance :: "'s gas_fun" where
  "gasBalance e fr memorySize = Some (Inr (gtBalance (vgas e)), fr)"

definition gasExtCodeSize :: "'s gas_fun" where
  "gasExtCodeSize e fr memorySize = Some (Inr (ExtcodeSize (vgas e)), fr)"

definition gasSLoad :: "'s gas_fun" where
  "gasSLoad e fr memorySize = Some (Inr (SLoad (vgas e)), fr)"

definition gasExp :: "'s gas_fun" where
  "gasExp e fr memorySize =
     map_option (\<lambda>x.
       let expByteLen = word_of_nat ((BitLen x + 7) div 8) in
       (checked (SafeAdd (expByteLen * ExpByte (vgas e)) GasSlowStep), fr)) (st_Back (fstack fr) 1)"

text \<open>The end of the gas functions of calls: what the callee may use is left in \<open>CallGasTemp\<close> and charged with the base
  price.\<close>

definition charge_call :: "'s vm_env \<Rightarrow> 's vmframe \<Rightarrow> uint64 \<Rightarrow> ((vm_error + uint64) \<times> 's vmframe) option" where
  "charge_call e fr gas =
     map_option (\<lambda>x.
       case callGas (vgas e) (cGas (fcon fr)) gas x of
         Inl err \<Rightarrow> (Inl err, fr\<lparr>fvm := (fvm fr)\<lparr>CallGasTemp := 0\<rparr>\<rparr>)
       | Inr temp \<Rightarrow> (checked (SafeAdd gas temp), fr\<lparr>fvm := (fvm fr)\<lparr>CallGasTemp := temp\<rparr>\<rparr>))
       (st_Back (fstack fr) 0)"

definition call_gas :: "'s vm_env \<Rightarrow> 's vmframe \<Rightarrow> uint64 \<Rightarrow> uint64 \<Rightarrow> ((vm_error + uint64) \<times> 's vmframe) option" where
  "call_gas e fr gas memorySize =
     (case memoryGasCost (fmem fr) memorySize of
        (Inl err, mem) \<Rightarrow> Some (Inl err, fr\<lparr>fmem := mem\<rparr>)
      | (Inr memoryGas, mem) \<Rightarrow>
          (case checked (SafeAdd gas memoryGas) of
             Inl err \<Rightarrow> Some (Inl err, fr\<lparr>fmem := mem\<rparr>)
           | Inr gas1 \<Rightarrow> charge_call e (fr\<lparr>fmem := mem\<rparr>) gas1))"

definition gasCall :: "'s gas_fun" where
  "gasCall e fr memorySize =
     do { val \<leftarrow> st_Back (fstack fr) 2;
          addr \<leftarrow> st_Back (fstack fr) 1;
          address \<leftarrow> BigToAddress addr;
          let transfersValue = sgn val \<noteq> 0;
          (new, s) \<leftarrow> (if transfersValue then vEmpty (vdb e) (mdb (fvm fr)) address else Some (False, mdb (fvm fr)));
          let gas1 = (if transfersValue \<and> new then Calls (vgas e) + CallNewAccountGas else Calls (vgas e));
          let gas2 = (if transfersValue then gas1 + CallValueTransferGas else gas1);
          call_gas e (set_db fr s) gas2 memorySize }"

definition gasCallCode :: "'s gas_fun" where
  "gasCallCode e fr memorySize =
     do { val \<leftarrow> st_Back (fstack fr) 2;
          call_gas e fr (if sgn val \<noteq> 0 then Calls (vgas e) + CallValueTransferGas else Calls (vgas e)) memorySize }"

definition gasReturn :: "'s gas_fun" where
  "gasReturn e fr memorySize = after_memory fr memorySize (\<lambda>gas. Some (Inr gas))"

definition gasRevert :: "'s gas_fun" where
  "gasRevert e fr memorySize = after_memory fr memorySize (\<lambda>gas. Some (Inr gas))"

definition gasSuicide :: "'s gas_fun" where
  "gasSuicide e fr memorySize =
     do { x \<leftarrow> st_Back (fstack fr) 0;
          address \<leftarrow> BigToAddress x;
          (new, s1) \<leftarrow> vEmpty (vdb e) (mdb (fvm fr)) address;
          (balance, s2) \<leftarrow> (if new then vGetBalance (vdb e) s1 (cself (fcon fr)) else Some (0, s1));
          let gas = (if new \<and> sgn balance \<noteq> 0 then gtSuicide (vgas e) + CreateBySuicide (vgas e) else gtSuicide (vgas e));
          (dead, s3) \<leftarrow> vHasSuicided (vdb e) s2 (cself (fcon fr));
          s4 \<leftarrow> (if dead then Some s3 else vAddRefund (vdb e) s3 SuicideRefundGas);
          Some (Inr gas, set_db fr s4) }"

text \<open>\<^verbatim>\<open>gasDelegateCall\<close> and \<^verbatim>\<open>gasStaticCall\<close> add the base price to the memory price.\<close>

definition gasDelegateCall :: "'s gas_fun" where
  "gasDelegateCall e fr memorySize = call_gas e fr (Calls (vgas e)) memorySize"

definition gasStaticCall :: "'s gas_fun" where
  "gasStaticCall e fr memorySize = call_gas e fr (Calls (vgas e)) memorySize"

definition gasPush :: "'s gas_fun" where
  "gasPush e fr memorySize = Some (Inr GasFastestStep, fr)"

definition gasSwap :: "'s gas_fun" where
  "gasSwap e fr memorySize = Some (Inr GasFastestStep, fr)"

definition gasDup :: "'s gas_fun" where
  "gasDup e fr memorySize = Some (Inr GasFastestStep, fr)"

end
