(* ===== verification/Spec2Isabelle.thy ===== *)
theory Spec2Isabelle
  imports TxBuffer Hexutil TrieProps VMContext
begin

text \<open>
  A verification of the ledger core of OG, a DAG-based block chain node written in Go.

  \<^bold>\<open>The program.\<close> A transaction or sequencer (\<^verbatim>\<open>src/types\<close>) that arrives at the node enters the
  transaction buffer (\<^verbatim>\<open>src/og/tx_buffer.go\<close>), which runs the verifiers (\<^verbatim>\<open>src/og/verifier.go\<close>), waits for
  missing parents and hands what is complete to the pool (\<^verbatim>\<open>src/core/tx_pool.go\<close>). The pool keeps a flow of
  nonces and balances for every sender (\<^verbatim>\<open>src/core/account_flow.go\<close>) and judges every transaction by it. When
  a sequencer arrives, the pool collects the unconfirmed ancestors of the sequencer and pushes them to the DAG
  (\<^verbatim>\<open>src/core/dag.go\<close>). The DAG executes them against the world state (\<^verbatim>\<open>src/core/state\<close>), which commits to a
  Merkle Patricia trie (\<^verbatim>\<open>src/trie\<close>), and stores them through the accessor (\<^verbatim>\<open>src/core/accessor.go\<close>) in a
  key-value store (\<^verbatim>\<open>src/ogdb\<close>). Contracts run in a virtual machine (\<^verbatim>\<open>src/vm\<close>).

  \<^bold>\<open>Conventions.\<close> Go integers are words of their width: \<^verbatim>\<open>uint64\<close> is \<^typ>\<open>64 word\<close>, a hash \<^typ>\<open>256 word\<close>,
  an address \<^typ>\<open>160 word\<close>; \<^verbatim>\<open>big.Int\<close> is \<^typ>\<open>int\<close>. A Go struct is a record and an interface a datatype of its
  implementations. A Go map is an association list with the lookups and updates of \<open>Prelude\<close>, or a HOL map where no
  iteration over it matters; iteration order is a parameter. An error is a value of a sum type; where a call may
  panic the result is an option and \<open>None\<close> the panic. Locks are left out: an operation is one step, and the
  goroutines of the pool and of the buffer are sequences of such steps in any order.

  \<^bold>\<open>Theories.\<close>

  \<^item> \<open>Prelude\<close>: types, byte strings, Go maps, lemma collections, facts on lists and words.
  \<^item> \<open>OGTypes\<close>: \<^verbatim>\<open>types/hash.go\<close>, \<^verbatim>\<open>address.go\<close>, \<^verbatim>\<open>tx.go\<close>, \<^verbatim>\<open>sequencer.go\<close>, \<^verbatim>\<open>tx_inferface.go\<close>,
    \<^verbatim>\<open>common/math/bigint.go\<close>: data, weights, order, signing and hashing input.
  \<^item> \<open>AccountFlow\<close>: \<^verbatim>\<open>core/account_flow.go\<close>: nonce heap (\<^verbatim>\<open>container/heap\<close> written out), transaction list,
    balance state. The locale \<open>nonce_list\<close> is what the flow relies on of its list.
  \<^item> \<open>StateDB\<close>, \<open>Snapshots\<close>, \<open>StateCommit\<close>: \<^verbatim>\<open>core/state/*.go\<close>: accounts, code and storage; the journal and its
    undo; commit to the trie and the purge of cached objects. The locale \<open>account_ledger\<close> is what transaction
    execution relies on; a revert restores every account, commit is durable, a purge is invisible.
  \<^item> \<open>Accessor\<close>: \<^verbatim>\<open>ogdb/memdb.go\<close>, \<^verbatim>\<open>core/accessor.go\<close>, \<^verbatim>\<open>core/receipt.go\<close>. The locale \<open>kv_store\<close> is the
    contract of a key-value store; keys of different records never coincide, records are read back as written.
  \<^item> \<open>Dag\<close>, \<open>DagPush\<close>: \<^verbatim>\<open>core/dag.go\<close>: queries; push of a confirm batch, which moves exactly the values of its
    transactions, conserves supply and makes the batch retrievable.
  \<^item> \<open>TxPool\<close>: the operations of \<^verbatim>\<open>core/tx_pool.go\<close>. \<open>PoolInv\<close>: its invariant over the locale \<open>tx_index\<close> of the
    lookup table. \<open>Elders\<close>: the search for unconfirmed ancestors. \<open>PoolConfirm\<close>: confirming a sequencer.
    \<open>PoolSteps\<close>: one event of the pool loop and the step relation over events. \<open>PoolProps\<close>: no reachable pool
    overspends or panics; what a confirmation does; the search is exact.
  \<^item> \<open>Verifier\<close>: \<^verbatim>\<open>og/verifier.go\<close>: format and graph checks; verified weights rule out cycles, hashes bind content,
    the searches for previous transactions are exact.
  \<^item> \<open>TxBuffer\<close>: \<^verbatim>\<open>og/tx_buffer.go\<close>: dependency cache and cascading resolution; only verified, complete transactions
    reach the pool, and the cascade ends.
  \<^item> \<open>Hexutil\<close>: \<^verbatim>\<open>common/hexutil\<close>: every encoder and decoder with round trips.
  \<^item> \<open>TrieNode\<close>: \<^verbatim>\<open>trie/encoding.go\<close>, \<^verbatim>\<open>node.go\<close>, \<^verbatim>\<open>node_gen.go\<close>. \<open>TrieStore\<close>: \<^verbatim>\<open>trie/database.go\<close>.
    \<open>MerkleTrie\<close>: \<^verbatim>\<open>trie/trie.go\<close>, \<^verbatim>\<open>hasher.go\<close>, \<^verbatim>\<open>secure_trie.go\<close>. \<open>TrieShape\<close>: the shape invariant and the map a
    node stands for. \<open>TrieUpdate\<close>: lookup, insertion and deletion against that map. \<open>TrieRoot\<close>: the tree is
    determined by its content; the locale \<open>trie_provider\<close>, interpreted on the trie and on the finite map that
    the world state works on, connects the two. \<open>TrieProps\<close>: the properties of the trie.
  \<^item> \<open>VMBase\<close>, \<open>VMContext\<close>: \<^verbatim>\<open>vm/eth/common\<close>, \<^verbatim>\<open>vm/eth/core/vm\<close>, \<^verbatim>\<open>vm/types\<close>, \<^verbatim>\<open>vm/code\<close>: numbers, stack, memory,
    jump destinations, contracts and gas of the virtual machine.

  \<^bold>\<open>Loops and fuel.\<close> Loops over work lists (\<^verbatim>\<open>seekElders\<close>, the searches of the verifier, the walk for missing
  ancestors, the heap, the jump destination analysis) are total functions with a termination proof: each step either
  shortens the list or adds to a set bounded by what is stored. The cascade of the buffer takes \<open>nice_fuel\<close>, one more
  than the entries of the dependency cache, and every nested call follows the removal of an entry. The trie takes
  \<open>trie_fuel\<close>, two units for every nibble of the key, since a hash node resolves to a node that is not a hash. In both
  cases the properties state that the fuel suffices. Decoding a trie node takes as much fuel as there are bytes.

  \<^bold>\<open>Parameters.\<close> Digests, signature checks, the msgp codecs, random draws, the clock, iteration orders, evictions of
  the third-party cache and the contract execution that transaction processing calls are arguments of the
  definitions that use them. What a property relies on, such as a codec that inverts its encoder or a digest without
  a collision on the inputs at hand, is a hypothesis of it, and a concrete instance satisfies it.

  \<^bold>\<open>Not modelled.\<close> Networking, synchronisation, message handlers, RPC and command line (I/O and timers); mining and
  client automation (a randomised search); metrics, logging and generated codecs; trie iterators, proofs and sync,
  which the ledger core does not call.
\<close>

end
